(* ===== verification/Prelude.thy ===== *)
theory Prelude
  imports
    Main
    "HOL-Library.Word"
    "HOL-Library.Multiset"
    "HOL-Library.Char_ord"
    "HOL-Library.List_Lexorder"
    "HOL-Library.Product_Lexorder"
    "HOL-Library.Numeral_Type"
begin

text \<open>
  The vocabulary shared by every component of the development.

  \<^item> Integers. Rust's unsigned integers are natural numbers; an operation that
    checks or wraps writes the bound out (\<open>u64_bound\<close>). Signed 64-bit values are \<open>int\<close>.
    UUIDs are 128-bit words, bytes are 8-bit words.
  \<^item> Text. A Rust string is a list of bytes, i.e. \<open>string\<close>. Decimal
    printing and parsing of \<open>u64\<close> (the standard library's \<open>Display\<close> and \<open>FromStr\<close>) are
    defined and proved to be inverse to each other.
  \<^item> Results. A fallible operation returns \<open>'e + 'a\<close>, \<open>Inl\<close> being the error.
  \<^item> Hash maps whose iteration order the code may observe are association
    lists with distinct keys; the order of the list is the iteration order.
\<close>

named_theorems wal_simps \<open>rewrite rules of the write-ahead log\<close>
named_theorems buffer_simps \<open>rewrite rules of the hot buffer\<close>
named_theorems guard_simps \<open>rewrite rules of the append guard\<close>

type_synonym byte = "8 word"
type_synonym uuid = "128 word"
type_synonym generation = nat
type_synonym snapshot_id = int
type_synonym ('e, 'a) result = "'e + 'a"

definition u64_bound :: nat where
  "u64_bound = 2 ^ 64"

definition u64_max :: nat where
  "u64_max = 2 ^ 64 - 1"

lemma u64_bound_pos [simp]: "0 < u64_bound"
  by (simp add: u64_bound_def)

lemma u64_max_less [simp]: "u64_max < u64_bound"
  by (simp add: u64_bound_def u64_max_def)

lemma Suc_u64_max [simp]: "Suc u64_max = u64_bound"
  by (simp add: u64_bound_def u64_max_def)

lemma less_u64_bound_iff: "n < u64_bound \<longleftrightarrow> n \<le> u64_max"
  by (simp add: less_Suc_eq_le flip: Suc_u64_max)


section \<open>Results\<close>

fun is_ok :: "'e + 'a \<Rightarrow> bool" where
  "is_ok (Inl _) = False"
| "is_ok (Inr _) = True"

fun bind_r :: "'e + 'a \<Rightarrow> ('a \<Rightarrow> 'e + 'b) \<Rightarrow> 'e + 'b" where
  "bind_r (Inl e) f = Inl e"
| "bind_r (Inr x) f = f x"

lemma bind_r_eq_Inr [simp]: "bind_r m f = Inr y \<longleftrightarrow> (\<exists>x. m = Inr x \<and> f x = Inr y)"
  by (cases m) auto

lemma bind_r_eq_Inl: "bind_r m f = Inl e \<longleftrightarrow> m = Inl e \<or> (\<exists>x. m = Inr x \<and> f x = Inl e)"
  by (cases m) auto

lemma map_sum_eq_Inr [simp]: "map_sum id f m = Inr y \<longleftrightarrow> (\<exists>x. m = Inr x \<and> y = f x)"
  by (cases m) auto

lemma map_sum_eq_Inl [simp]: "map_sum id f m = Inl e \<longleftrightarrow> m = Inl e"
  by (cases m) auto

lemma is_ok_iff: "is_ok m \<longleftrightarrow> (\<exists>x. m = Inr x)"
  by (cases m) auto


section \<open>Lists\<close>

lemma takeWhile_append_stop:
  "(\<And>x. x \<in> set xs \<Longrightarrow> P x) \<Longrightarrow> \<not> P y \<Longrightarrow> takeWhile P (xs @ y # ys) = xs"
  by (induction xs) auto

lemma dropWhile_append_stop:
  "(\<And>x. x \<in> set xs \<Longrightarrow> P x) \<Longrightarrow> \<not> P y \<Longrightarrow> dropWhile P (xs @ y # ys) = y # ys"
  by (induction xs) auto

lemma sum_list_filter_le:
  "sum_list (map f (filter P xs)) \<le> (sum_list (map f xs) :: nat)"
  by (induction xs) auto

lemma sum_list_partition:
  "sum_list (map f (filter P xs)) + sum_list (map f (filter (\<lambda>x. \<not> P x) xs)) =
    (sum_list (map f xs) :: nat)"
  by (induction xs) auto

lemma mset_partition: "mset (filter P xs) + mset (filter (\<lambda>x. \<not> P x) xs) = mset xs"
  by simp

fun max_list :: "nat list \<Rightarrow> nat" where
  "max_list [] = 0"
| "max_list (x # xs) = max x (max_list xs)"

lemma max_list_ge: "x \<in> set xs \<Longrightarrow> x \<le> max_list xs"
  by (induction xs) auto

lemma max_list_in: "xs \<noteq> [] \<Longrightarrow> max_list xs \<in> set xs"
proof (induction xs)
  case (Cons x xs)
  then show ?case by (cases "xs = []") (auto simp: max_def)
qed simp

lemma max_list_less: "(\<And>x. x \<in> set xs \<Longrightarrow> x < n) \<Longrightarrow> 0 < n \<Longrightarrow> max_list xs < n"
  by (induction xs) auto


section \<open>Association lists as hash maps\<close>

type_synonym props = "(string \<times> string) list"

fun al_put :: "'k \<Rightarrow> 'v \<Rightarrow> ('k \<times> 'v) list \<Rightarrow> ('k \<times> 'v) list" where
  "al_put k v [] = [(k, v)]"
| "al_put k v (p # ps) = (if fst p = k then (k, v) # ps else p # al_put k v ps)"

definition al_del :: "'k \<Rightarrow> ('k \<times> 'v) list \<Rightarrow> ('k \<times> 'v) list" where
  "al_del k m = filter (\<lambda>p. fst p \<noteq> k) m"

lemma map_of_al_put [simp]: "map_of (al_put k v m) = (map_of m)(k \<mapsto> v)"
  by (induction m) auto

lemma map_of_al_del [simp]: "map_of (al_del k m) = (map_of m)(k := None)"
  by (induction m) (auto simp: al_del_def)

lemma keys_al_put [simp]: "fst ` set (al_put k v m) = insert k (fst ` set m)"
  by (induction m) auto

lemma distinct_al_put [simp]: "distinct (map fst m) \<Longrightarrow> distinct (map fst (al_put k v m))"
proof (induction m)
  case (Cons p m)
  moreover have "fst p \<noteq> k \<Longrightarrow> fst p \<notin> fst ` set m \<Longrightarrow> fst p \<notin> fst ` set (al_put k v m)"
    by simp
  ultimately show ?case by auto
qed simp

lemma distinct_al_del [simp]: "distinct (map fst m) \<Longrightarrow> distinct (map fst (al_del k m))"
  by (simp add: al_del_def distinct_map_filter)

lemma length_al_put:
  "length (al_put k v m) = (if k \<in> fst ` set m then length m else Suc (length m))"
  by (induction m) (auto split: if_splits)

lemma set_al_put:
  "distinct (map fst m) \<Longrightarrow> set (al_put k v m) = insert (k, v) {p \<in> set m. fst p \<noteq> k}"
proof (induction m)
  case (Cons p m)
  then show ?case by (cases p) (auto simp: image_iff)
qed simp

lemma filter_fst_al_put:
  "filter P (map fst (al_put k v m)) =
    filter P (map fst m) @ (if P k \<and> k \<notin> fst ` set m then [k] else [])"
  by (induction m) auto


section \<open>Decimal text\<close>

definition digit_char :: "nat \<Rightarrow> char" where
  "digit_char d = char_of (48 + d)"

definition is_digit :: "char \<Rightarrow> bool" where
  "is_digit c \<longleftrightarrow> 48 \<le> (of_char c :: nat) \<and> (of_char c :: nat) \<le> 57"

definition digit_val :: "char \<Rightarrow> nat" where
  "digit_val c = of_char c - 48"

fun dec_str :: "nat \<Rightarrow> string" where
  "dec_str n = (if n < 10 then [digit_char n] else dec_str (n div 10) @ [digit_char (n mod 10)])"

declare dec_str.simps [simp del]

definition dec_val :: "string \<Rightarrow> nat" where
  "dec_val s = foldl (\<lambda>a c. 10 * a + digit_val c) 0 s"

definition dec_parse_u64 :: "string \<Rightarrow> nat option" where
  "dec_parse_u64 s =
    (let t = (case s of c # r \<Rightarrow> if c = CHR ''+'' then r else s | [] \<Rightarrow> [])
     in if t = [] \<or> \<not> list_all is_digit t then None
        else if dec_val t < u64_bound then Some (dec_val t) else None)"

lemma digit_char_of [simp]: "d < 10 \<Longrightarrow> of_char (digit_char d) = 48 + d"
  by (simp add: digit_char_def)

lemma digit_val_char [simp]: "d < 10 \<Longrightarrow> digit_val (digit_char d) = d"
  by (simp add: digit_val_def)

lemma is_digit_char [simp]: "d < 10 \<Longrightarrow> is_digit (digit_char d)"
  by (simp add: is_digit_def)

lemma dec_val_snoc: "dec_val (s @ [c]) = 10 * dec_val s + digit_val c"
  by (simp add: dec_val_def)

lemma dec_val_Cons: "dec_val (c # s) = digit_val c * 10 ^ length s + dec_val s"
proof -
  have "foldl (\<lambda>a c. 10 * a + digit_val c) k s = k * 10 ^ length s + foldl (\<lambda>a c. 10 * a + digit_val c) 0 s" for k s
  proof (induction s rule: rev_induct)
    case (snoc x s)
    then show ?case by simp
  qed simp
  from this[of "digit_val c" s] show ?thesis by (simp add: dec_val_def)
qed

lemma dec_val_str [simp]: "dec_val (dec_str n) = n"
proof (induction n rule: dec_str.induct)
  case (1 n)
  show ?case
  proof (cases "n < 10")
    case True
    then show ?thesis by (simp add: dec_str.simps[of n] dec_val_def)
  next
    case False
    then show ?thesis using 1 by (simp add: dec_str.simps[of n] dec_val_snoc)
  qed
qed

lemma dec_str_digits [simp]: "list_all is_digit (dec_str n)"
proof (induction n rule: dec_str.induct)
  case (1 n)
  then show ?case by (subst dec_str.simps) simp
qed

lemma dec_str_nonempty [simp]: "dec_str n \<noteq> []"
  by (subst dec_str.simps) simp

lemma dec_str_inj [simp]: "dec_str m = dec_str n \<longleftrightarrow> m = n"
  by (metis dec_val_str)

lemma not_digit_plus [simp]: "\<not> is_digit (CHR ''+'')"
  by (simp add: is_digit_def)

lemma dec_parse_str [simp]: "n < u64_bound \<Longrightarrow> dec_parse_u64 (dec_str n) = Some n"
proof -
  assume n: "n < u64_bound"
  obtain c r where cr: "dec_str n = c # r"
    using dec_str_nonempty[of n] by (cases "dec_str n") auto
  have "is_digit c"
    using dec_str_digits[of n] cr by simp
  then have "c \<noteq> CHR ''+''"
    using not_digit_plus by blast
  then show ?thesis
    using n dec_str_digits[of n] dec_val_str[of n]
    by (simp add: dec_parse_u64_def cr Let_def del: dec_str_digits dec_val_str)
qed


section \<open>Little-endian 32-bit fields\<close>

text \<open>Rust's \<open>u32::to_le_bytes\<close> and \<open>u32::from_le_bytes\<close>.\<close>

definition u32_to_le :: "nat \<Rightarrow> byte list" where
  "u32_to_le n = [word_of_nat n, word_of_nat (n div 2 ^ 8), word_of_nat (n div 2 ^ 16),
    word_of_nat (n div 2 ^ 24)]"

definition u32_from_le :: "byte \<Rightarrow> byte \<Rightarrow> byte \<Rightarrow> byte \<Rightarrow> nat" where
  "u32_from_le a b c d = unat a + 2 ^ 8 * unat b + 2 ^ 16 * unat c + 2 ^ 24 * unat d"

lemma length_u32_to_le [simp]: "length (u32_to_le n) = 4"
  by (simp add: u32_to_le_def)

lemma unat_byte_of_nat: "unat (word_of_nat n :: byte) = n mod 256"
  by (simp add: unat_of_nat)

lemma u32_le_split:
  "n mod 256 + 256 * ((n div 256) mod 256) + 65536 * ((n div 65536) mod 256)
    + 16777216 * (n div 16777216) = (n :: nat)"
proof -
  define a b c where abc: "a = n div 256" "b = a div 256" "c = b div 256"
  have bc: "n div 65536 = b" "n div 16777216 = c"
    by (simp_all add: abc div_mult2_eq[symmetric])
  have "n = 256 * a + n mod 256" "a = 256 * b + a mod 256" "b = 256 * c + b mod 256"
    by (simp_all add: abc)
  then have "n mod 256 + 256 * (a mod 256) + 65536 * (b mod 256) + 16777216 * c = n"
    by linarith
  then show ?thesis
    by (simp only: bc flip: abc(1))
qed

lemma u32_le_roundtrip:
  assumes "n < 2 ^ 32"
  shows "u32_from_le (word_of_nat n) (word_of_nat (n div 2 ^ 8)) (word_of_nat (n div 2 ^ 16))
    (word_of_nat (n div 2 ^ 24)) = n"
proof -
  have "(n div 16777216) mod 256 = n div 16777216"
    using assms by (simp add: less_mult_imp_div_less)
  then show ?thesis
    using u32_le_split[of n] by (simp add: u32_from_le_def unat_byte_of_nat)
qed

section \<open>Text\<close>

definition starts_with :: "string \<Rightarrow> string \<Rightarrow> bool" where
  "starts_with s p \<longleftrightarrow> take (length p) s = p"

definition ends_with :: "string \<Rightarrow> string \<Rightarrow> bool" where
  "ends_with s suffix \<longleftrightarrow> length suffix \<le> length s \<and> drop (length s - length suffix) s = suffix"

definition strip_prefix :: "string \<Rightarrow> string \<Rightarrow> string option" where
  "strip_prefix p s = (if starts_with s p then Some (drop (length p) s) else None)"

lemma starts_with_append [simp]: "starts_with (p @ s) p"
  by (simp add: starts_with_def)

lemma starts_with_iff: "starts_with s p \<longleftrightarrow> (\<exists>t. s = p @ t)"
  by (metis append_take_drop_id starts_with_append starts_with_def)

lemma strip_prefix_Some: "strip_prefix p s = Some t \<longleftrightarrow> s = p @ t"
  by (auto simp: strip_prefix_def starts_with_iff)

fun find_sub :: "string \<Rightarrow> string \<Rightarrow> nat option" where
  "find_sub p [] = (if p = [] then Some 0 else None)"
| "find_sub p (c # s) = (if starts_with (c # s) p then Some 0 else map_option Suc (find_sub p s))"

fun split_on :: "char \<Rightarrow> string \<Rightarrow> string list" where
  "split_on d [] = [[]]"
| "split_on d (c # s) =
    (if c = d then [] # split_on d s
     else (case split_on d s of [] \<Rightarrow> [[c]] | w # ws \<Rightarrow> (c # w) # ws))"

fun join_with :: "char \<Rightarrow> string list \<Rightarrow> string" where
  "join_with d [] = []"
| "join_with d [w] = w"
| "join_with d (w # v # ws) = w @ d # join_with d (v # ws)"

lemma split_on_not_Nil [simp]: "split_on d s \<noteq> []"
  by (cases s) (auto split: list.splits)

lemma split_on_no_sep: "w \<in> set (split_on d s) \<Longrightarrow> d \<notin> set w"
  by (induction d s arbitrary: w rule: split_on.induct) (auto split: list.splits if_splits)

lemma split_on_single: "d \<notin> set w \<Longrightarrow> split_on d w = [w]"
  by (induction w) auto

lemma split_on_append: "d \<notin> set w \<Longrightarrow> split_on d (w @ d # s) = w # split_on d s"
  by (induction w) auto

lemma split_on_join: "ws \<noteq> [] \<Longrightarrow> \<forall>w \<in> set ws. d \<notin> set w \<Longrightarrow> split_on d (join_with d ws) = ws"
  by (induction d ws rule: join_with.induct) (auto simp: split_on_single split_on_append)

lemma join_split_on: "join_with d (split_on d s) = s"
proof (induction d s rule: split_on.induct)
  case (2 d c s)
  obtain w ws where "split_on d s = w # ws" by (cases "split_on d s") auto
  then show ?case using 2 by (cases ws) auto
qed simp

end
