(* ===== verification/Core_Types.thy ===== *)
theory Core_Types
  imports Prelude
begin

text \<open>
  Identifiers and the error taxonomy of \<open>teodb-core\<close> (\<open>ident.rs\<close>, \<open>error.rs\<close>).

  The payload text of an error is the format string of the source; the formatted arguments
  are kept where another part of the program reads them (the structured fields), and left out
  of the text.
\<close>

record TableIdent =
  ti_namespace :: string
  ti_name :: string

definition TableIdent_new :: "string \<Rightarrow> string \<Rightarrow> TableIdent" where
  "TableIdent_new namespace name = \<lparr>ti_namespace = namespace, ti_name = name\<rparr>"

definition fully_qualified :: "TableIdent \<Rightarrow> string" where
  "fully_qualified t = ti_namespace t @ ''.'' @ ti_name t"

definition is_nil :: "uuid \<Rightarrow> bool" where
  "is_nil u \<longleftrightarrow> u = 0"

datatype TeoDBError =
    Config string
  | InvalidArgument string string
  | NotFound string
  | AlreadyExists string
  | Conflict string string string
  | CommitStateUnknown TableIdent uuid string
  | FlushBlocked TableIdent uuid
  | StaleWriterEpoch TableIdent uuid nat nat
  | WriterRegistryFull TableIdent nat
  | MetadataCorruption TableIdent string
  | TableIncarnationMismatch TableIdent uuid uuid
  | WriteProtocol TableIdent string
  | Unauthorized
  | Forbidden string
  | RateLimited nat
  | Backpressure string
  | ResultTooLarge nat
  | Unavailable string
  | ObjectStore string
  | CatalogErr string
  | Parquet string
  | Arrow string
  | DataFusion string
  | QueryExecution string
  | Iceberg string
  | Wal string "string option"
  | Internal string
  | ExternalRetryable string
  | ExternalFatal string

type_synonym 'a teo_result = "TeoDBError + 'a"

datatype GrpcCode =
    Grpc_Ok | Grpc_Cancelled | Grpc_InvalidArgument | Grpc_NotFound | Grpc_AlreadyExists
  | Grpc_PermissionDenied | Grpc_Unauthenticated | Grpc_ResourceExhausted
  | Grpc_FailedPrecondition | Grpc_Aborted | Grpc_Unimplemented | Grpc_Internal
  | Grpc_Unavailable | Grpc_DataLoss

definition wal :: "string \<Rightarrow> TeoDBError" where
  "wal message = Wal message None"

definition wal_source :: "string \<Rightarrow> string \<Rightarrow> TeoDBError" where
  "wal_source message source = Wal message (Some source)"

fun error_code :: "TeoDBError \<Rightarrow> string" where
  "error_code (Config _) = ''Config''"
| "error_code (InvalidArgument _ _) = ''InvalidArgument''"
| "error_code (NotFound _) = ''NotFound''"
| "error_code (AlreadyExists _) = ''AlreadyExists''"
| "error_code (Conflict _ _ _) = ''Conflict''"
| "error_code (CommitStateUnknown _ _ _) = ''CommitStateUnknown''"
| "error_code (FlushBlocked _ _) = ''FlushBlocked''"
| "error_code (StaleWriterEpoch _ _ _ _) = ''StaleWriterEpoch''"
| "error_code (WriterRegistryFull _ _) = ''WriterRegistryFull''"
| "error_code (MetadataCorruption _ _) = ''MetadataCorruption''"
| "error_code (TableIncarnationMismatch _ _ _) = ''TableIncarnationMismatch''"
| "error_code (WriteProtocol _ _) = ''WriteProtocol''"
| "error_code Unauthorized = ''Unauthorized''"
| "error_code (Forbidden _) = ''Forbidden''"
| "error_code (RateLimited _) = ''RateLimited''"
| "error_code (Backpressure _) = ''Backpressure''"
| "error_code (ResultTooLarge _) = ''ResultTooLarge''"
| "error_code (Unavailable _) = ''Unavailable''"
| "error_code (ObjectStore _) = ''ObjectStore''"
| "error_code (CatalogErr _) = ''Catalog''"
| "error_code (Parquet _) = ''Parquet''"
| "error_code (Arrow _) = ''Arrow''"
| "error_code (DataFusion _) = ''DataFusion''"
| "error_code (QueryExecution _) = ''QueryExecution''"
| "error_code (Iceberg _) = ''Iceberg''"
| "error_code (Wal _ _) = ''Wal''"
| "error_code (Internal _) = ''Internal''"
| "error_code (ExternalRetryable _) = ''ExternalRetryable''"
| "error_code (ExternalFatal _) = ''ExternalFatal''"

fun http_status :: "TeoDBError \<Rightarrow> nat" where
  "http_status (InvalidArgument _ _) = 400"
| "http_status (Config _) = 400"
| "http_status Unauthorized = 401"
| "http_status (Forbidden _) = 403"
| "http_status (NotFound _) = 404"
| "http_status (AlreadyExists _) = 409"
| "http_status (Conflict _ _ _) = 409"
| "http_status (StaleWriterEpoch _ _ _ _) = 409"
| "http_status (WriterRegistryFull _ _) = 409"
| "http_status (TableIncarnationMismatch _ _ _) = 409"
| "http_status (WriteProtocol _ _) = 409"
| "http_status (RateLimited _) = 429"
| "http_status (ResultTooLarge _) = 413"
| "http_status (Backpressure _) = 503"
| "http_status (Unavailable _) = 503"
| "http_status (ExternalRetryable _) = 503"
| "http_status (ObjectStore _) = 503"
| "http_status (CommitStateUnknown _ _ _) = 503"
| "http_status (FlushBlocked _ _) = 503"
| "http_status (Parquet _) = 500"
| "http_status (Arrow _) = 500"
| "http_status (DataFusion _) = 500"
| "http_status (QueryExecution _) = 500"
| "http_status (CatalogErr _) = 500"
| "http_status (Iceberg _) = 500"
| "http_status (Wal _ _) = 500"
| "http_status (Internal _) = 500"
| "http_status (MetadataCorruption _ _) = 500"
| "http_status (ExternalFatal _) = 500"

fun grpc_code :: "TeoDBError \<Rightarrow> GrpcCode" where
  "grpc_code (InvalidArgument _ _) = Grpc_InvalidArgument"
| "grpc_code (Config _) = Grpc_InvalidArgument"
| "grpc_code Unauthorized = Grpc_Unauthenticated"
| "grpc_code (Forbidden _) = Grpc_PermissionDenied"
| "grpc_code (NotFound _) = Grpc_NotFound"
| "grpc_code (AlreadyExists _) = Grpc_AlreadyExists"
| "grpc_code (Conflict _ _ _) = Grpc_Aborted"
| "grpc_code (StaleWriterEpoch _ _ _ _) = Grpc_FailedPrecondition"
| "grpc_code (WriterRegistryFull _ _) = Grpc_FailedPrecondition"
| "grpc_code (TableIncarnationMismatch _ _ _) = Grpc_FailedPrecondition"
| "grpc_code (WriteProtocol _ _) = Grpc_FailedPrecondition"
| "grpc_code (RateLimited _) = Grpc_ResourceExhausted"
| "grpc_code (Backpressure _) = Grpc_ResourceExhausted"
| "grpc_code (ResultTooLarge _) = Grpc_ResourceExhausted"
| "grpc_code (Unavailable _) = Grpc_Unavailable"
| "grpc_code (ExternalRetryable _) = Grpc_Unavailable"
| "grpc_code (ObjectStore _) = Grpc_Unavailable"
| "grpc_code (CommitStateUnknown _ _ _) = Grpc_Unavailable"
| "grpc_code (FlushBlocked _ _) = Grpc_Unavailable"
| "grpc_code (Parquet _) = Grpc_Internal"
| "grpc_code (Arrow _) = Grpc_Internal"
| "grpc_code (DataFusion _) = Grpc_Internal"
| "grpc_code (QueryExecution _) = Grpc_Internal"
| "grpc_code (CatalogErr _) = Grpc_Internal"
| "grpc_code (Iceberg _) = Grpc_Internal"
| "grpc_code (Wal _ _) = Grpc_Internal"
| "grpc_code (Internal _) = Grpc_Internal"
| "grpc_code (MetadataCorruption _ _) = Grpc_Internal"
| "grpc_code (ExternalFatal _) = Grpc_Internal"

fun is_retryable :: "TeoDBError \<Rightarrow> bool" where
  "is_retryable (Conflict _ _ _) = True"
| "is_retryable (CommitStateUnknown _ _ _) = True"
| "is_retryable (FlushBlocked _ _) = True"
| "is_retryable (RateLimited _) = True"
| "is_retryable (Backpressure _) = True"
| "is_retryable (Unavailable _) = True"
| "is_retryable (ObjectStore _) = True"
| "is_retryable (ExternalRetryable _) = True"
| "is_retryable _ = False"

fun retry_after_ms :: "TeoDBError \<Rightarrow> nat option" where
  "retry_after_ms (RateLimited ms) = Some ms"
| "retry_after_ms _ = None"

text \<open>
  The three views of an error agree: an error is retryable exactly when its HTTP status is
  503 or 429, or it is the optimistic-concurrency conflict.
\<close>

lemma retryable_status:
  "is_retryable e \<longleftrightarrow> http_status e \<in> {429, 503} \<or> (\<exists>r x a. e = Conflict r x a)"
  by (cases e) auto

lemma retryable_grpc:
  "is_retryable e \<Longrightarrow> grpc_code e \<in> {Grpc_Aborted, Grpc_ResourceExhausted, Grpc_Unavailable}"
  by (cases e) auto

lemma server_fault_agree: "http_status e = 500 \<longleftrightarrow> grpc_code e = Grpc_Internal"
  by (cases e) auto

end
