(* ===== verification/Write_Protocol.thy ===== *)
theory Write_Protocol
  imports Core_Types
begin

text \<open>
  The multi-writer append protocol identities and metadata codecs of
  \<open>teodb-core/src/write_protocol.rs\<close>.

  The text form of a UUID (crate \<open>uuid\<close>), the JSON form of a writer checkpoint (crate
  \<open>serde_json\<close>) and the name-based UUID are the code of other packages: they are the fields of
  the parameter \<open>text_codec\<close>. What the protocol relies on is stated by \<open>uuid_text_ok\<close> (a
  UUID that is printed is parsed back, and parsing accepts only what denotes a UUID) and, per
  checkpoint, by \<open>ckpt_text_ok\<close> (a checkpoint that is printed is parsed back and its text fits
  the size limit).
\<close>

section \<open>Constants and identity types\<close>

definition WRITE_PROTOCOL_VERSION :: nat where
  "WRITE_PROTOCOL_VERSION = 1"

definition WRITER_CHECKPOINT_PREFIX :: string where
  "WRITER_CHECKPOINT_PREFIX = ''teodb.writer.v1.''"

definition MAX_WRITER_CHECKPOINT_VALUE_BYTES :: nat where
  "MAX_WRITER_CHECKPOINT_VALUE_BYTES = 4 * 1024"

definition MAX_IDENTITY_COMPONENT_BYTES :: nat where
  "MAX_IDENTITY_COMPONENT_BYTES = 128"

definition COMMIT_ID_PROPERTY :: string where
  "COMMIT_ID_PROPERTY = ''teodb.commit.id''"

definition WRITER_ID_PROPERTY :: string where
  "WRITER_ID_PROPERTY = ''teodb.writer.id''"

definition WRITER_EPOCH_PROPERTY :: string where
  "WRITER_EPOCH_PROPERTY = ''teodb.writer.epoch''"

definition GENERATION_MIN_PROPERTY :: string where
  "GENERATION_MIN_PROPERTY = ''teodb.generation.min''"

definition GENERATION_MAX_PROPERTY :: string where
  "GENERATION_MAX_PROPERTY = ''teodb.generation.max''"

definition TABLE_UUID_PROPERTY :: string where
  "TABLE_UUID_PROPERTY = ''teodb.table.uuid''"

definition PROTOCOL_VERSION_PROPERTY :: string where
  "PROTOCOL_VERSION_PROPERTY = ''teodb.protocol.version''"

lemmas property_keys =
  COMMIT_ID_PROPERTY_def WRITER_ID_PROPERTY_def WRITER_EPOCH_PROPERTY_def
  GENERATION_MIN_PROPERTY_def GENERATION_MAX_PROPERTY_def TABLE_UUID_PROPERTY_def
  PROTOCOL_VERSION_PROPERTY_def WRITER_CHECKPOINT_PREFIX_def

record WriterCheckpoint =
  wc_version :: nat
  wc_epoch :: nat
  wc_generation :: generation
  wc_commit_id :: uuid
  wc_committed_at_ms :: int

record text_codec =
  uuid_fmt :: "uuid \<Rightarrow> string"
  uuid_parse :: "string \<Rightarrow> uuid option"
  uuid_v5 :: "uuid \<Rightarrow> string \<Rightarrow> uuid"
  ckpt_enc :: "WriterCheckpoint \<Rightarrow> string option"
  ckpt_dec :: "string \<Rightarrow> WriterCheckpoint option"

definition uuid_text_ok :: "text_codec \<Rightarrow> bool" where
  "uuid_text_ok T \<longleftrightarrow> (\<forall>u. uuid_parse T (uuid_fmt T u) = Some u \<and> uuid_fmt T u \<noteq> [] \<and>
    list_all (\<lambda>c. is_digit c \<or> c \<in> set ''abcdef-'') (uuid_fmt T u))"

definition ckpt_text_ok :: "text_codec \<Rightarrow> WriterCheckpoint \<Rightarrow> bool" where
  "ckpt_text_ok T c \<longleftrightarrow>
    (case ckpt_enc T c of None \<Rightarrow> False
     | Some s \<Rightarrow> ckpt_dec T s = Some c \<and> length s \<le> MAX_WRITER_CHECKPOINT_VALUE_BYTES)"

lemma uuid_fmt_inj: "uuid_text_ok T \<Longrightarrow> uuid_fmt T u = uuid_fmt T v \<longleftrightarrow> u = v"
  by (metis uuid_text_ok_def option.inject)

lemma uuid_fmt_chars:
  assumes "uuid_text_ok T" "c \<in> set (uuid_fmt T u)"
  shows "is_digit c \<or> c \<in> set ''abcdef-''"
  using assms unfolding uuid_text_ok_def list_all_iff by blast

lemma uuid_fmt_plain:
  assumes "uuid_text_ok T"
  shows "uuid_fmt T u \<noteq> []" "CHR ''/'' \<notin> set (uuid_fmt T u)" "CHR ''.'' \<notin> set (uuid_fmt T u)"
proof -
  show "uuid_fmt T u \<noteq> []" using assms by (simp add: uuid_text_ok_def)
  show "CHR ''/'' \<notin> set (uuid_fmt T u)" "CHR ''.'' \<notin> set (uuid_fmt T u)"
    using uuid_fmt_chars[OF assms] by (fastforce simp: is_digit_def)+
qed

definition WriterId_derive :: "text_codec \<Rightarrow> uuid \<Rightarrow> string \<Rightarrow> uuid" where
  "WriterId_derive T cluster_id writer_slot = uuid_v5 T cluster_id writer_slot"

definition is_identity_byte :: "char \<Rightarrow> bool" where
  "is_identity_byte c \<longleftrightarrow>
    (let b = (of_char c :: nat) in
      48 \<le> b \<and> b \<le> 57 \<or> 65 \<le> b \<and> b \<le> 90 \<or> 97 \<le> b \<and> b \<le> 122)
    \<or> c = CHR ''.'' \<or> c = CHR ''_'' \<or> c = CHR ''-''"

definition validate_identity_component :: "string \<Rightarrow> string \<Rightarrow> unit teo_result" where
  "validate_identity_component field value =
    (if value = [] then Inl (Config (field @ '' must not be empty''))
     else if length value > MAX_IDENTITY_COMPONENT_BYTES
       then Inl (Config (field @ '' exceeds 128 bytes''))
     else if \<not> list_all is_identity_byte value
       then Inl (Config (field @ '' may contain only ASCII letters, digits, '.', '_' and '-' ''))
     else Inr ())"

definition NodeId_new :: "string \<Rightarrow> string teo_result" where
  "NodeId_new value =
    bind_r (validate_identity_component ''cluster.node_id'' value) (\<lambda>_. Inr value)"

definition WriterSlot_new :: "string \<Rightarrow> string teo_result" where
  "WriterSlot_new value =
    bind_r (validate_identity_component ''cluster.writer_slot'' value) (\<lambda>_. Inr value)"

definition checked_next :: "nat \<Rightarrow> nat teo_result" where
  "checked_next epoch =
    (if epoch + 1 < u64_bound then Inr (epoch + 1) else Inl (Config ''writer epoch exhausted''))"

record ResolvedIdentity =
  ri_cluster_id :: uuid
  ri_node_id :: string
  ri_writer_slot :: string
  ri_writer_id :: uuid
  ri_writer_epoch :: nat

record GenerationRange =
  gr_lo :: generation
  gr_hi :: generation

definition GenerationRange_new :: "generation \<Rightarrow> generation \<Rightarrow> GenerationRange teo_result" where
  "GenerationRange_new lo hi =
    (if lo = 0 then Inl (InvalidArgument ''generation_lo'' ''generation ranges start at 1'')
     else if lo > hi then Inl (InvalidArgument ''generation_range'' ''lower bound exceeds upper bound'')
     else Inr \<lparr>gr_lo = lo, gr_hi = hi\<rparr>)"

definition range_contains :: "GenerationRange \<Rightarrow> generation \<Rightarrow> bool" where
  "range_contains r generation \<longleftrightarrow> generation \<ge> gr_lo r \<and> generation \<le> gr_hi r"

record WalTableKey =
  wk_table_uuid :: uuid
  wk_ident :: TableIdent

definition WalTableKey_new :: "uuid \<Rightarrow> TableIdent \<Rightarrow> WalTableKey" where
  "WalTableKey_new table_uuid ident = \<lparr>wk_table_uuid = table_uuid, wk_ident = ident\<rparr>"

record AppendCommitIdentity =
  ac_writer_id :: uuid
  ac_writer_epoch :: nat
  ac_commit_id :: uuid
  ac_generations :: GenerationRange

definition identity_validate ::
    "AppendCommitIdentity \<Rightarrow> TableIdent \<Rightarrow> uuid \<Rightarrow> unit teo_result" where
  "identity_validate i table table_uuid =
    (let invalid =
       (if is_nil table_uuid then Some ''table UUID is nil''
        else if is_nil (ac_writer_id i) then Some ''writer ID is nil''
        else if ac_writer_epoch i = 0 then Some ''writer epoch is zero''
        else if is_nil (ac_commit_id i) then Some ''commit ID is nil''
        else if gr_lo (ac_generations i) = 0 \<or> gr_lo (ac_generations i) > gr_hi (ac_generations i)
          then Some ''generation range is invalid''
        else None)
     in case invalid of Some message \<Rightarrow> Inl (WriteProtocol table message) | None \<Rightarrow> Inr ())"

section \<open>Snapshot identity\<close>

definition append_snapshot_identity_properties ::
    "text_codec \<Rightarrow> uuid \<Rightarrow> AppendCommitIdentity \<Rightarrow> props" where
  "append_snapshot_identity_properties T table_uuid i =
    [(COMMIT_ID_PROPERTY, uuid_fmt T (ac_commit_id i)),
     (WRITER_ID_PROPERTY, uuid_fmt T (ac_writer_id i)),
     (WRITER_EPOCH_PROPERTY, dec_str (ac_writer_epoch i)),
     (GENERATION_MIN_PROPERTY, dec_str (gr_lo (ac_generations i))),
     (GENERATION_MAX_PROPERTY, dec_str (gr_hi (ac_generations i))),
     (TABLE_UUID_PROPERTY, uuid_fmt T table_uuid),
     (PROTOCOL_VERSION_PROPERTY, dec_str WRITE_PROTOCOL_VERSION)]"

fun check_identity_properties ::
    "TableIdent \<Rightarrow> props \<Rightarrow> props \<Rightarrow> bool teo_result" where
  "check_identity_properties table properties [] = Inr True"
| "check_identity_properties table properties ((key, expected) # rest) =
    (if map_of properties key \<noteq> Some expected
     then Inl (MetadataCorruption table (''snapshot reuses commit ID with mismatched '' @ key))
     else check_identity_properties table properties rest)"

definition snapshot_matches_append_identity ::
    "text_codec \<Rightarrow> TableIdent \<Rightarrow> uuid \<Rightarrow> AppendCommitIdentity \<Rightarrow> props \<Rightarrow> bool teo_result" where
  "snapshot_matches_append_identity T table table_uuid i properties =
    (if map_of properties COMMIT_ID_PROPERTY \<noteq> Some (uuid_fmt T (ac_commit_id i)) then Inr False
     else check_identity_properties table properties
       (append_snapshot_identity_properties T table_uuid i))"

section \<open>Writer checkpoints\<close>

definition WriterCheckpoint_new ::
    "nat \<Rightarrow> generation \<Rightarrow> uuid \<Rightarrow> int \<Rightarrow> WriterCheckpoint" where
  "WriterCheckpoint_new epoch generation commit_id committed_at_ms =
    \<lparr>wc_version = WRITE_PROTOCOL_VERSION, wc_epoch = epoch, wc_generation = generation,
     wc_commit_id = commit_id, wc_committed_at_ms = committed_at_ms\<rparr>"

definition WriterCheckpoint_encode :: "text_codec \<Rightarrow> WriterCheckpoint \<Rightarrow> string teo_result" where
  "WriterCheckpoint_encode T c =
    (case ckpt_enc T c of None \<Rightarrow> Inl (Internal ''serialize writer checkpoint'') | Some s \<Rightarrow> Inr s)"

definition WriterCheckpoint_decode ::
    "text_codec \<Rightarrow> TableIdent \<Rightarrow> string \<Rightarrow> WriterCheckpoint teo_result" where
  "WriterCheckpoint_decode T table value =
    (if length value > MAX_WRITER_CHECKPOINT_VALUE_BYTES
     then Inl (MetadataCorruption table ''writer checkpoint exceeds 4096 bytes'')
     else case ckpt_dec T value of
       None \<Rightarrow> Inl (MetadataCorruption table ''malformed writer checkpoint'')
     | Some c \<Rightarrow>
         if wc_version c \<noteq> WRITE_PROTOCOL_VERSION
           then Inl (MetadataCorruption table ''unsupported writer checkpoint version'')
         else if wc_epoch c = 0
           then Inl (MetadataCorruption table ''writer checkpoint has zero epoch'')
         else if wc_generation c = 0
           then Inl (MetadataCorruption table ''writer checkpoint has zero generation'')
         else if is_nil (wc_commit_id c)
           then Inl (MetadataCorruption table ''writer checkpoint has a nil commit ID'')
         else if wc_committed_at_ms c < 0
           then Inl (MetadataCorruption table ''writer checkpoint has a negative timestamp'')
         else Inr c)"

definition writer_checkpoint_key :: "text_codec \<Rightarrow> uuid \<Rightarrow> string" where
  "writer_checkpoint_key T writer_id = WRITER_CHECKPOINT_PREFIX @ uuid_fmt T writer_id"

definition parse_writer_checkpoint ::
    "text_codec \<Rightarrow> TableIdent \<Rightarrow> props \<Rightarrow> uuid \<Rightarrow> WriterCheckpoint option teo_result" where
  "parse_writer_checkpoint T table properties writer_id =
    (case map_of properties (writer_checkpoint_key T writer_id) of
       None \<Rightarrow> Inr None
     | Some value \<Rightarrow> map_sum id Some (WriterCheckpoint_decode T table value))"

definition is_checkpoint_key :: "string \<Rightarrow> bool" where
  "is_checkpoint_key key \<longleftrightarrow> starts_with key WRITER_CHECKPOINT_PREFIX"

definition validate_checkpoint_entry ::
    "text_codec \<Rightarrow> TableIdent \<Rightarrow> string \<Rightarrow> string \<Rightarrow> unit teo_result" where
  "validate_checkpoint_entry T table key value =
    (let suffix = drop (length WRITER_CHECKPOINT_PREFIX) key in
     case uuid_parse T suffix of
       None \<Rightarrow> Inl (MetadataCorruption table ''malformed writer checkpoint key'')
     | Some writer_uuid \<Rightarrow>
         if is_nil writer_uuid \<or> suffix \<noteq> uuid_fmt T writer_uuid
         then Inl (MetadataCorruption table ''writer checkpoint key is not a canonical, non-nil writer ID'')
         else bind_r (WriterCheckpoint_decode T table value) (\<lambda>_. Inr ()))"

fun validate_writer_checkpoints :: "text_codec \<Rightarrow> TableIdent \<Rightarrow> props \<Rightarrow> nat teo_result" where
  "validate_writer_checkpoints T table [] = Inr 0"
| "validate_writer_checkpoints T table ((key, value) # rest) =
    (if is_checkpoint_key key
     then bind_r (validate_checkpoint_entry T table key value)
       (\<lambda>_. map_sum id Suc (validate_writer_checkpoints T table rest))
     else validate_writer_checkpoints T table rest)"

definition writer_checkpoint_count :: "props \<Rightarrow> nat" where
  "writer_checkpoint_count properties = length (filter is_checkpoint_key (map fst properties))"


section \<open>Lemmas\<close>

subsection \<open>Identities and ranges\<close>

definition identity_wf :: "AppendCommitIdentity \<Rightarrow> bool" where
  "identity_wf i \<longleftrightarrow> \<not> is_nil (ac_writer_id i) \<and> ac_writer_epoch i \<noteq> 0 \<and> \<not> is_nil (ac_commit_id i)
    \<and> gr_lo (ac_generations i) \<noteq> 0 \<and> gr_lo (ac_generations i) \<le> gr_hi (ac_generations i)"

lemma identity_validate_ok [simp]:
  "identity_validate i table u = Inr () \<longleftrightarrow> \<not> is_nil u \<and> identity_wf i"
  by (auto simp: identity_validate_def identity_wf_def)

lemma identity_validate_error:
  "identity_validate i table u = Inl e \<Longrightarrow> \<exists>m. e = WriteProtocol table m"
  by (auto simp: identity_validate_def split: option.splits)

lemma checked_next_ok: "checked_next e = Inr e' \<Longrightarrow> e' = e + 1 \<and> e' < u64_bound"
  by (auto simp: checked_next_def split: if_splits)

lemma checked_next_total: "e < u64_max \<Longrightarrow> checked_next e = Inr (e + 1)"
  by (simp add: checked_next_def less_u64_bound_iff)

lemma GenerationRange_new_ok [simp]:
  "GenerationRange_new lo hi = Inr r \<longleftrightarrow> 0 < lo \<and> lo \<le> hi \<and> r = \<lparr>gr_lo = lo, gr_hi = hi\<rparr>"
  by (auto simp: GenerationRange_new_def)

subsection \<open>Exact matching of a published snapshot\<close>

lemma check_identity_ok [simp]:
  "check_identity_properties table ps es = Inr b \<longleftrightarrow>
    b \<and> (\<forall>(k, v) \<in> set es. map_of ps k = Some v)"
  by (induction es) (auto split: if_splits)

lemma check_identity_err:
  "check_identity_properties table ps es = Inl e \<Longrightarrow> \<exists>m. e = MetadataCorruption table m"
  by (induction es) (auto split: if_splits)

lemma check_identity_cases:
  "(\<forall>(k, v) \<in> set es. map_of ps k = Some v) \<and> check_identity_properties table ps es = Inr True
   \<or> \<not> (\<forall>(k, v) \<in> set es. map_of ps k = Some v)
     \<and> (\<exists>m. check_identity_properties table ps es = Inl (MetadataCorruption table m))"
  by (induction es) (auto split: if_splits)

lemma identity_properties_inj:
  assumes "uuid_text_ok T"
  shows "append_snapshot_identity_properties T u i = append_snapshot_identity_properties T v j
    \<longleftrightarrow> u = v \<and> i = j"
proof -
  have "i = j" if "ac_writer_id i = ac_writer_id j" "ac_writer_epoch i = ac_writer_epoch j"
    "ac_commit_id i = ac_commit_id j" "gr_lo (ac_generations i) = gr_lo (ac_generations j)"
    "gr_hi (ac_generations i) = gr_hi (ac_generations j)"
    using that by (cases i; cases j; cases "ac_generations i"; cases "ac_generations j") auto
  then show ?thesis
    by (auto simp: append_snapshot_identity_properties_def uuid_fmt_inj[OF assms])
qed

lemma distinct_identity_keys:
  "distinct (map fst (append_snapshot_identity_properties T u i))"
  by (simp add: append_snapshot_identity_properties_def property_keys)

lemma map_of_identity_eq:
  assumes "uuid_text_ok T"
    and "\<forall>(k, v) \<in> set (append_snapshot_identity_properties T u i).
      map_of (append_snapshot_identity_properties T u' j) k = Some v"
  shows "u = u' \<and> i = j"
proof -
  have "append_snapshot_identity_properties T u i = append_snapshot_identity_properties T u' j"
    using assms(2) by (simp add: append_snapshot_identity_properties_def property_keys)
  then show ?thesis using identity_properties_inj[OF assms(1)] by simp
qed

lemma matches_published:
  assumes T: "uuid_text_ok T"
    and pub: "\<And>k. k \<in> fst ` set (append_snapshot_identity_properties T u' j) \<Longrightarrow>
      map_of ps k = map_of (append_snapshot_identity_properties T u' j) k"
  shows "snapshot_matches_append_identity T table u i ps =
    (if ac_commit_id i \<noteq> ac_commit_id j then Inr False
     else if u = u' \<and> i = j then Inr True
     else check_identity_properties table ps (append_snapshot_identity_properties T u i))"
proof -
  have "map_of ps COMMIT_ID_PROPERTY = Some (uuid_fmt T (ac_commit_id j))"
    by (subst pub) (simp_all add: append_snapshot_identity_properties_def)
  moreover have "\<forall>(k, v) \<in> set (append_snapshot_identity_properties T u' j). map_of ps k = Some v"
  proof (intro ballI)
    fix p assume p: "p \<in> set (append_snapshot_identity_properties T u' j)"
    then have "map_of (append_snapshot_identity_properties T u' j) (fst p) = Some (snd p)"
      by (intro map_of_is_SomeI distinct_identity_keys) simp
    then show "case p of (k, v) \<Rightarrow> map_of ps k = Some v"
      using pub[of "fst p"] p by (auto split: prod.splits)
  qed
  ultimately show ?thesis
    by (auto simp: snapshot_matches_append_identity_def uuid_fmt_inj[OF T])
qed

lemma mismatch_is_corruption:
  assumes T: "uuid_text_ok T"
    and pub: "\<And>k. k \<in> fst ` set (append_snapshot_identity_properties T u' j) \<Longrightarrow>
      map_of ps k = map_of (append_snapshot_identity_properties T u' j) k"
    and neq: "\<not> (u = u' \<and> i = j)"
  shows "\<exists>m. check_identity_properties table ps (append_snapshot_identity_properties T u i)
    = Inl (MetadataCorruption table m)"
proof -
  have keys: "fst ` set (append_snapshot_identity_properties T u i) =
      fst ` set (append_snapshot_identity_properties T u' j)"
    by (simp add: append_snapshot_identity_properties_def)
  have "\<not> (\<forall>(k, v) \<in> set (append_snapshot_identity_properties T u i). map_of ps k = Some v)"
  proof
    assume all: "\<forall>(k, v) \<in> set (append_snapshot_identity_properties T u i). map_of ps k = Some v"
    have "\<forall>(k, v) \<in> set (append_snapshot_identity_properties T u i).
        map_of (append_snapshot_identity_properties T u' j) k = Some v"
    proof (intro ballI)
      fix p assume p: "p \<in> set (append_snapshot_identity_properties T u i)"
      then have "fst p \<in> fst ` set (append_snapshot_identity_properties T u' j)"
        using keys by (metis imageI)
      then show "case p of (k, v) \<Rightarrow> map_of (append_snapshot_identity_properties T u' j) k = Some v"
        using pub[of "fst p"] all p by (cases p) auto
    qed
    then show False using map_of_identity_eq[OF T] neq by blast
  qed
  then show ?thesis using check_identity_cases by blast
qed

subsection \<open>Checkpoint codec\<close>

definition checkpoint_wf :: "WriterCheckpoint \<Rightarrow> bool" where
  "checkpoint_wf c \<longleftrightarrow> wc_version c = WRITE_PROTOCOL_VERSION \<and> wc_epoch c \<noteq> 0
    \<and> wc_generation c \<noteq> 0 \<and> \<not> is_nil (wc_commit_id c) \<and> 0 \<le> wc_committed_at_ms c"

lemma checkpoint_decode_ok:
  "WriterCheckpoint_decode T table s = Inr c \<longleftrightarrow>
    length s \<le> MAX_WRITER_CHECKPOINT_VALUE_BYTES \<and> ckpt_dec T s = Some c \<and> checkpoint_wf c"
  by (auto simp: WriterCheckpoint_decode_def checkpoint_wf_def split: option.splits)

lemma checkpoint_decode_err:
  "WriterCheckpoint_decode T table s = Inl e \<Longrightarrow> \<exists>m. e = MetadataCorruption table m"
  by (auto simp: WriterCheckpoint_decode_def split: option.splits if_splits)

lemma checkpoint_encode_decode:
  assumes "ckpt_text_ok T c" "checkpoint_wf c"
  obtains s where "WriterCheckpoint_encode T c = Inr s" "WriterCheckpoint_decode T table s = Inr c"
  using assms by (auto simp: ckpt_text_ok_def WriterCheckpoint_encode_def checkpoint_decode_ok
      split: option.splits)

subsection \<open>The writer registry\<close>

lemma checkpoint_key_is_key [simp]: "is_checkpoint_key (writer_checkpoint_key T w)"
  by (simp add: is_checkpoint_key_def starts_with_def writer_checkpoint_key_def)

lemma checkpoint_key_inj:
  "uuid_text_ok T \<Longrightarrow> writer_checkpoint_key T w = writer_checkpoint_key T w' \<longleftrightarrow> w = w'"
  by (simp add: writer_checkpoint_key_def uuid_fmt_inj)

lemma validate_entry_ok:
  "uuid_text_ok T \<Longrightarrow> validate_checkpoint_entry T table (writer_checkpoint_key T w) value = Inr () \<longleftrightarrow>
    \<not> is_nil w \<and> (\<exists>c. WriterCheckpoint_decode T table value = Inr c)"
  by (auto simp: validate_checkpoint_entry_def writer_checkpoint_key_def uuid_text_ok_def Let_def)

lemma validate_checkpoints_ok:
  "validate_writer_checkpoints T table ps = Inr n \<longleftrightarrow>
    n = writer_checkpoint_count ps \<and>
    (\<forall>(k, v) \<in> set ps. is_checkpoint_key k \<longrightarrow> validate_checkpoint_entry T table k v = Inr ())"
proof (induction ps arbitrary: n)
  case Nil
  then show ?case by (auto simp: writer_checkpoint_count_def)
next
  case (Cons p ps)
  obtain k v where p: "p = (k, v)" by (cases p)
  show ?case
    using Cons.IH by (cases "is_checkpoint_key k") (auto simp: p writer_checkpoint_count_def)
qed

lemma parse_checkpoint_of_valid:
  assumes "validate_writer_checkpoints T table ps = Inr n" "uuid_text_ok T"
  shows "\<exists>c. parse_writer_checkpoint T table ps w = Inr c"
proof (cases "map_of ps (writer_checkpoint_key T w)")
  case None
  then show ?thesis by (simp add: parse_writer_checkpoint_def)
next
  case (Some v)
  then have "(writer_checkpoint_key T w, v) \<in> set ps" by (rule map_of_SomeD)
  then have "validate_checkpoint_entry T table (writer_checkpoint_key T w) v = Inr ()"
    using assms(1) by (auto simp: validate_checkpoints_ok)
  then show ?thesis
    using Some assms(2) by (auto simp: validate_entry_ok parse_writer_checkpoint_def)
qed

lemma parse_checkpoint_put [simp]:
  assumes "uuid_text_ok T"
  shows "parse_writer_checkpoint T table (al_put (writer_checkpoint_key T w) s ps) w' =
    (if w' = w then map_sum id Some (WriterCheckpoint_decode T table s)
     else parse_writer_checkpoint T table ps w')"
  by (simp add: parse_writer_checkpoint_def checkpoint_key_inj[OF assms])

lemma count_al_put:
  "writer_checkpoint_count (al_put k v ps) =
    writer_checkpoint_count ps + (if is_checkpoint_key k \<and> k \<notin> fst ` set ps then 1 else 0)"
  by (simp add: writer_checkpoint_count_def filter_fst_al_put)

lemma validate_al_put:
  assumes "uuid_text_ok T" "distinct (map fst ps)" "\<not> is_nil w"
    and "validate_writer_checkpoints T table ps = Inr n"
    and "WriterCheckpoint_decode T table s = Inr c"
  shows "is_ok (validate_writer_checkpoints T table (al_put (writer_checkpoint_key T w) s ps))"
proof -
  have "\<forall>(k, v) \<in> set (al_put (writer_checkpoint_key T w) s ps).
      is_checkpoint_key k \<longrightarrow> validate_checkpoint_entry T table k v = Inr ()"
    using assms by (auto simp: set_al_put validate_checkpoints_ok validate_entry_ok)
  then show ?thesis
    by (simp add: is_ok_iff validate_checkpoints_ok)
qed

section \<open>A concrete codec\<close>

text \<open>A text codec that meets the hypotheses, for the witnesses: UUIDs as decimal numbers, checkpoints as
  comma-separated decimal fields.\<close>

definition demo_fields :: "WriterCheckpoint \<Rightarrow> string list" where
  "demo_fields c = map dec_str [wc_version c, wc_epoch c, wc_generation c, unat (wc_commit_id c), nat (wc_committed_at_ms c)]"

definition demo_text :: text_codec where
  "demo_text = \<lparr>uuid_fmt = (\<lambda>u. dec_str (unat u)), uuid_parse = (\<lambda>s. Some (of_nat (dec_val s))),
    uuid_v5 = (\<lambda>c s. 7), ckpt_enc = (\<lambda>c. Some (join_with (CHR '','') (demo_fields c))),
    ckpt_dec = (\<lambda>s. case map dec_val (split_on (CHR '','') s) of
        [v, e, g, c, t] \<Rightarrow> Some \<lparr>wc_version = v, wc_epoch = e, wc_generation = g, wc_commit_id = of_nat c, wc_committed_at_ms = int t\<rparr>
      | _ \<Rightarrow> None)\<rparr>"

lemma demo_text_ok: "uuid_text_ok demo_text"
proof -
  have "list_all (\<lambda>c. is_digit c \<or> P c) (dec_str n)" for P n
    using dec_str_digits[of n] by (auto simp: list_all_iff)
  then show ?thesis by (simp add: uuid_text_ok_def demo_text_def)
qed

lemma demo_ckpt_roundtrip: "0 \<le> wc_committed_at_ms c \<Longrightarrow> ckpt_dec demo_text (join_with (CHR '','') (demo_fields c)) = Some c"
proof -
  assume "0 \<le> wc_committed_at_ms c"
  have comma: "CHR '','' \<notin> set (dec_str n)" for n
    using dec_str_digits[of n] by (auto simp: list_all_iff is_digit_def)
  have "split_on (CHR '','') (join_with (CHR '','') (demo_fields c)) = demo_fields c"
    by (rule split_on_join) (auto simp: demo_fields_def comma)
  then show ?thesis using \<open>0 \<le> wc_committed_at_ms c\<close> by (simp add: demo_text_def demo_fields_def)
qed

section \<open>Properties\<close>

text \<open>Property C14. Exact status resolution: looking for an append in a snapshot published with identity
  \<open>(u', j)\<close> answers \<open>true\<close> exactly when table incarnation and identity are the same tuple, \<open>false\<close> exactly
  when the commit ID is another one, and reports metadata corruption when the commit ID was reused
  with any other component changed.\<close>

theorem snapshot_match_exact:
  fixes T table u i u' j extra
  defines "result \<equiv> snapshot_matches_append_identity T table u i (append_snapshot_identity_properties T u' j @ extra)"
  assumes T: "uuid_text_ok T"
  shows "(result = Inr True \<longleftrightarrow> u = u' \<and> i = j) \<and> (result = Inr False \<longleftrightarrow> ac_commit_id i \<noteq> ac_commit_id j) \<and>
    (\<forall>e. result = Inl e \<longrightarrow> (\<exists>m. e = MetadataCorruption table m))"
proof -
  let ?ps = "append_snapshot_identity_properties T u' j @ extra"
  have pub: "map_of ?ps k = map_of (append_snapshot_identity_properties T u' j) k"
    if "k \<in> fst ` set (append_snapshot_identity_properties T u' j)" for k
    using that by (simp add: map_add_def map_of_eq_None_iff split: option.splits)
  note m = matches_published[OF T pub, of table u i]
  show ?thesis
  proof (cases "ac_commit_id i \<noteq> ac_commit_id j \<or> u = u' \<and> i = j")
    case False
    then obtain e where "check_identity_properties table ?ps (append_snapshot_identity_properties T u i) =
        Inl (MetadataCorruption table e)"
      using mismatch_is_corruption[OF T pub, of u i table] by blast
    then show ?thesis using False m unfolding result_def by auto
  qed (use m in \<open>auto simp: result_def\<close>)
qed

definition demo_append_identity :: AppendCommitIdentity where
  "demo_append_identity = \<lparr>ac_writer_id = 7, ac_writer_epoch = 1, ac_commit_id = 9,
    ac_generations = \<lparr>gr_lo = 1, gr_hi = 2\<rparr>\<rparr>"

theorem snapshot_match_exact_witness:
  "snapshot_matches_append_identity demo_text (TableIdent_new ''ns'' ''t'') 3 demo_append_identity
    (append_snapshot_identity_properties demo_text 3 demo_append_identity @ [(''k'', ''v'')]) = Inr True"
  using snapshot_match_exact[OF demo_text_ok] by blast

end
