(* ===== verification/Wal_Frame.thy ===== *)
theory Wal_Frame
  imports Write_Protocol
begin

text \<open>
  The frame format of a write-ahead-log segment, \<open>teodb-storage/src/wal/segment/segment.rs\<close>:
  header validation, \<open>encode_frame\<close>, \<open>decode_frame\<close> and the scan of a segment.

  A segment is the list of its bytes. The JSON text of a header (\<open>serde_json\<close>), the Arrow IPC
  stream of a batch (\<open>arrow\<close>) and the checksum (\<open>crc32fast\<close>) are the fields of the parameter
  \<open>frame_codec\<close>; \<open>codec_ok\<close> states, for one record, what the format relies on: the header text
  and the IPC stream are read back, and the JSON text of a header holds no newline byte.
\<close>

section \<open>Records\<close>

datatype WalOp = Append | DropTable

record WalHeader =
  wh_protocol_version :: nat
  wh_table_uuid :: "uuid option"
  wh_batch_id :: uuid
  wh_table :: TableIdent
  wh_schema_id :: int
  wh_generation :: generation
  wh_created_at_ms :: int
  wh_idempotency_key :: "string option"
  wh_row_count :: nat
  wh_byte_count :: nat
  wh_op :: WalOp

record 'b WalRecord =
  wr_header :: WalHeader
  wr_batch :: 'b

record 'b frame_codec =
  hdr_enc :: "WalHeader \<Rightarrow> byte list option"
  hdr_dec :: "byte list \<Rightarrow> WalHeader option"
  ipc_enc :: "'b \<Rightarrow> string + byte list"
  ipc_dec :: "byte list \<Rightarrow> string + 'b"
  empty_batch :: 'b
  crc32 :: "byte list \<Rightarrow> 32 word"

definition drop_tombstone :: "'b frame_codec \<Rightarrow> uuid \<Rightarrow> int \<Rightarrow> TableIdent \<Rightarrow> 'b WalRecord" where
  "drop_tombstone c batch_id now_ms table =
    \<lparr>wr_header =
       \<lparr>wh_protocol_version = WRITE_PROTOCOL_VERSION, wh_table_uuid = None, wh_batch_id = batch_id,
        wh_table = table, wh_schema_id = 0, wh_generation = 0, wh_created_at_ms = now_ms,
        wh_idempotency_key = None, wh_row_count = 0, wh_byte_count = 0, wh_op = DropTable\<rparr>,
     wr_batch = empty_batch c\<rparr>"

definition header_validate :: "WalHeader \<Rightarrow> unit teo_result" where
  "header_validate h =
    (if wh_protocol_version h \<noteq> WRITE_PROTOCOL_VERSION
     then Inl (wal ''WAL record must use protocol version 1'')
     else case (wh_op h, wh_table_uuid h) of
       (Append, None) \<Rightarrow> Inl (wal ''append WAL record is missing table_uuid'')
     | (Append, Some u) \<Rightarrow>
         if is_nil u then Inl (wal ''append WAL record has a nil table_uuid'') else Inr ()
     | (DropTable, Some _) \<Rightarrow> Inl (wal ''drop-table WAL record must not carry table_uuid'')
     | (DropTable, None) \<Rightarrow> Inr ())"

definition header_table_key :: "WalHeader \<Rightarrow> WalTableKey teo_result" where
  "header_table_key h =
    bind_r (header_validate h) (\<lambda>_.
      case wh_table_uuid h of
        None \<Rightarrow> Inl (wal ''append WAL record is missing table_uuid'')
      | Some table_uuid \<Rightarrow> Inr (WalTableKey_new table_uuid (wh_table h)))"

section \<open>Frames\<close>

definition FRAME_HEADER_SIZE :: nat where
  "FRAME_HEADER_SIZE = 8"

definition ALIGNMENT :: nat where
  "ALIGNMENT = 8"

definition MAX_PAYLOAD_BYTES :: nat where
  "MAX_PAYLOAD_BYTES = 2 ^ 30"

definition newline :: byte where
  "newline = 10"

datatype 'b FrameDecode =
    Complete "'b WalRecord" nat
  | Incomplete
  | Corrupt string

definition padding_of :: "nat \<Rightarrow> nat" where
  "padding_of total_content = (ALIGNMENT - total_content mod ALIGNMENT) mod ALIGNMENT"

definition encode_payload :: "'b frame_codec \<Rightarrow> 'b WalRecord \<Rightarrow> byte list teo_result" where
  "encode_payload c r =
    (case hdr_enc c (wr_header r) of
       None \<Rightarrow> Inl (wal ''header json'')
     | Some header_json \<Rightarrow>
         (let payload = header_json @ [newline] in
          if wh_op (wr_header r) = Append
          then (case ipc_enc c (wr_batch r) of
              Inl msg \<Rightarrow> Inl (Arrow msg)
            | Inr ipc_buf \<Rightarrow> Inr (payload @ ipc_buf))
          else Inr payload))"

definition frame_of_payload :: "'b frame_codec \<Rightarrow> byte list \<Rightarrow> byte list" where
  "frame_of_payload c payload =
    (let payload_len = length payload mod 2 ^ 32;
         crc = crc32 c payload;
         total_content = FRAME_HEADER_SIZE + length payload
     in u32_to_le payload_len @ u32_to_le (unat crc) @ payload
        @ replicate (padding_of total_content) 0)"

definition encode_frame :: "'b frame_codec \<Rightarrow> 'b WalRecord \<Rightarrow> byte list teo_result" where
  "encode_frame c r =
    bind_r (header_validate (wr_header r)) (\<lambda>_.
      bind_r (encode_payload c r) (\<lambda>payload. Inr (frame_of_payload c payload)))"

definition position :: "('a \<Rightarrow> bool) \<Rightarrow> 'a list \<Rightarrow> nat option" where
  "position P xs = (if list_ex P xs then Some (length (takeWhile (\<lambda>x. \<not> P x) xs)) else None)"

definition decode_payload :: "'b frame_codec \<Rightarrow> byte list \<Rightarrow> nat \<Rightarrow> 'b FrameDecode" where
  "decode_payload c payload frame_size =
    (case position (\<lambda>b. b = newline) payload of
       None \<Rightarrow> Corrupt ''no newline in WAL payload''
     | Some newline_pos \<Rightarrow>
         (case hdr_dec c (take newline_pos payload) of
            None \<Rightarrow> Corrupt ''header json parse''
          | Some header \<Rightarrow>
              (case header_validate header of
                 Inl _ \<Rightarrow> Corrupt ''invalid WAL header''
               | Inr _ \<Rightarrow>
                   if wh_op header = DropTable
                   then Complete \<lparr>wr_header = header, wr_batch = empty_batch c\<rparr> frame_size
                   else (case ipc_dec c (drop (newline_pos + 1) payload) of
                       Inl reason \<Rightarrow> Corrupt reason
                     | Inr batch \<Rightarrow> Complete \<lparr>wr_header = header, wr_batch = batch\<rparr> frame_size))))"

definition decode_frame :: "'b frame_codec \<Rightarrow> byte list \<Rightarrow> 'b FrameDecode" where
  "decode_frame c data =
    (if length data < FRAME_HEADER_SIZE then Incomplete
     else
       let payload_len = u32_from_le (data ! 0) (data ! 1) (data ! 2) (data ! 3);
           expected_crc = u32_from_le (data ! 4) (data ! 5) (data ! 6) (data ! 7)
       in if payload_len = 0 then
            (if list_all (\<lambda>b. b = 0) data then Incomplete
             else Corrupt ''zero payload length with non-zero trailing bytes'')
          else if payload_len > MAX_PAYLOAD_BYTES then Corrupt ''implausible payload length''
          else
            let total_content = FRAME_HEADER_SIZE + payload_len;
                frame_size = total_content + padding_of total_content
            in if length data < total_content then Incomplete
               else
                 let payload = take payload_len (drop FRAME_HEADER_SIZE data)
                 in if unat (crc32 c payload) \<noteq> expected_crc then Corrupt ''CRC mismatch''
                    else decode_payload c payload frame_size)"

section \<open>Scanning a segment\<close>

datatype ScanFrame =
    ScanAppend WalTableKey generation
  | ScanDropTable TableIdent

record SegmentScan =
  ss_frames :: "ScanFrame list"
  ss_corrupt :: bool

definition scan_frame_of :: "WalHeader \<Rightarrow> ScanFrame teo_result" where
  "scan_frame_of h =
    (case wh_op h of
       Append \<Rightarrow> bind_r (header_table_key h) (\<lambda>key. Inr (ScanAppend key (wh_generation h)))
     | DropTable \<Rightarrow> Inr (ScanDropTable (wh_table h)))"

text \<open>Every complete frame consumes at least its 8-byte header, so the offset loops end.\<close>

lemma frame_aligned: "(n + padding_of n) mod 8 = 0"
proof (cases "n mod 8 = 0")
  case False
  then have "padding_of n = 8 - n mod 8"
    by (simp add: padding_of_def ALIGNMENT_def)
  then show ?thesis by (metis add.commute dvd_imp_mod_0 le_add_diff_inverse2 mod_add_right_eq
        mod_le_divisor mod_self zero_less_numeral)
qed (simp add: padding_of_def ALIGNMENT_def)

lemma decode_payload_Complete:
  assumes "decode_payload c payload k = Complete r n"
  shows "n = k \<and> header_validate (wr_header r) = Inr ()"
  using assms by (auto simp: decode_payload_def split: if_splits option.splits sum.splits)

lemma decode_frame_consumed:
  assumes "decode_frame c data = Complete r n"
  shows "FRAME_HEADER_SIZE < n \<and> n mod 8 = 0 \<and> header_validate (wr_header r) = Inr ()"
proof -
  obtain k payload where k: "0 < k"
    "decode_payload c payload (FRAME_HEADER_SIZE + k + padding_of (FRAME_HEADER_SIZE + k)) = Complete r n"
    using assms by (simp add: decode_frame_def Let_def split: if_splits)
  from decode_payload_Complete[OF k(2)] show ?thesis
    using k(1) frame_aligned[of "FRAME_HEADER_SIZE + k"] by auto
qed

function scan_loop ::
    "'b frame_codec \<Rightarrow> byte list \<Rightarrow> nat \<Rightarrow> ScanFrame list \<Rightarrow> SegmentScan teo_result" where
  "scan_loop c data offset frames =
    (if offset < length data then
       (case decode_frame c (drop offset data) of
          Complete r consumed \<Rightarrow>
            (case scan_frame_of (wr_header r) of
               Inl e \<Rightarrow> Inl e
             | Inr f \<Rightarrow> scan_loop c data (offset + consumed) (frames @ [f]))
        | Incomplete \<Rightarrow> Inr \<lparr>ss_frames = frames, ss_corrupt = False\<rparr>
        | Corrupt reason \<Rightarrow> Inr \<lparr>ss_frames = frames, ss_corrupt = True\<rparr>)
     else Inr \<lparr>ss_frames = frames, ss_corrupt = False\<rparr>)"
  by pat_completeness auto
termination
  by (relation "measure (\<lambda>(c, data, offset, frames). length data - offset)")
    (auto dest: decode_frame_consumed)

declare scan_loop.simps [simp del]

definition scan_segment :: "'b frame_codec \<Rightarrow> byte list \<Rightarrow> SegmentScan teo_result" where
  "scan_segment c data = scan_loop c data 0 []"


section \<open>The records of a byte sequence\<close>

text \<open>
  The reference view of a segment: the records a sequential decode finds, each with its
  offset, and the offset and reason of the corruption that stopped it, if any. The loops of the
  scan and of the replay are both shown to compute this view.
\<close>

function records_from ::
    "'b frame_codec \<Rightarrow> byte list \<Rightarrow> nat \<Rightarrow> (nat \<times> 'b WalRecord) list \<times> (nat \<times> string) option" where
  "records_from c data offset =
    (if offset < length data then
       (case decode_frame c (drop offset data) of
          Complete r consumed \<Rightarrow>
            (case records_from c data (offset + consumed) of
               (rs, stop) \<Rightarrow> ((offset, r) # rs, stop))
        | Incomplete \<Rightarrow> ([], None)
        | Corrupt reason \<Rightarrow> ([], Some (offset, reason)))
     else ([], None))"
  by pat_completeness auto
termination
  by (relation "measure (\<lambda>(c, data, offset). length data - offset)")
    (auto dest: decode_frame_consumed)

declare records_from.simps [simp del]

definition scan_of :: "WalHeader \<Rightarrow> ScanFrame" where
  "scan_of h = (case (wh_op h, wh_table_uuid h) of
     (Append, Some u) \<Rightarrow> ScanAppend (WalTableKey_new u (wh_table h)) (wh_generation h)
   | _ \<Rightarrow> ScanDropTable (wh_table h))"

lemma header_validate_ok:
  "header_validate h = Inr () \<longleftrightarrow> wh_protocol_version h = WRITE_PROTOCOL_VERSION \<and>
    (case wh_op h of Append \<Rightarrow> (\<exists>u. wh_table_uuid h = Some u \<and> \<not> is_nil u)
     | DropTable \<Rightarrow> wh_table_uuid h = None)"
  by (auto simp: header_validate_def split: WalOp.splits option.splits)

lemma scan_frame_of_valid [simp]:
  "header_validate h = Inr () \<Longrightarrow> scan_frame_of h = Inr (scan_of h)"
  by (auto simp: scan_frame_of_def scan_of_def header_table_key_def header_validate_ok
      split: WalOp.splits option.splits)

lemma records_from_valid:
  "(off, r) \<in> set (fst (records_from c data offset)) \<Longrightarrow> header_validate (wr_header r) = Inr ()"
proof (induction c data offset rule: records_from.induct)
  case (1 c data offset)
  then show ?case
    by (subst (asm) (2) records_from.simps)
      (auto split: if_splits FrameDecode.splits prod.splits
        dest: decode_frame_consumed)
qed

lemma scan_loop_records:
  "scan_loop c data offset frames =
    Inr \<lparr>ss_frames = frames @ map (scan_of \<circ> wr_header \<circ> snd) (fst (records_from c data offset)),
         ss_corrupt = (snd (records_from c data offset) \<noteq> None)\<rparr>"
proof (induction c data offset frames rule: scan_loop.induct)
  case (1 c data offset frames)
  show ?case
  proof (cases "decode_frame c (drop offset data)")
    case (Complete r n)
    then have "scan_frame_of (wr_header r) = Inr (scan_of (wr_header r))"
      using decode_frame_consumed scan_frame_of_valid by blast
    then show ?thesis
      using 1 Complete
      by (simp add: scan_loop.simps[of c data offset] records_from.simps[of c data offset]
          split: prod.splits)
  qed (simp_all add: scan_loop.simps[of c data offset] records_from.simps[of c data offset])
qed

lemma scan_segment_records:
  "scan_segment c data =
    Inr \<lparr>ss_frames = map (scan_of \<circ> wr_header \<circ> snd) (fst (records_from c data 0)),
         ss_corrupt = (snd (records_from c data 0) \<noteq> None)\<rparr>"
  by (simp add: scan_segment_def scan_loop_records)

lemma records_from_shift:
  "records_from c (xs @ data) (length xs + offset) =
    map_prod (map (map_prod ((+) (length xs)) id)) (map_option (map_prod ((+) (length xs)) id))
      (records_from c data offset)"
proof (induction c data offset rule: records_from.induct)
  case (1 c data offset)
  show ?case
  proof (cases "offset < length data")
    case True
    show ?thesis
    proof (cases "decode_frame c (drop offset data)")
      case (Complete r n)
      then show ?thesis
        using 1[OF True Complete] True
        by (subst records_from.simps, subst (2) records_from.simps)
          (simp add: add.assoc id_def split: prod.splits)
    qed (use True in \<open>simp_all add: records_from.simps[of c data offset]
        records_from.simps[of c "xs @ data" "length xs + offset"]\<close>)
  qed (simp add: records_from.simps[of c data offset]
      records_from.simps[of c "xs @ data" "length xs + offset"])
qed

section \<open>Encoding is read back\<close>

definition codec_ok :: "'b frame_codec \<Rightarrow> 'b WalRecord \<Rightarrow> bool" where
  "codec_ok c r \<longleftrightarrow>
    (case hdr_enc c (wr_header r) of None \<Rightarrow> False
     | Some h \<Rightarrow> newline \<notin> set h \<and> hdr_dec c h = Some (wr_header r)) \<and>
    (case wh_op (wr_header r) of
       Append \<Rightarrow> (case ipc_enc c (wr_batch r) of Inl _ \<Rightarrow> False | Inr b \<Rightarrow> ipc_dec c b = Inr (wr_batch r))
     | DropTable \<Rightarrow> wr_batch r = empty_batch c)"

lemma position_append:
  "(\<And>x. x \<in> set xs \<Longrightarrow> \<not> P x) \<Longrightarrow> P y \<Longrightarrow> position P (xs @ y # ys) = Some (length xs)"
  by (simp add: position_def takeWhile_append_stop)

lemma encode_payload_nonempty: "encode_payload c r = Inr p \<Longrightarrow> 0 < length p"
  by (auto simp: encode_payload_def Let_def split: option.splits if_splits sum.splits)

lemma decode_encode_payload:
  assumes "codec_ok c r" "header_validate (wr_header r) = Inr ()" "encode_payload c r = Inr p"
  shows "decode_payload c p k = Complete r k"
proof -
  obtain h where h: "hdr_enc c (wr_header r) = Some h" "newline \<notin> set h"
      "hdr_dec c h = Some (wr_header r)"
    using assms(1) by (auto simp: codec_ok_def split: option.splits)
  obtain b where p: "p = h @ newline # b"
    using assms(3) h(1) by (auto simp: encode_payload_def Let_def split: if_splits sum.splits)
  have pos: "position (\<lambda>x. x = newline) p = Some (length h)"
    unfolding p using h(2) by (intro position_append) auto
  show ?thesis
  proof (cases "wh_op (wr_header r)")
    case Append
    then have "ipc_dec c b = Inr (wr_batch r)"
      using assms(1,3) h(1) p by (auto simp: codec_ok_def encode_payload_def Let_def split: sum.splits)
    then show ?thesis
      using pos h assms(2) Append p by (simp add: decode_payload_def)
  next
    case DropTable
    then have "wr_batch r = empty_batch c"
      using assms(1) by (simp add: codec_ok_def)
    then show ?thesis
      using pos h assms(2) DropTable p by (simp add: decode_payload_def)
  qed
qed

definition frame_head :: "'b frame_codec \<Rightarrow> byte list \<Rightarrow> byte list" where
  "frame_head c p = u32_to_le (length p) @ u32_to_le (unat (crc32 c p))"

lemma length_frame_head [simp]: "length (frame_head c p) = 8"
  by (simp add: frame_head_def)

lemma frame_of_payload_split:
  "length p < 2 ^ 32 \<Longrightarrow>
    frame_of_payload c p = frame_head c p @ p @ replicate (padding_of (8 + length p)) 0"
  by (simp add: frame_of_payload_def frame_head_def Let_def FRAME_HEADER_SIZE_def)

lemma length_frame_of_payload [simp]:
  "length (frame_of_payload c p) = 8 + length p + padding_of (8 + length p)"
  by (simp add: frame_of_payload_def Let_def FRAME_HEADER_SIZE_def)

lemma frame_head_fields:
  fixes c :: "'b frame_codec" and xs :: "byte list"
  assumes "length p < 2 ^ 32"
  defines "d \<equiv> frame_head c p @ xs"
  shows "u32_from_le (d ! 0) (d ! 1) (d ! 2) (d ! 3) = length p"
    and "u32_from_le (d ! 4) (d ! 5) (d ! 6) (d ! 7) = unat (crc32 c p)"
proof -
  have "unat (crc32 c p) < 2 ^ 32"
    using unsigned_less[of "crc32 c p"] by simp
  then show "u32_from_le (d ! 0) (d ! 1) (d ! 2) (d ! 3) = length p"
    "u32_from_le (d ! 4) (d ! 5) (d ! 6) (d ! 7) = unat (crc32 c p)"
    using u32_le_roundtrip[of "length p"] u32_le_roundtrip[of "unat (crc32 c p)"] assms(1)
    by (simp_all add: d_def frame_head_def u32_to_le_def del: word_of_nat_eq_iff)
qed

lemma decode_frame_full:
  assumes "0 < length p" "length p \<le> MAX_PAYLOAD_BYTES"
  shows "decode_frame c (frame_head c p @ p @ zs) =
    decode_payload c p (8 + length p + padding_of (8 + length p))"
proof -
  have "length p < 2 ^ 32" using assms(2) by (simp add: MAX_PAYLOAD_BYTES_def)
  note fields = frame_head_fields[OF this, of c "p @ zs", unfolded One_nat_def]
  show ?thesis
    using assms by (simp add: decode_frame_def fields FRAME_HEADER_SIZE_def Let_def)
qed

lemma decode_frame_short:
  assumes "0 < length p" "length p \<le> MAX_PAYLOAD_BYTES" "length ys < length p"
  shows "decode_frame c (frame_head c p @ ys) = Incomplete"
proof -
  have "length p < 2 ^ 32" using assms(2) by (simp add: MAX_PAYLOAD_BYTES_def)
  note fields = frame_head_fields[OF this, of c ys, unfolded One_nat_def]
  show ?thesis
    using assms by (simp add: decode_frame_def fields FRAME_HEADER_SIZE_def Let_def)
qed

lemma decode_frame_torn:
  assumes "0 < length p" "length p \<le> MAX_PAYLOAD_BYTES" "n < 8 + length p"
  shows "decode_frame c (take n (frame_head c p @ p @ zs)) = Incomplete"
proof (cases "n < 8")
  case True
  then show ?thesis by (simp add: decode_frame_def FRAME_HEADER_SIZE_def)
next
  case False
  then have tk: "take n (frame_head c p @ p @ zs) = frame_head c p @ take (n - 8) (p @ zs)"
    by simp
  have "length (take (n - 8) (p @ zs)) < length p"
    using assms(3) False by simp
  then show ?thesis
    unfolding tk using assms(1,2) by (rule decode_frame_short[rotated 2])
qed


section \<open>Segments of whole frames\<close>

definition writable :: "'b frame_codec \<Rightarrow> 'b WalRecord \<Rightarrow> bool" where
  "writable c r \<longleftrightarrow> codec_ok c r \<and> header_validate (wr_header r) = Inr () \<and>
    (case encode_payload c r of Inl _ \<Rightarrow> False | Inr p \<Rightarrow> length p \<le> MAX_PAYLOAD_BYTES)"

definition frame_bytes :: "'b frame_codec \<Rightarrow> 'b WalRecord \<Rightarrow> byte list" where
  "frame_bytes c r = (case encode_frame c r of Inl _ \<Rightarrow> [] | Inr f \<Rightarrow> f)"

definition segment_of :: "'b frame_codec \<Rightarrow> 'b WalRecord list \<Rightarrow> byte list" where
  "segment_of c rs = concat (map (frame_bytes c) rs)"

fun with_offsets :: "'b frame_codec \<Rightarrow> nat \<Rightarrow> 'b WalRecord list \<Rightarrow> (nat \<times> 'b WalRecord) list" where
  "with_offsets c offset [] = []"
| "with_offsets c offset (r # rs) = (offset, r) # with_offsets c (offset + length (frame_bytes c r)) rs"

lemma segment_of_simps [simp]:
  "segment_of c [] = []" "segment_of c (r # rs) = frame_bytes c r @ segment_of c rs"
  "segment_of c (rs @ rs') = segment_of c rs @ segment_of c rs'"
  by (simp_all add: segment_of_def)

lemma with_offsets_records [simp]: "map snd (with_offsets c offset rs) = rs"
  by (induction rs arbitrary: offset) auto

lemma with_offsets_shift:
  "map (map_prod ((+) k) id) (with_offsets c offset rs) = with_offsets c (k + offset) rs"
  by (induction rs arbitrary: offset) (auto simp: add.assoc)

lemma writable_frame:
  assumes "writable c r"
  obtains p where "encode_frame c r = Inr (frame_bytes c r)"
    "frame_bytes c r = frame_head c p @ p @ replicate (padding_of (8 + length p)) 0"
    "0 < length p" "length p \<le> MAX_PAYLOAD_BYTES"
    "length (frame_bytes c r) = 8 + length p + padding_of (8 + length p)"
    "\<And>zs. decode_frame c (frame_head c p @ p @ zs) = Complete r (length (frame_bytes c r))"
proof -
  obtain p where p: "encode_payload c r = Inr p" "length p \<le> MAX_PAYLOAD_BYTES"
    and ok: "codec_ok c r" "header_validate (wr_header r) = Inr ()"
    using assms by (auto simp: writable_def split: sum.splits)
  have len: "0 < length p" using encode_payload_nonempty p(1) by blast
  have small: "length p < 2 ^ 32" using p(2) by (simp add: MAX_PAYLOAD_BYTES_def)
  have enc: "encode_frame c r = Inr (frame_of_payload c p)"
    using p(1) ok(2) by (simp add: encode_frame_def)
  then have fb: "frame_bytes c r = frame_of_payload c p"
    by (simp add: frame_bytes_def)
  have "decode_frame c (frame_head c p @ p @ zs) = Complete r (length (frame_bytes c r))" for zs
    using decode_frame_full[OF len p(2), of c zs] decode_encode_payload[OF ok p(1)] fb by simp
  then show thesis
    using that[of p] enc fb frame_of_payload_split[OF small, of c] len p(2)
      length_frame_of_payload[of c p] by metis
qed

lemma decode_zeros: "decode_frame c (replicate m 0) = Incomplete"
  by (simp add: decode_frame_def FRAME_HEADER_SIZE_def u32_from_le_def Let_def list_all_iff)

lemma records_from_zeros [simp]: "records_from c (replicate m 0) 0 = ([], None)"
  by (simp add: records_from.simps decode_zeros)

lemma records_from_frame:
  assumes "writable c r"
  shows "records_from c (frame_bytes c r @ data) 0 =
    map_prod ((#) (0, r) \<circ> map (map_prod ((+) (length (frame_bytes c r))) id))
      (map_option (map_prod ((+) (length (frame_bytes c r))) id)) (records_from c data 0)"
proof -
  obtain p where p: "frame_bytes c r = frame_head c p @ p @ replicate (padding_of (8 + length p)) 0"
    "\<And>zs. decode_frame c (frame_head c p @ p @ zs) = Complete r (length (frame_bytes c r))"
    "0 < length p"
    using writable_frame[OF assms] by metis
  have "decode_frame c (frame_bytes c r @ data) = Complete r (length (frame_bytes c r))"
    using p(2)[of "replicate (padding_of (8 + length p)) 0 @ data"] p(1) by simp
  moreover have "0 < length (frame_bytes c r @ data)"
    using p(1,3) by simp
  ultimately show ?thesis
    using records_from_shift[of c "frame_bytes c r" data 0]
    by (subst records_from.simps, cases "records_from c data 0") simp
qed

lemma records_from_torn:
  assumes "list_all (writable c) rs"
  shows "\<exists>k \<le> length rs.
    records_from c (take n (segment_of c rs @ replicate z 0)) 0 = (with_offsets c 0 (take k rs), None) \<and>
    (\<forall>j \<le> length rs. length (segment_of c (take j rs)) \<le> n \<longrightarrow> j \<le> k)"
  using assms
proof (induction rs arbitrary: n)
  case Nil
  then show ?case by simp
next
  case (Cons r rs)
  let ?f = "frame_bytes c r" and ?rest = "segment_of c rs @ replicate z 0"
  obtain p where p: "?f = frame_head c p @ p @ replicate (padding_of (8 + length p)) 0"
    "0 < length p" "length p \<le> MAX_PAYLOAD_BYTES"
    "length ?f = 8 + length p + padding_of (8 + length p)"
    "\<And>zs. decode_frame c (frame_head c p @ p @ zs) = Complete r (length ?f)"
    using Cons.prems by (auto elim: writable_frame)
  let ?zs = "replicate (padding_of (8 + length p)) 0 @ ?rest"
  have data: "segment_of c (r # rs) @ replicate z 0 = frame_head c p @ p @ ?zs"
    using p(1) by simp
  consider (torn) "n < 8 + length p" | (pad) "8 + length p \<le> n" "n < length ?f" | (whole) "length ?f \<le> n"
    by linarith
  then show ?case
  proof cases
    case torn
    then have "records_from c (take n (segment_of c (r # rs) @ replicate z 0)) 0 = ([], None)"
      unfolding data using decode_frame_torn[OF p(2,3) torn, of c ?zs]
      by (subst records_from.simps) (simp del: take_append)
    moreover have "j = 0" if "length (segment_of c (take j (r # rs))) \<le> n" for j
      using that torn p(4) by (cases j) auto
    ultimately show ?thesis by (intro exI[of _ 0]) auto
  next
    case pad
    let ?d = "take n (segment_of c (r # rs) @ replicate z 0)"
    have d: "?d = frame_head c p @ p @ take (n - 8 - length p) ?zs" "length ?d < length ?f + 1" "0 < length ?d"
      unfolding data using pad by simp_all
    have "records_from c ?d (length ?f) = ([], None)"
      using d(2) by (simp add: records_from.simps)
    then have "records_from c ?d 0 = ([(0, r)], None)"
      using d(3) p(5)[of "take (n - 8 - length p) ?zs"] d(1)
      by (subst records_from.simps) simp
    moreover have "j \<le> 1" if "length (segment_of c (take j (r # rs))) \<le> n" for j
      using that pad(2) by (cases j) auto
    ultimately show ?thesis by (intro exI[of _ 1]) auto
  next
    case whole
    have tk: "take n (segment_of c (r # rs) @ replicate z 0) = ?f @ take (n - length ?f) ?rest"
      using whole by simp
    from Cons.prems have "list_all (writable c) rs" by simp
    from Cons.IH[OF this, of "n - length ?f"] obtain k where k: "k \<le> length rs"
      "records_from c (take (n - length ?f) ?rest) 0 = (with_offsets c 0 (take k rs), None)"
      "\<And>j. j \<le> length rs \<Longrightarrow> length (segment_of c (take j rs)) \<le> n - length ?f \<Longrightarrow> j \<le> k"
      by metis
    have "records_from c (?f @ take (n - length ?f) ?rest) 0 = (with_offsets c 0 (take (Suc k) (r # rs)), None)"
      using records_from_frame[of c r] Cons.prems k(2) by (simp add: with_offsets_shift)
    moreover have "j \<le> Suc k"
      if "j \<le> length (r # rs)" "length (segment_of c (take j (r # rs))) \<le> n" for j
      using that k(3)[of "j - 1"] by (cases j) auto
    ultimately show ?thesis
      unfolding tk using k(1) by (intro exI[of _ "Suc k"]) auto
  qed
qed

lemma records_from_segment:
  assumes "list_all (writable c) rs"
  shows "records_from c (segment_of c rs @ replicate z 0) 0 = (with_offsets c 0 rs, None)"
proof -
  let ?n = "length (segment_of c rs @ replicate z (0::byte))"
  obtain k where k: "k \<le> length rs"
    "records_from c (take ?n (segment_of c rs @ replicate z 0)) 0 = (with_offsets c 0 (take k rs), None)"
    "\<And>j. j \<le> length rs \<Longrightarrow> length (segment_of c (take j rs)) \<le> ?n \<Longrightarrow> j \<le> k"
    using records_from_torn[OF assms] by meson
  from k(3)[of "length rs"] k(1) have "k = length rs" by simp
  then show ?thesis using k(2) by simp
qed


section \<open>Properties\<close>

text \<open>Property C9. A record that \<open>encode_frame\<close> accepts and whose payload has at most \<open>MAX_PAYLOAD_BYTES\<close> bytes is
  read back by \<open>decode_frame\<close> from the front of any byte sequence that starts with its frame; the
  decoder consumes exactly the frame, whose length is a multiple of 8. The bound is the one that the decoder
  checks, and the encoder does not; larger payloads are the subject of \<open>oversize_frame_is_corrupt\<close>.\<close>

theorem frame_roundtrip:
  assumes "codec_ok c r" "encode_payload c r = Inr p" "length p \<le> MAX_PAYLOAD_BYTES" "encode_frame c r = Inr f"
  shows "decode_frame c (f @ rest) = Complete r (length f) \<and> length f mod ALIGNMENT = 0"
proof -
  have "header_validate (wr_header r) = Inr ()" using assms(4) by (auto simp: encode_frame_def)
  then have "writable c r" using assms(1-3) by (simp add: writable_def)
  then obtain q where q: "encode_frame c r = Inr (frame_bytes c r)"
    "frame_bytes c r = frame_head c q @ q @ replicate (padding_of (8 + length q)) 0"
    "length (frame_bytes c r) = 8 + length q + padding_of (8 + length q)"
    "\<And>zs. decode_frame c (frame_head c q @ q @ zs) = Complete r (length (frame_bytes c r))"
    by (metis writable_frame)
  have f: "f = frame_bytes c r" using q(1) assms(4) by simp
  then have "length f mod ALIGNMENT = 0"
    using q(3) frame_aligned[of "8 + length q"] by (simp only: ALIGNMENT_def)
  moreover have "f @ rest = frame_head c q @ q @ replicate (padding_of (8 + length q)) 0 @ rest"
    using f q(2) by simp
  ultimately show ?thesis
    using q(4) f by metis
qed

text \<open>Property C10. Torn-write safety of a segment: however many bytes of a segment of whole
  frames, of records within the limits of a frame, reached the disk (with any number of zero bytes preallocated behind them), the scan
  reports no corruption and returns the frames of a prefix of the appended records, and that
  prefix contains every record whose frame was written in full.\<close>

theorem scan_torn_segment:
  assumes "list_all (writable c) rs"
  shows "\<exists>k \<le> length rs.
    scan_segment c (take n (segment_of c rs @ replicate z 0)) =
      Inr \<lparr>ss_frames = map (scan_of \<circ> wr_header) (take k rs), ss_corrupt = False\<rparr> \<and>
    (\<forall>j \<le> length rs. length (segment_of c (take j rs)) \<le> n \<longrightarrow> j \<le> k)"
proof -
  obtain k where k: "k \<le> length rs"
    "records_from c (take n (segment_of c rs @ replicate z 0)) 0 = (with_offsets c 0 (take k rs), None)"
    "\<forall>j \<le> length rs. length (segment_of c (take j rs)) \<le> n \<longrightarrow> j \<le> k"
    using records_from_torn[OF assms] by blast
  have "map (scan_of \<circ> wr_header \<circ> snd) (with_offsets c 0 (take k rs)) =
      map (scan_of \<circ> wr_header) (take k rs)"
    by (metis map_map with_offsets_records)
  then show ?thesis
    using k by (intro exI[of _ k]) (simp add: scan_segment_records)
qed

text \<open>Property C24. The size limit is enforced by the reader only: a record whose payload lies
  between \<open>MAX_PAYLOAD_BYTES\<close> and \<open>2^32\<close> bytes is encoded without an error, and the frame so
  written is classified as corrupt when it is read.\<close>

theorem oversize_frame_is_corrupt:
  assumes "header_validate (wr_header r) = Inr ()" "encode_payload c r = Inr p"
    and "MAX_PAYLOAD_BYTES < length p" "length p < 2 ^ 32"
  shows "\<exists>f. encode_frame c r = Inr f \<and>
    decode_frame c (f @ rest) = Corrupt ''implausible payload length''"
proof -
  have f: "encode_frame c r = Inr (frame_of_payload c p)"
    using assms by (simp add: encode_frame_def)
  have "0 < length p" using assms(3) by (rule le_less_trans[rotated]) simp
  note fields = frame_head_fields[OF assms(4), unfolded One_nat_def]
  have "decode_frame c (frame_head c p @ ys) = Corrupt ''implausible payload length''" for ys
    using assms(3) \<open>0 < length p\<close>
    by (simp add: decode_frame_def fields[of c ys] FRAME_HEADER_SIZE_def Let_def)
  then have "decode_frame c (frame_of_payload c p @ rest) = Corrupt ''implausible payload length''"
    by (simp add: frame_of_payload_split[OF assms(4)])
  then show ?thesis using f by blast
qed

subsection \<open>Witnesses\<close>

definition demo_header :: WalHeader where
  "demo_header = \<lparr>wh_protocol_version = 1, wh_table_uuid = Some 7, wh_batch_id = 3,
    wh_table = \<lparr>ti_namespace = ''ns'', ti_name = ''t''\<rparr>, wh_schema_id = 0, wh_generation = 5,
    wh_created_at_ms = 0, wh_idempotency_key = None, wh_row_count = 1, wh_byte_count = 1, wh_op = Append\<rparr>"

definition demo_record :: "byte list WalRecord" where
  "demo_record = \<lparr>wr_header = demo_header, wr_batch = [1, 2]\<rparr>"

definition demo_codec :: "byte list frame_codec" where
  "demo_codec = \<lparr>hdr_enc = (\<lambda>_. Some [123]), hdr_dec = (\<lambda>_. Some demo_header), ipc_enc = Inr,
    ipc_dec = Inr, empty_batch = [], crc32 = (\<lambda>bs. word_of_nat (length bs))\<rparr>"

lemmas demo_defs = demo_header_def demo_record_def demo_codec_def header_validate_ok
  WRITE_PROTOCOL_VERSION_def is_nil_def newline_def

lemma demo_codec_ok: "codec_ok demo_codec demo_record"
  by (simp add: codec_ok_def demo_defs)

lemma demo_payload: "encode_payload demo_codec demo_record = Inr [123, 10, 1, 2]"
  by (simp add: encode_payload_def demo_defs)

lemma demo_encode:
  "encode_frame demo_codec demo_record = Inr [4, 0, 0, 0, 4, 0, 0, 0, 123, 10, 1, 2, 0, 0, 0, 0]"
proof -
  have "header_validate (wr_header demo_record) = Inr ()"
    by (simp add: demo_defs)
  moreover have len: "length [123, 10, 1, 2 :: byte] = 4"
    and crc: "unat (crc32 demo_codec [123, 10, 1, 2]) = 4"
    by (simp_all add: demo_codec_def)
  moreover have "padding_of (8 + 4) = 4" "u32_to_le (4 mod 2 ^ 32) = [4, 0, 0, 0]" "u32_to_le 4 = [4, 0, 0, 0]"
    by (simp_all add: padding_of_def ALIGNMENT_def u32_to_le_def)
  moreover have "replicate 4 (0 :: byte) = [0, 0, 0, 0]"
    by (simp add: numeral_eq_Suc)
  ultimately have "frame_of_payload demo_codec [123, 10, 1, 2] =
      [4, 0, 0, 0, 4, 0, 0, 0, 123, 10, 1, 2, 0, 0, 0, 0]"
    unfolding frame_of_payload_def Let_def FRAME_HEADER_SIZE_def len crc by simp
  then show ?thesis
    using \<open>header_validate (wr_header demo_record) = Inr ()\<close>
    by (simp add: encode_frame_def demo_payload)
qed

lemma demo_writable: "writable demo_codec demo_record"
proof -
  have "header_validate (wr_header demo_record) = Inr ()"
    by (simp add: demo_defs)
  then show ?thesis
    by (simp add: writable_def demo_codec_ok demo_payload MAX_PAYLOAD_BYTES_def)
qed

theorem frame_roundtrip_witness:
  "decode_frame demo_codec ([4, 0, 0, 0, 4, 0, 0, 0, 123, 10, 1, 2, 0, 0, 0, 0] @ [9]) =
    Complete demo_record 16"
  using frame_roundtrip[OF demo_codec_ok demo_payload _ demo_encode, of "[9]"]
  by (simp add: MAX_PAYLOAD_BYTES_def)

theorem scan_torn_segment_witness:
  "\<exists>k. 1 \<le> k \<and> k \<le> 2 \<and> scan_segment demo_codec
      (take 20 (segment_of demo_codec [demo_record, demo_record] @ replicate 3 0)) =
    Inr \<lparr>ss_frames = map (scan_of \<circ> wr_header) (take k [demo_record, demo_record]), ss_corrupt = False\<rparr>"
proof -
  have "list_all (writable demo_codec) [demo_record, demo_record]"
    using demo_writable by simp
  from scan_torn_segment[OF this, of 20 3] obtain k where k: "k \<le> 2"
    "scan_segment demo_codec
      (take 20 (segment_of demo_codec [demo_record, demo_record] @ replicate 3 0)) =
      Inr \<lparr>ss_frames = map (scan_of \<circ> wr_header) (take k [demo_record, demo_record]), ss_corrupt = False\<rparr>"
    "\<forall>j \<le> 2. length (segment_of demo_codec (take j [demo_record, demo_record])) \<le> 20 \<longrightarrow> j \<le> k"
    by (auto simp: numeral_2_eq_2)
  have "length (segment_of demo_codec (take 1 [demo_record, demo_record])) \<le> 20"
    by (simp add: frame_bytes_def demo_encode)
  then have "1 \<le> k" using k(3) by auto
  then show ?thesis using k(1,2) by blast
qed

lemma demo_oversize:
  assumes "MAX_PAYLOAD_BYTES < Suc (Suc n)" "Suc (Suc n) < 2 ^ 32"
  shows "encode_payload demo_codec (demo_record\<lparr>wr_batch := replicate n 0\<rparr>) = Inr ([123, 10] @ replicate n 0)"
    "MAX_PAYLOAD_BYTES < length ([123, 10] @ replicate n (0::byte))"
    "length ([123, 10] @ replicate n (0::byte)) < 2 ^ 32"
    "header_validate (wr_header (demo_record\<lparr>wr_batch := replicate n 0\<rparr>)) = Inr ()"
  using assms by (simp_all add: encode_payload_def demo_defs)

theorem oversize_frame_is_corrupt_witness:
  "\<exists>f. encode_frame demo_codec (demo_record\<lparr>wr_batch := replicate MAX_PAYLOAD_BYTES 0\<rparr>) = Inr f \<and>
    decode_frame demo_codec (f @ []) = Corrupt ''implausible payload length''"
proof -
  have "MAX_PAYLOAD_BYTES < Suc (Suc MAX_PAYLOAD_BYTES)" "Suc (Suc MAX_PAYLOAD_BYTES) < 2 ^ 32"
    by (simp_all add: MAX_PAYLOAD_BYTES_def)
  note d = demo_oversize[OF this]
  show ?thesis
    by (rule oversize_frame_is_corrupt[OF d(4,1,2,3)])
qed

end
