(* ===== verification/Wal_Replay.thy ===== *)
theory Wal_Replay
  imports Wal_Frame
begin

text \<open>
  Bounded, fail-closed replay of the write-ahead log, \<open>teodb-storage/src/wal/replay.rs\<close>, and
  the segment file names of \<open>wal/state.rs\<close> and \<open>wal/writer.rs\<close>.

  A WAL root is the list of its files (name, content, modification time), in the order the
  operating system enumerates them. Reading a file that exists succeeds; reading past its end
  is the error \<open>read_exact\<close> returns. Preparation may quarantine (rename) a corrupt segment, so it
  returns the root it leaves behind.
\<close>

section \<open>Files\<close>

record wal_file =
  wf_name :: string
  wf_data :: "byte list"
  wf_mtime :: int

type_synonym wal_root = "wal_file list"

definition zero_pad :: "nat \<Rightarrow> string \<Rightarrow> string" where
  "zero_pad width s = replicate (width - length s) (CHR ''0'') @ s"

definition segment_name :: "nat \<Rightarrow> string" where
  "segment_name seq = zero_pad 20 (dec_str seq) @ ''.wal''"

definition parse_seq :: "string \<Rightarrow> nat option" where
  "parse_seq filename =
    (if ends_with filename ''.wal'' then dec_parse_u64 (take (length filename - 4) filename) else None)"

fun find_file :: "wal_root \<Rightarrow> string \<Rightarrow> wal_file option" where
  "find_file [] path = None"
| "find_file (f # fs) path = (if wf_name f = path then Some f else find_file fs path)"

definition segment_paths :: "wal_root \<Rightarrow> string list" where
  "segment_paths root = sort (filter (\<lambda>n. ends_with n ''.wal'') (map wf_name root))"

record SegmentIdentity =
  si_path :: string
  si_len :: nat
  si_modified :: int

definition segment_identity :: "wal_root \<Rightarrow> string \<Rightarrow> SegmentIdentity teo_result" where
  "segment_identity root path =
    (case find_file root path of
       None \<Rightarrow> Inl (wal_source ''inspect WAL segment'' ''NotFound'')
     | Some f \<Rightarrow> Inr \<lparr>si_path = path, si_len = length (wf_data f), si_modified = wf_mtime f\<rparr>)"

definition snapshot_mismatch :: TeoDBError where
  "snapshot_mismatch = wal ''WAL segment snapshot mismatch between validation and replay''"

definition corrupt_error :: "string \<Rightarrow> TeoDBError" where
  "corrupt_error reason = wal (''corrupt WAL frame: '' @ reason)"

definition quarantine_path :: "string \<Rightarrow> string" where
  "quarantine_path path = path @ ''.corrupt''"

definition verify_identity :: "wal_root \<Rightarrow> SegmentIdentity \<Rightarrow> unit teo_result" where
  "verify_identity root expected =
    (case segment_identity root (si_path expected) of
       Inl _ \<Rightarrow> Inl snapshot_mismatch
     | Inr actual \<Rightarrow> if actual \<noteq> expected then Inl snapshot_mismatch else Inr ())"

definition open_segment_file :: "wal_root \<Rightarrow> string \<Rightarrow> byte list teo_result" where
  "open_segment_file root path =
    (case find_file root path of
       None \<Rightarrow> Inl (wal_source ''failed to read WAL segment'' ''NotFound'')
     | Some f \<Rightarrow> Inr (wf_data f))"

section \<open>Reading one frame\<close>

definition read_exact :: "byte list \<Rightarrow> nat \<Rightarrow> nat \<Rightarrow> byte list teo_result" where
  "read_exact data pos n =
    (if pos + n \<le> length data then Inr (take n (drop pos data))
     else Inl (wal_source ''read WAL frame'' ''UnexpectedEof''))"

function zero_tail :: "byte list \<Rightarrow> nat \<Rightarrow> nat \<Rightarrow> bool \<Rightarrow> bool teo_result" where
  "zero_tail data pos left all_zero =
    (if left > 0 then
       (let n = min left 8192 in
        case read_exact data pos n of
          Inl e \<Rightarrow> Inl e
        | Inr chunk \<Rightarrow> zero_tail data (pos + n) (left - n) (all_zero \<and> list_all (\<lambda>b. b = 0) chunk))
     else Inr all_zero)"
  by pat_completeness auto
termination
  by (relation "measure (\<lambda>(data, pos, left, all_zero). left)") auto

declare zero_tail.simps [simp del]

definition read_frame ::
    "'b frame_codec \<Rightarrow> byte list \<Rightarrow> nat \<Rightarrow> nat \<Rightarrow> 'b FrameDecode teo_result" where
  "read_frame c file offset limit =
    (let remaining = limit - offset in
     if remaining < FRAME_HEADER_SIZE then Inr Incomplete
     else
       bind_r (read_exact file offset FRAME_HEADER_SIZE) (\<lambda>header.
         let payload_len = u32_from_le (header ! 0) (header ! 1) (header ! 2) (header ! 3) in
         if payload_len = 0 then
           bind_r (zero_tail file (offset + FRAME_HEADER_SIZE) (remaining - FRAME_HEADER_SIZE)
               (list_all (\<lambda>b. b = 0) header)) (\<lambda>all_zero.
             Inr (if all_zero then Incomplete
                  else Corrupt ''zero payload length with non-zero trailing bytes''))
         else if payload_len > MAX_PAYLOAD_BYTES then Inr (Corrupt ''implausible payload length'')
         else
           let total_content = FRAME_HEADER_SIZE + payload_len in
           if remaining < total_content then Inr Incomplete
           else
             let padding = (8 - total_content mod 8) mod 8;
                 available_padding = min padding (remaining - total_content)
             in bind_r (read_exact file (offset + FRAME_HEADER_SIZE)
                    (total_content + available_padding - FRAME_HEADER_SIZE)) (\<lambda>body.
                  Inr (decode_frame c (header @ body)))))"

lemma read_frame_consumed: "read_frame c file offset limit = Inr (Complete r n) \<Longrightarrow> 0 < n"
  by (auto simp: read_frame_def Let_def dest!: decode_frame_consumed split: if_splits)

section \<open>Pass one: the replay plan\<close>

datatype WalRecoveryMode = Fail | Salvage

type_synonym frame_position = "nat \<times> nat"

record ReplayEntry =
  re_position :: frame_position
  re_generation :: generation
  re_batch_id :: uuid
  re_table_index :: nat

record SegmentSnapshot =
  sn_identity :: SegmentIdentity
  sn_replay_len :: nat
  sn_live :: bool

record ReplayPlan =
  rp_segments :: "SegmentSnapshot list"
  rp_entries :: "ReplayEntry list"
  rp_tables :: "WalTableKey list"
  rp_table_keys :: "WalTableKey set"
  rp_entry_index :: nat
  rp_file_segment :: "nat option"
  rp_snapshot_checked :: bool
  rp_peak_live_decoded_records :: nat

record prep_state =
  ps_entries :: "ReplayEntry list"
  ps_tables :: "WalTableKey list"
  ps_table_indexes :: "WalTableKey \<rightharpoonup> nat"
  ps_latest_tombstones :: "TableIdent \<rightharpoonup> frame_position"

definition is_committed :: "(WalTableKey \<rightharpoonup> generation) \<Rightarrow> WalTableKey \<Rightarrow> generation \<Rightarrow> bool" where
  "is_committed committed key generation \<longleftrightarrow>
    (case committed key of None \<Rightarrow> False | Some g \<Rightarrow> generation \<le> g)"

definition prep_record ::
    "(WalTableKey \<rightharpoonup> generation) \<Rightarrow> frame_position \<Rightarrow> WalHeader \<Rightarrow> prep_state \<Rightarrow> prep_state teo_result" where
  "prep_record committed pos h st =
    (case wh_op h of
       DropTable \<Rightarrow>
         Inr (st\<lparr>ps_latest_tombstones := (ps_latest_tombstones st)(wh_table h \<mapsto> pos)\<rparr>)
     | Append \<Rightarrow>
         bind_r (header_table_key h) (\<lambda>key.
           if is_committed committed key (wh_generation h) then Inr st
           else
             let entry = (\<lambda>i. \<lparr>re_position = pos, re_generation = wh_generation h,
                   re_batch_id = wh_batch_id h, re_table_index = i\<rparr>)
             in (case ps_table_indexes st key of
                   Some index \<Rightarrow> Inr (st\<lparr>ps_entries := ps_entries st @ [entry index]\<rparr>)
                 | None \<Rightarrow>
                     let index = length (ps_tables st) in
                     Inr (st\<lparr>ps_tables := ps_tables st @ [key],
                             ps_table_indexes := (ps_table_indexes st)(key \<mapsto> index),
                             ps_entries := ps_entries st @ [entry index]\<rparr>))))"

text \<open>The frame loop of one segment: the state, the validated length and the corruption found.\<close>

function prep_segment ::
    "'b frame_codec \<Rightarrow> (WalTableKey \<rightharpoonup> generation) \<Rightarrow> nat \<Rightarrow> byte list \<Rightarrow> nat \<Rightarrow> nat \<Rightarrow> prep_state
      \<Rightarrow> (prep_state \<times> nat \<times> string option) teo_result" where
  "prep_segment c committed seg file len offset st =
    (if offset < len then
       (case read_frame c file offset len of
          Inl e \<Rightarrow> Inl e
        | Inr (Complete r consumed) \<Rightarrow>
            (case prep_record committed (seg, offset) (wr_header r) st of
               Inl e \<Rightarrow> Inl e
             | Inr st' \<Rightarrow> prep_segment c committed seg file len (min (offset + consumed) len) st')
        | Inr Incomplete \<Rightarrow> Inr (st, offset, None)
        | Inr (Corrupt reason) \<Rightarrow> Inr (st, offset, Some reason))
     else Inr (st, len, None))"
  by pat_completeness auto
termination
  by (relation "measure (\<lambda>(c, committed, seg, file, len, offset, st). len - offset)")
    (auto dest: read_frame_consumed)

declare prep_segment.simps [simp del]

definition rename_file :: "wal_root \<Rightarrow> string \<Rightarrow> string \<Rightarrow> wal_root" where
  "rename_file root from to =
    map (\<lambda>f. if wf_name f = from then f\<lparr>wf_name := to\<rparr> else f) (filter (\<lambda>f. wf_name f \<noteq> to) root)"

fun prep_segments ::
    "'b frame_codec \<Rightarrow> (WalTableKey \<rightharpoonup> generation) \<Rightarrow> WalRecoveryMode \<Rightarrow> nat \<Rightarrow> string list
      \<Rightarrow> wal_root \<times> SegmentSnapshot list \<times> prep_state
      \<Rightarrow> (wal_root \<times> SegmentSnapshot list \<times> prep_state) teo_result" where
  "prep_segments c committed mode seg [] acc = Inr acc"
| "prep_segments c committed mode seg (path # paths) (root, snaps, st) =
    bind_r (segment_identity root path) (\<lambda>identity.
    bind_r (open_segment_file root path) (\<lambda>file.
    bind_r (prep_segment c committed seg file (si_len identity) 0 st) (\<lambda>(st', replay_len, corruption).
      case corruption of
        None \<Rightarrow> prep_segments c committed mode (Suc seg) paths
          (root, snaps @ [\<lparr>sn_identity = identity, sn_replay_len = replay_len, sn_live = True\<rparr>], st')
      | Some reason \<Rightarrow>
          (case mode of
             Fail \<Rightarrow> Inl (corrupt_error reason)
           | Salvage \<Rightarrow>
               let quarantine = quarantine_path path in
               prep_segments c committed mode (Suc seg) paths
                 (rename_file root path quarantine,
                  snaps @ [\<lparr>sn_identity = identity\<lparr>si_path := quarantine\<rparr>,
                    sn_replay_len = replay_len, sn_live = False\<rparr>], st')))))"

definition retain_entries :: "prep_state \<Rightarrow> ReplayEntry list" where
  "retain_entries st =
    filter (\<lambda>e. case ps_latest_tombstones st (wk_ident (ps_tables st ! re_table_index e)) of
        None \<Rightarrow> True | Some tombstone \<Rightarrow> re_position e > tombstone) (ps_entries st)"

definition entry_key :: "ReplayEntry \<Rightarrow> generation \<times> uuid \<times> frame_position" where
  "entry_key e = (re_generation e, re_batch_id e, re_position e)"

definition empty_prep :: prep_state where
  "empty_prep = \<lparr>ps_entries = [], ps_tables = [], ps_table_indexes = (\<lambda>_. None),
    ps_latest_tombstones = (\<lambda>_. None)\<rparr>"

definition prepare ::
    "'b frame_codec \<Rightarrow> (WalTableKey \<rightharpoonup> generation) \<Rightarrow> WalRecoveryMode \<Rightarrow> wal_root
      \<Rightarrow> (wal_root \<times> ReplayPlan) teo_result" where
  "prepare c committed mode root =
    bind_r (prep_segments c committed mode 0 (segment_paths root) (root, [], empty_prep))
      (\<lambda>(root', snaps, st).
        let entries = sort_key entry_key (retain_entries st) in
        Inr (root',
          \<lparr>rp_segments = snaps, rp_entries = entries, rp_tables = ps_tables st,
           rp_table_keys = set (map (\<lambda>e. ps_tables st ! re_table_index e) entries),
           rp_entry_index = 0, rp_file_segment = None, rp_snapshot_checked = False,
           rp_peak_live_decoded_records = 0\<rparr>))"

section \<open>Pass two: one record at a time\<close>

fun verify_identities :: "wal_root \<Rightarrow> SegmentIdentity list \<Rightarrow> unit teo_result" where
  "verify_identities root [] = Inr ()"
| "verify_identities root (i # is) = bind_r (verify_identity root i) (\<lambda>_. verify_identities root is)"

definition verify_live_snapshot :: "wal_root \<Rightarrow> ReplayPlan \<Rightarrow> unit teo_result" where
  "verify_live_snapshot root plan =
    (let actual_paths = segment_paths root;
         expected = map sn_identity (filter sn_live (rp_segments plan))
     in if length actual_paths \<noteq> length expected
          \<or> list_ex (\<lambda>(actual, e). actual \<noteq> si_path e) (zip actual_paths expected)
        then Inl snapshot_mismatch
        else verify_identities root expected)"

definition matches_index :: "WalHeader \<Rightarrow> ReplayEntry \<Rightarrow> WalTableKey \<Rightarrow> bool teo_result" where
  "matches_index h entry expected_table =
    (if wh_op h = Append \<and> wh_generation h = re_generation entry \<and> wh_batch_id h = re_batch_id entry
     then bind_r (header_table_key h) (\<lambda>key. Inr (key = expected_table))
     else Inr False)"

definition expect_complete :: "'b FrameDecode \<Rightarrow> 'b WalRecord teo_result" where
  "expect_complete decoded =
    (case decoded of Complete r _ \<Rightarrow> Inr r | Incomplete \<Rightarrow> Inl snapshot_mismatch
     | Corrupt _ \<Rightarrow> Inl snapshot_mismatch)"

text \<open>The body of \<open>next_record\<close> for one index entry: reopen the segment, decode, compare.\<close>

definition read_entry ::
    "'b frame_codec \<Rightarrow> wal_root \<Rightarrow> ReplayPlan \<Rightarrow> ReplayEntry \<Rightarrow> 'b WalRecord teo_result" where
  "read_entry c root plan entry =
    (let seg = fst (re_position entry); offset = snd (re_position entry) in
     if \<not> seg < length (rp_segments plan) then Inl snapshot_mismatch
     else
       let snapshot = rp_segments plan ! seg in
       bind_r (if rp_file_segment plan \<noteq> Some seg then verify_identity root (sn_identity snapshot)
         else Inr ()) (\<lambda>_.
       bind_r (open_segment_file root (si_path (sn_identity snapshot))) (\<lambda>file.
       bind_r (read_frame c file offset (sn_replay_len snapshot)) (\<lambda>decoded.
       bind_r (expect_complete decoded) (\<lambda>r.
       if \<not> re_table_index entry < length (rp_tables plan) then Inl snapshot_mismatch
       else
         bind_r (matches_index (wr_header r) entry (rp_tables plan ! re_table_index entry)) (\<lambda>m.
         if m then Inr r else Inl snapshot_mismatch))))))"

definition next_record ::
    "'b frame_codec \<Rightarrow> wal_root \<Rightarrow> ReplayPlan \<Rightarrow> (ReplayPlan \<times> 'b WalRecord option) teo_result" where
  "next_record c root plan =
    bind_r (if rp_snapshot_checked plan then Inr () else verify_live_snapshot root plan) (\<lambda>_.
    if \<not> rp_entry_index plan < length (rp_entries plan)
    then Inr (plan\<lparr>rp_snapshot_checked := True\<rparr>, None)
    else
      let entry = rp_entries plan ! rp_entry_index plan in
      bind_r (read_entry c root plan entry) (\<lambda>r.
      Inr (plan\<lparr>rp_snapshot_checked := True, rp_file_segment := Some (fst (re_position entry)),
             rp_entry_index := rp_entry_index plan + 1,
             rp_peak_live_decoded_records := max (rp_peak_live_decoded_records plan) 1\<rparr>, Some r)))"

lemma next_record_advances:
  "next_record c root plan = Inr (plan', Some r) \<Longrightarrow>
    rp_entry_index plan < length (rp_entries plan) \<and> rp_entries plan' = rp_entries plan \<and>
    rp_entry_index plan' = Suc (rp_entry_index plan)"
  by (auto simp: next_record_def Let_def split: if_splits)

function collect_loop ::
    "'b frame_codec \<Rightarrow> wal_root \<Rightarrow> ReplayPlan \<Rightarrow> 'b WalRecord list \<Rightarrow> 'b WalRecord list teo_result" where
  "collect_loop c root plan records =
    (case next_record c root plan of
       Inl e \<Rightarrow> Inl e
     | Inr (plan', None) \<Rightarrow> Inr records
     | Inr (plan', Some r) \<Rightarrow> collect_loop c root plan' (records @ [r]))"
  by pat_completeness auto
termination
  by (relation "measure (\<lambda>(c, root, plan, records). length (rp_entries plan) - rp_entry_index plan)")
    (auto dest: next_record_advances)

declare collect_loop.simps [simp del]

definition collect :: "'b frame_codec \<Rightarrow> wal_root \<Rightarrow> ReplayPlan \<Rightarrow> 'b WalRecord list teo_result" where
  "collect c root plan = collect_loop c root plan []"

text \<open>\<open>prepare_replay\<close> followed by \<open>collect\<close>.\<close>

definition replay ::
    "'b frame_codec \<Rightarrow> (WalTableKey \<rightharpoonup> generation) \<Rightarrow> WalRecoveryMode \<Rightarrow> wal_root
      \<Rightarrow> 'b WalRecord list teo_result" where
  "replay c committed mode root =
    bind_r (prepare c committed mode root) (\<lambda>(root', plan). collect c root' plan)"

end
