(* ===== verification/Wal_Replay_Sound.thy ===== *)
theory Wal_Replay_Sound
  imports Wal_Replay
begin

text \<open>
  Correctness of the replay. The reference is a filter over the sequence of records found in
  the segments (\<open>live_records\<close>: appends that are not covered by a committed generation and not
  followed by a tombstone of their table), sorted by generation and batch id. The two-pass
  machinery (index entries, interned table keys, latest tombstones, reopened files) is shown to
  compute exactly that, and to fail closed on corruption.
\<close>

section \<open>Reading a frame equals decoding it\<close>

lemma decode_frame_lt8: "length d < 8 \<Longrightarrow> decode_frame c d = Incomplete"
  by (simp add: decode_frame_def FRAME_HEADER_SIZE_def)

lemma zero_tail_spec:
  "pos + left \<le> length data \<Longrightarrow>
    zero_tail data pos left z = Inr (z \<and> list_all (\<lambda>b. b = 0) (take left (drop pos data)))"
proof (induction data pos left z rule: zero_tail.induct)
  case (1 data pos left z)
  show ?case
  proof (cases "left > 0")
    case True
    let ?n = "min left 8192"
    have "read_exact data pos ?n = Inr (take ?n (drop pos data))"
      using "1.prems" by (auto simp: read_exact_def)
    moreover from this have "zero_tail data (pos + ?n) (left - ?n)
        (z \<and> list_all (\<lambda>b. b = 0) (take ?n (drop pos data))) =
        Inr ((z \<and> list_all (\<lambda>b. b = 0) (take ?n (drop pos data))) \<and>
          list_all (\<lambda>b. b = 0) (take (left - ?n) (drop (pos + ?n) data)))"
      using "1.IH"[OF True refl] "1.prems" by auto
    moreover have "take left (drop pos data) =
        take ?n (drop pos data) @ take (left - ?n) (drop (pos + ?n) data)"
      by (metis (no_types, lifting) add.commute drop_drop le_add_diff_inverse min.cobounded1 take_add)
    ultimately show ?thesis
      using True by (subst zero_tail.simps) (simp add: Let_def)
  qed (simp add: zero_tail.simps)
qed

lemma decode_frame_take:
  assumes "8 \<le> length d" "k = u32_from_le (d ! 0) (d ! 1) (d ! 2) (d ! 3)" "0 < k"
    "8 + k \<le> length d" "8 + k \<le> m"
  shows "decode_frame c (take m d) = decode_frame c d"
proof -
  have nth: "take m d ! i = d ! i" if "i < 8" for i
    using assms that by simp
  have len: "8 \<le> length (take m d)" "8 + k \<le> length (take m d)"
    using assms by simp_all
  have "take k (drop 8 (take m d)) = take k (drop 8 d)"
    using assms(5) by (simp add: take_drop min_def)
  then show ?thesis
    using assms len nth
    by (simp add: decode_frame_def FRAME_HEADER_SIZE_def Let_def del: length_take)
qed

lemma decode_frame_Complete_fields:
  assumes "decode_frame c d = Complete r n"
  obtains k where "8 \<le> length d" "k = u32_from_le (d ! 0) (d ! 1) (d ! 2) (d ! 3)" "0 < k"
    "8 + k \<le> length d" "n = 8 + k + padding_of (8 + k)"
  using assms
  by (auto simp: decode_frame_def FRAME_HEADER_SIZE_def Let_def not_less
      dest!: decode_payload_Complete split: if_splits)

lemma decode_frame_take_Complete:
  assumes "decode_frame c d = Complete r n" "min n (length d) \<le> m"
  shows "decode_frame c (take m d) = Complete r n"
proof -
  from assms(1) obtain k where k: "8 \<le> length d" "k = u32_from_le (d ! 0) (d ! 1) (d ! 2) (d ! 3)"
    "0 < k" "8 + k \<le> length d" "n = 8 + k + padding_of (8 + k)"
    by (rule decode_frame_Complete_fields)
  then have "8 + k \<le> m" using assms(2) by auto
  then show ?thesis using decode_frame_take[OF k(1-4), of m c] assms(1) by metis
qed

lemma read_frame_eq_decode:
  assumes "offset \<le> limit" "limit \<le> length data"
  shows "read_frame c data offset limit =
    Inr (decode_frame c (take (limit - offset) (drop offset data)))"
proof (cases "limit - offset < 8")
  case True
  then show ?thesis by (simp add: read_frame_def decode_frame_lt8 FRAME_HEADER_SIZE_def)
next
  case False
  define rem d h where rdh: "rem = limit - offset" "d = take rem (drop offset data)"
    "h = take 8 (drop offset data)"
  define k where k_def: "k = u32_from_le (d ! 0) (d ! 1) (d ! 2) (d ! 3)"
  have rem: "8 \<le> rem" "offset + rem \<le> length data" using False assms by (auto simp: rdh)
  have len: "length d = rem" using rem by (simp add: rdh(2))
  have hd: "read_exact data offset 8 = Inr h" using rem by (simp add: read_exact_def rdh(3))
  have "h ! i = d ! i" if "i < 8" for i using that rem by (simp add: rdh(2,3))
  from this[of 0] this[of 1] this[of 2] this[of 3]
  have k: "u32_from_le (h ! 0) (h ! 1) (h ! 2) (h ! 3) = k" by (simp add: k_def)
  have split: "d = h @ take (rem - 8) (drop (offset + 8) data)"
    using rem(1) by (metis rdh(2,3) add.commute drop_drop le_add_diff_inverse take_add)
  note read = read_frame_def[of c data offset limit, unfolded FRAME_HEADER_SIZE_def Let_def, folded rdh(1)]
  note dec = decode_frame_def[of c d, unfolded FRAME_HEADER_SIZE_def Let_def, folded k_def, unfolded len]
  consider (zero) "k = 0" | (big) "0 < k" "MAX_PAYLOAD_BYTES < k"
    | (short) "0 < k" "k \<le> MAX_PAYLOAD_BYTES" "rem < 8 + k"
    | (full) "0 < k" "k \<le> MAX_PAYLOAD_BYTES" "8 + k \<le> rem" by linarith
  then have "read_frame c data offset limit = Inr (decode_frame c d)"
  proof cases
    case zero
    have "zero_tail data (offset + 8) (rem - 8) (list_all (\<lambda>b. b = 0) h) =
        Inr (list_all (\<lambda>b. b = 0) d)"
      using zero_tail_spec[of "offset + 8" "rem - 8" data] rem by (subst split) simp
    then show ?thesis using rem(1) zero hd k dec by (simp add: read)
  next
    case big
    then show ?thesis using rem(1) hd k dec by (simp add: read)
  next
    case short
    then show ?thesis using rem(1) hd k dec by (simp add: read)
  next
    case full
    define n where n_def: "n = 8 + k + min ((8 - (8 + k) mod 8) mod 8) (rem - (8 + k))"
    have n: "n \<le> rem" "8 + k \<le> n" using full(3) by (simp_all add: n_def)
    have body: "read_exact data (offset + 8) (n - 8) = Inr (take (n - 8) (drop (offset + 8) data))"
      using n rem by (simp add: read_exact_def)
    have "h @ take (n - 8) (drop (offset + 8) data) = take n d"
    proof -
      have "take n d = take n (drop offset data)" using n(1) by (simp add: rdh(2) min_def)
      moreover have "take n (drop offset data) = h @ take (n - 8) (drop 8 (drop offset data))"
        using n(2) by (metis rdh(3) add_leD1 le_add_diff_inverse take_add)
      ultimately show ?thesis by (simp add: add.commute)
    qed
    moreover have "decode_frame c (take n d) = decode_frame c d"
      using decode_frame_take[OF _ k_def full(1) _ n(2)] len rem(1) full(3) by simp
    moreover have "read_frame c data offset limit =
        Inr (decode_frame c (h @ take (n - 8) (drop (offset + 8) data)))"
      using rem(1) hd k full body by (simp add: read n_def[symmetric] del: mod_add_self1)
    ultimately show ?thesis by simp
  qed
  then show ?thesis by (simp add: rdh)
qed


section \<open>The frame loop of a segment\<close>

definition prep_step ::
    "(WalTableKey \<rightharpoonup> generation) \<Rightarrow> frame_position \<times> 'b WalRecord \<Rightarrow> prep_state \<Rightarrow> prep_state" where
  "prep_step committed pr st =
    (case prep_record committed (fst pr) (wr_header (snd pr)) st of Inr st' \<Rightarrow> st' | Inl _ \<Rightarrow> st)"

lemma header_table_key_valid:
  "header_validate h = Inr () \<Longrightarrow> wh_op h = Append \<Longrightarrow>
    header_table_key h = Inr (WalTableKey_new (the (wh_table_uuid h)) (wh_table h))"
  by (auto simp: header_table_key_def header_validate_ok)

lemma prep_record_valid:
  "header_validate h = Inr () \<Longrightarrow> \<exists>st'. prep_record committed pos h st = Inr st'"
  by (cases "wh_op h")
    (auto simp: prep_record_def header_table_key_valid Let_def split: option.splits)

lemma prep_record_step:
  "header_validate (wr_header r) = Inr () \<Longrightarrow>
    prep_record committed pos (wr_header r) st = Inr (prep_step committed (pos, r) st)"
  using prep_record_valid[of "wr_header r" committed pos st] by (auto simp: prep_step_def)

lemma records_from_end [simp]: "length data \<le> offset \<Longrightarrow> records_from c data offset = ([], None)"
  by (subst records_from.simps) simp

lemma records_from_min [simp]:
  "records_from c data (min offset (length data)) = records_from c data offset"
  by (cases "offset \<le> length data") auto

text \<open>The records of a segment with the segment number in their position.\<close>

definition numbered :: "nat \<Rightarrow> (nat \<times> 'b WalRecord) list \<Rightarrow> (frame_position \<times> 'b WalRecord) list" where
  "numbered seg rs = map (\<lambda>(off, r). ((seg, off), r)) rs"

definition readable_at :: "'b frame_codec \<Rightarrow> byte list \<Rightarrow> nat \<Rightarrow> nat \<times> 'b WalRecord \<Rightarrow> bool" where
  "readable_at c data limit p \<longleftrightarrow> fst p \<le> limit \<and> limit \<le> length data \<and>
    (\<exists>n. decode_frame c (take (limit - fst p) (drop (fst p) data)) = Complete (snd p) n)"

lemma readable_at_read:
  "readable_at c data limit (off, r) \<Longrightarrow> \<exists>n. read_frame c data off limit = Inr (Complete r n)"
  by (auto simp: readable_at_def read_frame_eq_decode)

lemma prep_segment_records:
  "offset \<le> length data \<Longrightarrow> \<exists>rl. offset \<le> rl \<and> rl \<le> length data \<and>
    prep_segment c committed seg data (length data) offset st =
      Inr (fold (prep_step committed) (numbered seg (fst (records_from c data offset))) st, rl,
        map_option snd (snd (records_from c data offset))) \<and>
    (\<forall>p \<in> set (fst (records_from c data offset)). readable_at c data rl p)"
proof (induction "length data - offset" arbitrary: offset st rule: less_induct)
  case less
  show ?case
  proof (cases "offset < length data")
    case False
    then show ?thesis
      using less.prems by (intro exI[of _ "length data"]) (simp add: prep_segment.simps numbered_def)
  next
    case True
    have rf: "read_frame c data offset (length data) = Inr (decode_frame c (drop offset data))"
      using read_frame_eq_decode[of offset "length data" data c] True by simp
    show ?thesis
    proof (cases "decode_frame c (drop offset data)")
      case Incomplete
      then show ?thesis
        using True rf by (intro exI[of _ offset])
          (simp add: prep_segment.simps[of c committed seg data _ offset] records_from.simps[of c data offset] numbered_def)
    next
      case (Corrupt reason)
      then show ?thesis
        using True rf by (intro exI[of _ offset])
          (simp add: prep_segment.simps[of c committed seg data _ offset] records_from.simps[of c data offset] numbered_def)
    next
      case (Complete r n)
      have n: "0 < n" and valid: "header_validate (wr_header r) = Inr ()"
        using decode_frame_consumed[OF Complete] by auto
      let ?next = "min (offset + n) (length data)"
      let ?st = "prep_step committed ((seg, offset), r) st"
      obtain rl where rl: "?next \<le> rl" "rl \<le> length data"
        "prep_segment c committed seg data (length data) ?next ?st =
          Inr (fold (prep_step committed) (numbered seg (fst (records_from c data (offset + n)))) ?st, rl,
            map_option snd (snd (records_from c data (offset + n))))"
        "\<forall>p \<in> set (fst (records_from c data (offset + n))). readable_at c data rl p"
      proof -
        have "length data - ?next < length data - offset" using True n by auto
        from less.hyps[OF this, of ?st] show ?thesis using that by auto
      qed
      have "decode_frame c (take (rl - offset) (drop offset data)) = Complete r n"
        using rl(1) by (intro decode_frame_take_Complete[OF Complete]) auto
      then have "readable_at c data rl (offset, r)"
        using rl(1,2) True by (auto simp: readable_at_def)
      moreover have "records_from c data offset =
          ((offset, r) # fst (records_from c data (offset + n)), snd (records_from c data (offset + n)))"
        using True Complete by (subst records_from.simps) (simp split: prod.splits)
      moreover have "prep_segment c committed seg data (length data) offset st =
          prep_segment c committed seg data (length data) ?next ?st"
        using True rf Complete prep_record_step[OF valid] by (subst prep_segment.simps) simp
      ultimately show ?thesis
        using rl True by (intro exI[of _ rl]) (auto simp: numbered_def)
    qed
  qed
qed

section \<open>The index entries\<close>

definition uncommitted :: "(WalTableKey \<rightharpoonup> generation) \<Rightarrow> WalHeader \<Rightarrow> bool" where
  "uncommitted committed h \<longleftrightarrow> wh_op h = Append \<and>
    \<not> is_committed committed (WalTableKey_new (the (wh_table_uuid h)) (wh_table h)) (wh_generation h)"

definition prep_inv :: "prep_state \<Rightarrow> bool" where
  "prep_inv st \<longleftrightarrow> (\<forall>e \<in> set (ps_entries st). re_table_index e < length (ps_tables st)) \<and>
    (\<forall>k i. ps_table_indexes st k = Some i \<longrightarrow> i < length (ps_tables st) \<and> ps_tables st ! i = k)"

text \<open>An entry describes a record at a position.\<close>

definition describes :: "WalTableKey list \<Rightarrow> ReplayEntry \<Rightarrow> frame_position \<times> 'b WalRecord \<Rightarrow> bool" where
  "describes tables e pr \<longleftrightarrow> re_position e = fst pr \<and>
    re_generation e = wh_generation (wr_header (snd pr)) \<and> re_batch_id e = wh_batch_id (wr_header (snd pr)) \<and>
    re_table_index e < length tables \<and>
    tables ! re_table_index e =
      WalTableKey_new (the (wh_table_uuid (wr_header (snd pr)))) (wh_table (wr_header (snd pr)))"

lemma describes_append: "describes tables e pr \<Longrightarrow> describes (tables @ ts) e pr"
  by (auto simp: describes_def nth_append)

lemma prep_step_inv:
  assumes "header_validate (wr_header r) = Inr ()" "prep_inv st"
    and "list_all2 (describes (ps_tables st)) (ps_entries st) prs"
  shows "prep_inv (prep_step committed (pos, r) st) \<and>
    list_all2 (describes (ps_tables (prep_step committed (pos, r) st)))
      (ps_entries (prep_step committed (pos, r) st))
      (prs @ (if uncommitted committed (wr_header r) then [(pos, r)] else [])) \<and>
    ps_latest_tombstones (prep_step committed (pos, r) st) =
      (if wh_op (wr_header r) = DropTable then (ps_latest_tombstones st)(wh_table (wr_header r) \<mapsto> pos)
       else ps_latest_tombstones st)"
proof (cases "wh_op (wr_header r)")
  case DropTable
  then show ?thesis
    using assms by (auto simp: prep_step_def prep_record_def uncommitted_def prep_inv_def)
next
  case Append
  let ?key = "WalTableKey_new (the (wh_table_uuid (wr_header r))) (wh_table (wr_header r))"
  note key = header_table_key_valid[OF assms(1) Append]
  show ?thesis
  proof (cases "is_committed committed ?key (wh_generation (wr_header r))")
    case True
    then show ?thesis
      using assms Append key by (auto simp: prep_step_def prep_record_def uncommitted_def)
  next
    case unc: False
    show ?thesis
    proof (cases "ps_table_indexes st ?key")
      case (Some i)
      then have "i < length (ps_tables st) \<and> ps_tables st ! i = ?key"
        using assms(2) by (simp add: prep_inv_def)
      then show ?thesis
        using assms Append key unc Some
        by (auto simp: prep_step_def prep_record_def uncommitted_def prep_inv_def describes_def
            intro!: list_all2_appendI)
    next
      case None
      have "list_all2 (describes (ps_tables st @ [?key])) (ps_entries st) prs"
        using assms(3) by (rule list_all2_mono) (rule describes_append)
      then show ?thesis
        using assms Append key unc None
        by (auto simp: prep_step_def prep_record_def uncommitted_def prep_inv_def describes_def
            nth_append less_Suc_eq Let_def split: if_splits intro!: list_all2_appendI)
    qed
  qed
qed

definition tombstones :: "(frame_position \<times> 'b WalRecord) list \<Rightarrow> TableIdent \<rightharpoonup> frame_position" where
  "tombstones prs = map_of (rev (map (\<lambda>(pos, r). (wh_table (wr_header r), pos))
    (filter (\<lambda>(pos, r). wh_op (wr_header r) = DropTable) prs)))"

lemma tombstones_snoc:
  "tombstones (prs @ [(pos, r)]) =
    (if wh_op (wr_header r) = DropTable then (tombstones prs)(wh_table (wr_header r) \<mapsto> pos) else tombstones prs)"
  by (auto simp: tombstones_def)

lemma fold_prep:
  assumes "\<forall>pr \<in> set prs. header_validate (wr_header (snd pr)) = Inr ()"
  shows "prep_inv (fold (prep_step committed) prs empty_prep) \<and>
    list_all2 (describes (ps_tables (fold (prep_step committed) prs empty_prep)))
      (ps_entries (fold (prep_step committed) prs empty_prep))
      (filter (\<lambda>pr. uncommitted committed (wr_header (snd pr))) prs) \<and>
    ps_latest_tombstones (fold (prep_step committed) prs empty_prep) = tombstones prs"
  using assms
proof (induction prs rule: rev_induct)
  case Nil
  then show ?case by (simp add: prep_inv_def empty_prep_def tombstones_def)
next
  case (snoc pr prs)
  obtain pos r where pr: "pr = (pos, r)" by (cases pr)
  have "header_validate (wr_header r) = Inr ()" using snoc.prems pr by simp
  from prep_step_inv[OF this, of "fold (prep_step committed) prs empty_prep"
      "filter (\<lambda>pr. uncommitted committed (wr_header (snd pr))) prs" committed pos]
  show ?case
    using snoc by (auto simp: pr tombstones_snoc)
qed


section \<open>Live records and the canonical order\<close>

fun live_records ::
    "(WalTableKey \<rightharpoonup> generation) \<Rightarrow> 'b WalRecord list \<Rightarrow> 'b WalRecord list" where
  "live_records committed [] = []"
| "live_records committed (r # rs) =
    (if uncommitted committed (wr_header r) \<and>
        \<not> list_ex (\<lambda>r'. wh_op (wr_header r') = DropTable \<and> wh_table (wr_header r') = wh_table (wr_header r)) rs
     then r # live_records committed rs else live_records committed rs)"

definition canonical_key :: "'b WalRecord \<Rightarrow> generation \<times> uuid" where
  "canonical_key r = (wh_generation (wr_header r), wh_batch_id (wr_header r))"

abbreviation voids :: "frame_position \<times> 'b WalRecord \<Rightarrow> TableIdent \<Rightarrow> bool" where
  "voids pr t \<equiv> wh_op (wr_header (snd pr)) = DropTable \<and> wh_table (wr_header (snd pr)) = t"

lemma tombstones_None: "tombstones prs t = None \<longleftrightarrow> (\<forall>pr \<in> set prs. \<not> voids pr t)"
  by (auto simp: tombstones_def map_of_eq_None_iff image_iff) blast

lemma tombstones_Some:
  "sorted_wrt (<) (map fst prs) \<Longrightarrow> tombstones prs t = Some p \<Longrightarrow>
    (\<exists>pr \<in> set prs. voids pr t \<and> fst pr = p) \<and> (\<forall>pr \<in> set prs. voids pr t \<longrightarrow> fst pr \<le> p)"
proof (induction prs arbitrary: p rule: rev_induct)
  case Nil
  then show ?case by (simp add: tombstones_def)
next
  case (snoc pr prs)
  obtain q r where pr: "pr = (q, r)" by (cases pr)
  have "sorted_wrt (<) (map fst prs)" "\<forall>x \<in> set prs. fst x < q"
    using snoc.prems(1) pr by (auto simp: sorted_wrt_append)
  then show ?case
    using snoc.IH[of p] snoc.prems(2) by (fastforce simp: pr tombstones_snoc split: if_splits)
qed

definition beyond_tombstone ::
    "(frame_position \<times> 'b WalRecord) list \<Rightarrow> frame_position \<times> 'b WalRecord \<Rightarrow> bool" where
  "beyond_tombstone prs pr \<longleftrightarrow>
    (case tombstones prs (wh_table (wr_header (snd pr))) of None \<Rightarrow> True | Some t \<Rightarrow> fst pr > t)"

lemma beyond_tombstone_iff:
  assumes "sorted_wrt (<) (map fst prs)"
  shows "beyond_tombstone prs pr \<longleftrightarrow>
    (\<forall>q \<in> set prs. voids q (wh_table (wr_header (snd pr))) \<longrightarrow> fst q < fst pr)"
proof (cases "tombstones prs (wh_table (wr_header (snd pr)))")
  case None
  then show ?thesis using tombstones_None by (fastforce simp: beyond_tombstone_def)
next
  case (Some p)
  from tombstones_Some[OF assms Some] obtain x where x: "x \<in> set prs"
    "voids x (wh_table (wr_header (snd pr)))" "fst x = p"
    and le: "\<forall>q \<in> set prs. voids q (wh_table (wr_header (snd pr))) \<longrightarrow> fst q \<le> p" by blast
  have "beyond_tombstone prs pr \<longleftrightarrow> p < fst pr"
    by (simp add: beyond_tombstone_def Some)
  then show ?thesis using x le by (metis le_less_trans)
qed

lemma live_records_filter:
  assumes "sorted_wrt (<) (map fst (before @ prs))"
  shows "map snd (filter (\<lambda>pr. uncommitted committed (wr_header (snd pr)) \<and> beyond_tombstone (before @ prs) pr) prs)
    = live_records committed (map snd prs)"
  using assms
proof (induction prs arbitrary: before)
  case Nil
  then show ?case by simp
next
  case (Cons pr prs)
  have IH: "map snd (filter (\<lambda>x. uncommitted committed (wr_header (snd x)) \<and>
      beyond_tombstone (before @ pr # prs) x) prs) = live_records committed (map snd prs)"
    using Cons.IH[of "before @ [pr]"] Cons.prems by simp
  have lt: "\<forall>x \<in> set before. fst x < fst pr" "\<forall>x \<in> set prs. fst pr < fst x"
    using Cons.prems by (auto simp: sorted_wrt_append)
  let ?t = "wh_table (wr_header (snd pr))"
  have "\<forall>q \<in> set before. voids q ?t \<longrightarrow> fst q < fst pr" using lt(1) by blast
  moreover have "(\<forall>q \<in> set prs. voids q ?t \<longrightarrow> fst q < fst pr) \<longleftrightarrow> (\<forall>q \<in> set prs. \<not> voids q ?t)"
    using lt(2) by (meson order.asym)
  moreover have "(\<forall>q \<in> set prs. \<not> voids q ?t) \<longleftrightarrow>
      \<not> list_ex (\<lambda>r'. wh_op (wr_header r') = DropTable \<and> wh_table (wr_header r') = ?t) (map snd prs)"
    by (simp add: list_ex_iff)
  ultimately have "uncommitted committed (wr_header (snd pr)) \<Longrightarrow>
      beyond_tombstone (before @ pr # prs) pr \<longleftrightarrow>
      \<not> list_ex (\<lambda>r'. wh_op (wr_header r') = DropTable \<and> wh_table (wr_header r') = ?t) (map snd prs)"
    by (simp add: beyond_tombstone_iff[OF Cons.prems] ball_Un uncommitted_def)
  then show ?case using IH by auto
qed

lemma list_all2_filter:
  "list_all2 R xs ys \<Longrightarrow> (\<And>x y. R x y \<Longrightarrow> P x = Q y) \<Longrightarrow> list_all2 R (filter P xs) (filter Q ys)"
  by (induction rule: list_all2_induct) auto

lemma list_all2_insort:
  "list_all2 R xs ys \<Longrightarrow> R x y \<Longrightarrow> (\<And>x y. R x y \<Longrightarrow> f x = g y) \<Longrightarrow>
    list_all2 R (insort_key f x xs) (insort_key g y ys)"
  by (induction rule: list_all2_induct) auto

lemma list_all2_sort:
  "list_all2 R xs ys \<Longrightarrow> (\<And>x y. R x y \<Longrightarrow> f x = g y) \<Longrightarrow> list_all2 R (sort_key f xs) (sort_key g ys)"
  by (induction rule: list_all2_induct) (auto intro: list_all2_insort)

lemma map_sort_key: "map h (sort_key (\<lambda>x. f (h x)) xs) = sort_key f (map h xs)"
proof (induction xs)
  case (Cons x xs)
  have "map h (insort_key (\<lambda>x. f (h x)) x ys) = insort_key f (h x) (map h ys)" for ys
    by (induction ys) auto
  then show ?case using Cons by simp
qed simp

lemma sorted_wrt_filter_groups:
  "(\<And>k. sorted_wrt P (filter (\<lambda>x. f x = k) ys)) \<Longrightarrow> sorted_wrt (\<lambda>x y. f x = f y \<longrightarrow> P x y) ys"
proof (induction ys)
  case (Cons y ys)
  have "sorted_wrt P (filter (\<lambda>x. f x = k) ys)" for k
    using Cons.prems[of k] by (auto split: if_splits)
  moreover have "\<forall>x \<in> set ys. f y = f x \<longrightarrow> P y x"
    using Cons.prems[of "f y"] by auto
  ultimately show ?case using Cons.IH by simp
qed simp

text \<open>Sorting by a key refined with the (increasing) position is the stable sort by the key.\<close>

lemma sort_key_position:
  fixes f :: "'a \<Rightarrow> 'k::linorder" and pos :: "'a \<Rightarrow> 'p::linorder"
  assumes "sorted_wrt (<) (map pos xs)"
  shows "sort_key (\<lambda>x. (f x, pos x)) xs = sort_key f xs"
proof (rule sort_key_inj_key_eq)
  show "mset xs = mset (sort_key f xs)" by simp
  have "distinct (map pos xs)" using assms by (simp add: strict_sorted_iff)
  then show "inj_on (\<lambda>x. (f x, pos x)) (set xs)"
    by (auto simp: inj_on_def distinct_map)
  have "sorted_wrt (\<lambda>x y. pos x < pos y) (filter (\<lambda>x. f x = k) (sort_key f xs))" for k
  proof -
    have "sorted_wrt (\<lambda>x y. pos x < pos y) (filter (\<lambda>x. f x = k) xs)"
      using assms by (simp add: sorted_wrt_filter sorted_wrt_map)
    moreover have "filter (\<lambda>x. f x = k) (sort_key f xs) = filter (\<lambda>x. f x = k) xs"
      using sort_key_stable by blast
    ultimately show ?thesis by simp
  qed
  then have "sorted_wrt (\<lambda>x y. f x = f y \<longrightarrow> pos x < pos y) (sort_key f xs)"
    by (rule sorted_wrt_filter_groups)
  moreover have "sorted_wrt (\<lambda>x y. f x \<le> f y) (sort_key f xs)"
    using sorted_sort_key[of f xs] by (simp add: sorted_wrt_map)
  ultimately have "sorted_wrt (\<lambda>x y. f x \<le> f y \<and> (f x = f y \<longrightarrow> pos x < pos y)) (sort_key f xs)"
    by (simp add: sorted_wrt_iff_nth_less)
  then have "sorted_wrt (\<lambda>x y. (f x, pos x) \<le> (f y, pos y)) (sort_key f xs)"
    by (rule sorted_wrt_mono_rel[rotated]) (auto simp: less_eq_prod_def)
  then show "sorted (map (\<lambda>x. (f x, pos x)) (sort_key f xs))"
    by (simp add: sorted_wrt_map)
qed


section \<open>The segments of a root\<close>

definition data_of :: "wal_root \<Rightarrow> string \<Rightarrow> byte list" where
  "data_of root p = (case find_file root p of None \<Rightarrow> [] | Some f \<Rightarrow> wf_data f)"

definition seg_records ::
    "'b frame_codec \<Rightarrow> wal_root \<Rightarrow> string \<Rightarrow> (nat \<times> 'b WalRecord) list \<times> (nat \<times> string) option" where
  "seg_records c root p = records_from c (data_of root p) 0"

abbreviation seg_corrupt :: "'b frame_codec \<Rightarrow> wal_root \<Rightarrow> string \<Rightarrow> bool" where
  "seg_corrupt c root p \<equiv> snd (seg_records c root p) \<noteq> None"

fun log_from ::
    "'b frame_codec \<Rightarrow> wal_root \<Rightarrow> nat \<Rightarrow> string list \<Rightarrow> (frame_position \<times> 'b WalRecord) list" where
  "log_from c root seg [] = []"
| "log_from c root seg (p # ps) =
    numbered seg (fst (seg_records c root p)) @ log_from c root (Suc seg) ps"

definition log_records :: "'b frame_codec \<Rightarrow> wal_root \<Rightarrow> 'b WalRecord list" where
  "log_records c root = concat (map (\<lambda>p. map snd (fst (seg_records c root p))) (segment_paths root))"

lemma map_snd_numbered [simp]: "map snd (numbered seg rs) = map snd rs"
  by (auto simp: numbered_def)

lemma log_from_records:
  "map snd (log_from c root seg ps) = concat (map (\<lambda>p. map snd (fst (seg_records c root p))) ps)"
  by (induction ps arbitrary: seg) auto

lemma records_from_sorted:
  "sorted_wrt (<) (map fst (fst (records_from c data offset))) \<and>
    (\<forall>p \<in> set (fst (records_from c data offset)). offset \<le> fst p)"
proof (induction c data offset rule: records_from.induct)
  case (1 c data offset)
  show ?case
  proof (cases "\<exists>r n. offset < length data \<and> decode_frame c (drop offset data) = Complete r n")
    case True
    then obtain r n where rn: "offset < length data" "decode_frame c (drop offset data) = Complete r n"
      by blast
    from 1[OF this] decode_frame_consumed[OF rn(2)] rn show ?thesis
      by (subst (1 2) records_from.simps) (fastforce split: prod.splits)
  next
    case False
    then show ?thesis
      by (subst (1 2) records_from.simps) (auto split: FrameDecode.splits)
  qed
qed

lemma log_from_sorted:
  "sorted_wrt (<) (map fst (log_from c root seg ps)) \<and>
    (\<forall>pr \<in> set (log_from c root seg ps). seg \<le> fst (fst pr))"
proof (induction ps arbitrary: seg)
  case (Cons p ps)
  let ?A = "numbered seg (fst (seg_records c root p))" and ?B = "log_from c root (Suc seg) ps"
  have A: "sorted_wrt (<) (map fst ?A)"
    using records_from_sorted[of c "data_of root p" 0]
    by (auto simp: numbered_def seg_records_def sorted_wrt_map split_def less_prod_def)
  have seg: "fst (fst x) = seg" if "x \<in> set ?A" for x
    using that by (auto simp: numbered_def)
  have B: "sorted_wrt (<) (map fst ?B)" "\<And>y. y \<in> set ?B \<Longrightarrow> Suc seg \<le> fst (fst y)"
    using Cons[of "Suc seg"] by blast+
  have "fst x < fst y" if "x \<in> set ?A" "y \<in> set ?B" for x y
    using seg[OF that(1)] B(2)[OF that(2)] by (simp add: less_prod_def)
  then have "sorted_wrt (<) (map fst ?A @ map fst ?B)"
    unfolding sorted_wrt_append using A B(1) by simp
  moreover have "seg \<le> fst (fst x)" if "x \<in> set (?A @ ?B)" for x
    using that seg B(2) by (metis Suc_leD Un_iff le_refl set_append)
  ultimately show ?case by simp
qed simp

lemma log_from_member:
  "pr \<in> set (log_from c root seg ps) \<Longrightarrow>
    \<exists>i < length ps. fst (fst pr) = seg + i \<and>
      (snd (fst pr), snd pr) \<in> set (fst (seg_records c root (ps ! i)))"
proof (induction ps arbitrary: seg)
  case (Cons p ps)
  then show ?case
  proof (cases "pr \<in> set (numbered seg (fst (seg_records c root p)))")
    case True
    then show ?thesis by (auto simp: numbered_def intro!: exI[of _ 0])
  next
    case False
    then obtain i where "i < length ps" "fst (fst pr) = Suc seg + i"
      "(snd (fst pr), snd pr) \<in> set (fst (seg_records c root (ps ! i)))"
      using Cons by fastforce
    then show ?thesis by (intro exI[of _ "Suc i"]) auto
  qed
qed simp

lemma log_from_valid:
  "pr \<in> set (log_from c root seg ps) \<Longrightarrow> header_validate (wr_header (snd pr)) = Inr ()"
  using log_from_member[of pr] records_from_valid by (fastforce simp: seg_records_def)

subsection \<open>Files and renames\<close>

lemma find_file_Some: "find_file root p = Some f \<Longrightarrow> wf_name f = p \<and> f \<in> set root"
  by (induction root) (auto split: if_splits)

lemma find_file_iff: "(\<exists>f. find_file root p = Some f) \<longleftrightarrow> p \<in> wf_name ` set root"
  by (induction root) auto

lemma find_file_filter:
  "find_file (filter (\<lambda>f. wf_name f \<noteq> q) root) p = (if p = q then None else find_file root p)"
  by (induction root) auto

lemma find_file_rename:
  assumes "from \<noteq> to" "find_file root from = Some f"
  shows "find_file (rename_file root from to) q =
    (if q = to then Some (f\<lparr>wf_name := to\<rparr>) else if q = from then None else find_file root q)"
proof -
  have "find_file (map (\<lambda>f. if wf_name f = from then f\<lparr>wf_name := to\<rparr> else f) fs) q =
      (if q = to then map_option (\<lambda>f. f\<lparr>wf_name := to\<rparr>) (find_file fs from)
       else if q = from then None else find_file fs q)"
    if "\<forall>f \<in> set fs. wf_name f \<noteq> to" for fs
    using that assms(1) by (induction fs) auto
  then show ?thesis
    using assms by (simp add: rename_file_def find_file_filter)
qed

lemma wal_not_quarantine [simp]: "\<not> ends_with (quarantine_path p) ''.wal''"
  by (simp add: ends_with_def quarantine_path_def)

lemma quarantine_inj [simp]: "quarantine_path p = quarantine_path q \<longleftrightarrow> p = q"
  by (simp add: quarantine_path_def)

lemma quarantine_neq [simp]: "quarantine_path p \<noteq> p" "p \<noteq> quarantine_path p"
  by (simp_all add: quarantine_path_def)

lemma segment_paths_rename:
  "segment_paths (rename_file root p (quarantine_path p)) = filter (\<lambda>q. q \<noteq> p) (segment_paths root)"
proof -
  have "filter (\<lambda>n. ends_with n ''.wal'') (map wf_name (rename_file root p (quarantine_path p))) =
      filter (\<lambda>q. q \<noteq> p) (filter (\<lambda>n. ends_with n ''.wal'') (map wf_name root))"
    by (induction root) (auto simp: rename_file_def)
  then show ?thesis by (simp add: segment_paths_def filter_sort)
qed

lemma segment_paths_set:
  "set (segment_paths root) = {n \<in> wf_name ` set root. ends_with n ''.wal''}"
  by (auto simp: segment_paths_def)

lemma distinct_segment_paths: "distinct (map wf_name root) \<Longrightarrow> distinct (segment_paths root)"
  by (simp add: segment_paths_def)

subsection \<open>Pass one over all segments\<close>

definition snapshot_ok ::
    "'b frame_codec \<Rightarrow> wal_root \<Rightarrow> wal_root \<Rightarrow> string \<Rightarrow> SegmentSnapshot \<Rightarrow> bool" where
  "snapshot_ok c root root' p sn \<longleftrightarrow>
    si_path (sn_identity sn) = (if seg_corrupt c root p then quarantine_path p else p) \<and>
    sn_live sn = (\<not> seg_corrupt c root p) \<and>
    segment_identity root' (si_path (sn_identity sn)) = Inr (sn_identity sn) \<and>
    data_of root' (si_path (sn_identity sn)) = data_of root p \<and>
    (\<forall>x \<in> set (fst (seg_records c root p)). readable_at c (data_of root p) (sn_replay_len sn) x)"

lemma segment_identity_cong:
  "find_file root' p = find_file root p \<Longrightarrow> segment_identity root' p = segment_identity root p"
  by (simp add: segment_identity_def)

lemma seg_data_cong:
  "find_file root' p = find_file root p \<Longrightarrow> data_of root' p = data_of root p"
  by (simp add: data_of_def)

lemma snapshot_ok_frame:
  assumes "snapshot_ok c root root1 p sn"
    "find_file root' (si_path (sn_identity sn)) = find_file root1 (si_path (sn_identity sn))"
  shows "snapshot_ok c root root' p sn"
  using assms(1) unfolding snapshot_ok_def segment_identity_cong[OF assms(2)] seg_data_cong[OF assms(2)] .

fun first_corruption :: "'b frame_codec \<Rightarrow> wal_root \<Rightarrow> string list \<Rightarrow> string option" where
  "first_corruption c root [] = None"
| "first_corruption c root (p # ps) =
    (case snd (seg_records c root p) of Some (_, reason) \<Rightarrow> Some reason | None \<Rightarrow> first_corruption c root ps)"

lemma first_corruption_None: "first_corruption c root ps = None \<longleftrightarrow> (\<forall>p \<in> set ps. \<not> seg_corrupt c root p)"
  by (induction ps) (auto split: option.splits)

lemma seg_records_cong:
  "find_file root' p = find_file root p \<Longrightarrow> seg_records c root' p = seg_records c root p"
  by (simp add: seg_records_def data_of_def)

lemma log_from_cong:
  assumes "\<And>p. p \<in> set ps \<Longrightarrow> find_file root' p = find_file root p"
  shows "log_from c root' seg ps = log_from c root seg ps"
    and "first_corruption c root' ps = first_corruption c root ps"
    and "p \<in> set ps \<Longrightarrow> snapshot_ok c root' root2 p sn = snapshot_ok c root root2 p sn"
proof -
  have rec: "\<forall>p \<in> set ps. seg_records c root' p = seg_records c root p"
    using assms seg_records_cong by metis
  then show "log_from c root' seg ps = log_from c root seg ps"
    by (induction ps arbitrary: seg) auto
  show "first_corruption c root' ps = first_corruption c root ps"
    using rec by (induction ps) (auto split: option.splits)
  show "snapshot_ok c root' root2 p sn = snapshot_ok c root root2 p sn" if "p \<in> set ps"
    using bspec[OF rec that] seg_data_cong[OF assms[OF that]] by (simp add: snapshot_ok_def)
qed


text \<open>What pass one leaves behind for the segments \<open>ps\<close>.\<close>

definition pass_one ::
    "'b frame_codec \<Rightarrow> wal_root \<Rightarrow> string list \<Rightarrow> wal_root \<Rightarrow> SegmentSnapshot list \<Rightarrow> bool" where
  "pass_one c root ps root' snaps \<longleftrightarrow>
    list_all2 (snapshot_ok c root root') ps snaps \<and>
    (\<forall>q. q \<notin> set ps \<longrightarrow> (\<forall>p \<in> set ps. q \<noteq> quarantine_path p) \<longrightarrow> find_file root' q = find_file root q) \<and>
    segment_paths root' = filter (\<lambda>q. \<not> (q \<in> set ps \<and> seg_corrupt c root q)) (segment_paths root)"

lemma prep_segment_file:
  assumes "find_file root p = Some f"
  obtains rl where
    "prep_segment c committed seg (wf_data f) (length (wf_data f)) 0 st =
      Inr (fold (prep_step committed) (numbered seg (fst (seg_records c root p))) st, rl,
        map_option snd (snd (seg_records c root p)))"
    "\<forall>x \<in> set (fst (seg_records c root p)). readable_at c (data_of root p) rl x"
  using prep_segment_records[of 0 "wf_data f" c committed seg st] assms that
  by (auto simp: seg_records_def data_of_def)

lemma prep_segments_spec:
  assumes "distinct ps" "\<And>p. p \<in> set ps \<Longrightarrow> ends_with p ''.wal'' \<and> (\<exists>f. find_file root p = Some f)"
  shows "(case (mode, first_corruption c root ps) of
      (Fail, Some reason) \<Rightarrow> prep_segments c committed mode seg ps (root, snaps, st) = Inl (corrupt_error reason)
    | _ \<Rightarrow> \<exists>root' snaps'. pass_one c root ps root' snaps' \<and>
        prep_segments c committed mode seg ps (root, snaps, st) =
          Inr (root', snaps @ snaps', fold (prep_step committed) (log_from c root seg ps) st))"
  using assms
proof (induction ps arbitrary: seg root snaps st)
  case Nil
  then show ?case by (simp add: pass_one_def split: WalRecoveryMode.split)
next
  case (Cons p ps)
  obtain f where f: "find_file root p = Some f" using Cons.prems(2) by auto
  let ?id = "\<lparr>si_path = p, si_len = length (wf_data f), si_modified = wf_mtime f\<rparr>"
  let ?st = "fold (prep_step committed) (numbered seg (fst (seg_records c root p))) st"
  obtain rl where rl: "prep_segment c committed seg (wf_data f) (length (wf_data f)) 0 st =
      Inr (?st, rl, map_option snd (snd (seg_records c root p)))"
    "\<forall>x \<in> set (fst (seg_records c root p)). readable_at c (data_of root p) rl x"
    by (rule prep_segment_file[OF f])
  have io: "segment_identity root p = Inr ?id" "open_segment_file root p = Inr (wf_data f)"
    using f by (simp_all add: segment_identity_def open_segment_file_def)
  have wal: "ends_with q ''.wal''" if "q \<in> set (p # ps)" for q using Cons.prems(2) that by blast
  have noq: "q \<noteq> quarantine_path r" if "q \<in> set (p # ps)" for q r
    using wal[OF that] wal_not_quarantine by metis
  show ?case
  proof (cases "snd (seg_records c root p)")
    case None
    let ?sn = "\<lparr>sn_identity = ?id, sn_replay_len = rl, sn_live = True\<rparr>"
    have step: "prep_segments c committed mode seg (p # ps) (root, snaps, st) =
        prep_segments c committed mode (Suc seg) ps (root, snaps @ [?sn], ?st)"
      using io rl(1) None by simp
    have sn: "snapshot_ok c root root p ?sn"
      using None io(1) rl(2) by (simp add: snapshot_ok_def)
    have lift: "pass_one c root (p # ps) root' (?sn # snaps')" if P: "pass_one c root ps root' snaps'" for root' snaps'
    proof -
      have "find_file root' p = find_file root p"
        using P Cons.prems(1) noq[of p] by (auto simp: pass_one_def)
      then have "snapshot_ok c root root' p ?sn" by (intro snapshot_ok_frame[OF sn]) simp
      moreover have "(\<lambda>q. \<not> (q \<in> set (p # ps) \<and> seg_corrupt c root q)) = (\<lambda>q. \<not> (q \<in> set ps \<and> seg_corrupt c root q))"
        using None by auto
      moreover have "find_file root' q = find_file root q"
        if "q \<notin> set (p # ps)" "\<forall>r \<in> set (p # ps). q \<noteq> quarantine_path r" for q
        using P that by (auto simp: pass_one_def)
      ultimately show ?thesis
        using P by (simp add: pass_one_def del: list.set)
    qed
    have "case (mode, first_corruption c root ps) of
      (Fail, Some reason) \<Rightarrow> prep_segments c committed mode (Suc seg) ps (root, snaps @ [?sn], ?st) = Inl (corrupt_error reason)
    | _ \<Rightarrow> \<exists>root' snaps'. pass_one c root ps root' snaps' \<and>
        prep_segments c committed mode (Suc seg) ps (root, snaps @ [?sn], ?st) =
          Inr (root', (snaps @ [?sn]) @ snaps', fold (prep_step committed) (log_from c root (Suc seg) ps) ?st)"
      using Cons.IH[of root "Suc seg" "snaps @ [?sn]" ?st] Cons.prems by simp
    then show ?thesis
      unfolding step using None lift by (fastforce split: WalRecoveryMode.splits option.splits)
  next
    case (Some stop)
    obtain off reason where stop: "stop = (off, reason)" by (cases stop)
    show ?thesis
    proof (cases mode)
      case Fail
      then show ?thesis using io rl(1) Some stop by simp
    next
      case Salvage
      let ?q = "quarantine_path p"
      let ?root = "rename_file root p ?q"
      let ?sn = "\<lparr>sn_identity = ?id\<lparr>si_path := ?q\<rparr>, sn_replay_len = rl, sn_live = False\<rparr>"
      have step: "prep_segments c committed mode seg (p # ps) (root, snaps, st) =
          prep_segments c committed mode (Suc seg) ps (?root, snaps @ [?sn], ?st)"
        using io rl(1) Some stop Salvage by (simp add: Let_def)
      have find: "find_file ?root q = (if q = ?q then Some (f\<lparr>wf_name := ?q\<rparr>) else if q = p then None else find_file root q)" for q
        using find_file_rename[OF _ f, of ?q q] by simp
      have same: "find_file ?root q = find_file root q" if "q \<in> set ps" for q
        using that find[of q] noq[of q] Cons.prems(1) by auto
      have sn: "snapshot_ok c root ?root p ?sn"
        using Some rl(2) find[of ?q] f by (simp add: snapshot_ok_def segment_identity_def data_of_def)
      note cong = log_from_cong[where ps = ps and root' = ?root and root = root and c = c, OF same]
      have lift: "pass_one c root (p # ps) root' (?sn # snaps')" if P: "pass_one c ?root ps root' snaps'" for root' snaps'
      proof -
        have "?q \<notin> set ps" "\<forall>r \<in> set ps. ?q \<noteq> quarantine_path r"
          using noq[of ?q p] Cons.prems(1) by auto
        then have "find_file root' ?q = find_file ?root ?q"
          using P unfolding pass_one_def by blast
        then have "snapshot_ok c root root' p ?sn" by (intro snapshot_ok_frame[OF sn]) simp
        moreover have "list_all2 (snapshot_ok c root root') ps snaps'"
          using P cong(3) by (auto simp: pass_one_def list_all2_conv_all_nth)
        moreover have "find_file root' q = find_file root q"
          if "q \<notin> set (p # ps)" "\<forall>r \<in> set (p # ps). q \<noteq> quarantine_path r" for q
          using P that find[of q] by (auto simp: pass_one_def)
        moreover have "segment_paths root' = filter (\<lambda>q. \<not> (q \<in> set (p # ps) \<and> seg_corrupt c root q)) (segment_paths root)"
        proof -
          have "seg_records c ?root q = seg_records c root q" if "q \<in> set ps" for q
            by (rule seg_records_cong[OF same[OF that]])
          then have "filter (\<lambda>q. \<not> (q \<in> set ps \<and> seg_corrupt c ?root q)) (filter (\<lambda>q. q \<noteq> p) xs) =
              filter (\<lambda>q. \<not> (q \<in> set (p # ps) \<and> seg_corrupt c root q)) xs" for xs
            using Some stop by (auto simp del: not_None_eq intro!: filter_cong)
          then show ?thesis
            using P by (simp add: pass_one_def segment_paths_rename del: filter_filter not_None_eq)
        qed
        ultimately show ?thesis by (simp add: pass_one_def)
      qed
      have "\<And>q. q \<in> set ps \<Longrightarrow> ends_with q ''.wal'' \<and> (\<exists>f. find_file ?root q = Some f)"
        using Cons.prems(2) same by simp
      then obtain root' snaps' where "pass_one c ?root ps root' snaps'"
        "prep_segments c committed mode (Suc seg) ps (?root, snaps @ [?sn], ?st) =
          Inr (root', (snaps @ [?sn]) @ snaps', fold (prep_step committed) (log_from c ?root (Suc seg) ps) ?st)"
        using Cons.IH[of ?root "Suc seg" "snaps @ [?sn]" ?st] Cons.prems Salvage by auto
      then show ?thesis
        unfolding step using lift Salvage cong(1) by (auto intro!: exI)
    qed
  qed
qed

section \<open>Pass two returns the records of the plan\<close>

definition entry_readable ::
    "'b frame_codec \<Rightarrow> wal_root \<Rightarrow> ReplayPlan \<Rightarrow> ReplayEntry \<Rightarrow> 'b WalRecord \<Rightarrow> bool" where
  "entry_readable c root plan e r \<longleftrightarrow> (\<forall>fs. read_entry c root (plan\<lparr>rp_file_segment := fs\<rparr>) e = Inr r)"

lemma read_entry_cong:
  "rp_segments plan' = rp_segments plan \<Longrightarrow> rp_tables plan' = rp_tables plan \<Longrightarrow>
    read_entry c root plan' e = read_entry c root (plan\<lparr>rp_file_segment := rp_file_segment plan'\<rparr>) e"
  by (simp add: read_entry_def Let_def cong: if_cong)

lemma collect_loop_records:
  assumes "list_all2 (entry_readable c root plan0) (rp_entries plan0) rs"
    and "rp_segments plan = rp_segments plan0" "rp_tables plan = rp_tables plan0"
    "rp_entries plan = rp_entries plan0"
    and "rp_snapshot_checked plan \<or> verify_live_snapshot root plan = Inr ()"
    and "rp_entry_index plan \<le> length rs"
  shows "collect_loop c root plan acc = Inr (acc @ drop (rp_entry_index plan) rs)"
  using assms
proof (induction "length rs - rp_entry_index plan" arbitrary: plan acc rule: less_induct)
  case less
  let ?i = "rp_entry_index plan"
  have len: "length (rp_entries plan) = length rs"
    using less.prems(1,4) by (simp add: list_all2_lengthD)
  have chk: "(if rp_snapshot_checked plan then Inr () else verify_live_snapshot root plan) = Inr ()"
    using less.prems(5) by auto
  show ?case
  proof (cases "?i < length rs")
    case False
    then have "next_record c root plan = Inr (plan\<lparr>rp_snapshot_checked := True\<rparr>, None)"
      using chk len by (simp add: next_record_def)
    then show ?thesis
      using False by (subst collect_loop.simps) simp
  next
    case True
    have "entry_readable c root plan0 (rp_entries plan ! ?i) (rs ! ?i)"
      using less.prems(1,4) True len by (simp add: list_all2_conv_all_nth)
    then have "read_entry c root plan (rp_entries plan ! ?i) = Inr (rs ! ?i)"
      using read_entry_cong[OF less.prems(2,3), of c root "rp_entries plan ! ?i"] by (simp add: entry_readable_def)
    then obtain plan' where nxt: "next_record c root plan = Inr (plan', Some (rs ! ?i))"
      and p': "plan' = plan\<lparr>rp_snapshot_checked := True,
        rp_file_segment := Some (fst (re_position (rp_entries plan ! ?i))), rp_entry_index := Suc ?i,
        rp_peak_live_decoded_records := max (rp_peak_live_decoded_records plan) 1\<rparr>"
      using chk True len by (simp add: next_record_def Let_def)
    have "collect_loop c root plan' (acc @ [rs ! ?i]) = Inr ((acc @ [rs ! ?i]) @ drop (Suc ?i) rs)"
      using less.hyps[of plan' "acc @ [rs ! ?i]"] less.prems True by (simp add: p')
    moreover have "drop ?i rs = rs ! ?i # drop (Suc ?i) rs"
      using True by (simp add: Cons_nth_drop_Suc)
    ultimately show ?thesis
      by (subst collect_loop.simps) (simp add: nxt)
  qed
qed

lemma verify_identities_ok:
  "(\<And>i. i \<in> set is \<Longrightarrow> segment_identity root (si_path i) = Inr i) \<Longrightarrow> verify_identities root is = Inr ()"
  by (induction "is") (auto simp: verify_identity_def)

lemma filter_list_all2:
  "list_all2 R xs ys \<Longrightarrow> (\<And>x y. R x y \<Longrightarrow> P x = Q y) \<Longrightarrow> (\<And>x y. R x y \<Longrightarrow> P x \<Longrightarrow> f y = x) \<Longrightarrow>
    map f (filter Q ys) = filter P xs"
  by (induction rule: list_all2_induct) auto

lemma pass_one_verifies:
  assumes "pass_one c root (segment_paths root) root' snaps" "rp_segments plan = snaps"
  shows "verify_live_snapshot root' plan = Inr ()"
proof -
  let ?live = "map sn_identity (filter sn_live snaps)"
  have all: "list_all2 (snapshot_ok c root root') (segment_paths root) snaps"
    using assms(1) by (simp add: pass_one_def)
  have "map (si_path \<circ> sn_identity) (filter sn_live snaps) = filter (\<lambda>p. \<not> seg_corrupt c root p) (segment_paths root)"
    using all by (rule filter_list_all2) (auto simp: snapshot_ok_def)
  also have "\<dots> = segment_paths root'"
    using assms(1) by (auto simp: pass_one_def intro!: filter_cong)
  finally have paths: "segment_paths root' = map si_path ?live" by simp
  have "segment_identity root' (si_path i) = Inr i" if "i \<in> set ?live" for i
    using that all by (auto simp: snapshot_ok_def list_all2_conv_all_nth in_set_conv_nth)
  then have "verify_identities root' ?live = Inr ()"
    by (rule verify_identities_ok)
  moreover have "\<not> list_ex (\<lambda>(a, e). a \<noteq> si_path e) (zip (map si_path ?live) ?live)"
    by (auto simp: list_ex_iff in_set_zip)
  ultimately show ?thesis
    using assms(2) by (simp add: verify_live_snapshot_def paths Let_def)
qed

lemma pass_one_readable:
  assumes P: "pass_one c root ps root' snaps"
    and plan: "rp_segments plan = snaps" "rp_tables plan = tables"
    and pr: "pr \<in> set (log_from c root 0 ps)" "uncommitted committed (wr_header (snd pr))"
    and e: "describes tables e pr"
  shows "entry_readable c root' plan e (snd pr)"
proof -
  obtain i where i: "i < length ps" "fst (fst pr) = i"
    "(snd (fst pr), snd pr) \<in> set (fst (seg_records c root (ps ! i)))"
    using log_from_member[OF pr(1)] by auto
  have len: "length snaps = length ps" and sn: "snapshot_ok c root root' (ps ! i) (snaps ! i)"
    using P i(1) by (auto simp: pass_one_def list_all2_conv_all_nth)
  let ?sn = "snaps ! i"
  have id: "segment_identity root' (si_path (sn_identity ?sn)) = Inr (sn_identity ?sn)"
    and data: "data_of root' (si_path (sn_identity ?sn)) = data_of root (ps ! i)"
    and rd: "readable_at c (data_of root (ps ! i)) (sn_replay_len ?sn) (snd (fst pr), snd pr)"
    using sn i(3) by (auto simp: snapshot_ok_def)
  obtain f where f: "find_file root' (si_path (sn_identity ?sn)) = Some f"
    using id by (auto simp: segment_identity_def split: option.splits)
  have opened: "open_segment_file root' (si_path (sn_identity ?sn)) = Inr (data_of root (ps ! i))"
    using f data by (simp add: open_segment_file_def data_of_def)
  have ver: "verify_identity root' (sn_identity ?sn) = Inr ()"
    using id by (simp add: verify_identity_def)
  obtain n where "read_frame c (data_of root (ps ! i)) (snd (fst pr)) (sn_replay_len ?sn) = Inr (Complete (snd pr) n)"
    using readable_at_read[OF rd] by blast
  moreover have "matches_index (wr_header (snd pr)) e (tables ! re_table_index e) = Inr True"
    using e pr(2) header_table_key_valid[OF log_from_valid[OF pr(1)]]
    by (auto simp: matches_index_def describes_def uncommitted_def)
  ultimately show ?thesis
    using i len ver opened e plan
    by (simp add: entry_readable_def read_entry_def expect_complete_def describes_def Let_def)
qed


section \<open>Properties\<close>

lemma sort_key_order_cong:
  assumes "\<And>x y. f x \<le> f y \<longleftrightarrow> g x \<le> g y"
  shows "sort_key f xs = sort_key g xs"
proof (induction xs)
  case (Cons x xs)
  have "insort_key f x ys = insort_key g x ys" for ys
    by (induction ys) (auto simp: assms)
  then show ?case using Cons by simp
qed simp

lemma sort_entries:
  fixes prs :: "(frame_position \<times> 'b WalRecord) list"
  assumes "list_all2 (describes tables) es prs" "sorted_wrt (<) (map fst prs)"
  obtains prs' where "list_all2 (describes tables) (sort_key entry_key es) prs'" "set prs' = set prs"
    "map snd prs' = sort_key canonical_key (map snd prs)"
proof
  let ?key = "\<lambda>pr :: frame_position \<times> 'b WalRecord.
    (wh_generation (wr_header (snd pr)), wh_batch_id (wr_header (snd pr)), fst pr)"
  show "list_all2 (describes tables) (sort_key entry_key es) (sort_key ?key prs)"
    using assms(1) by (rule list_all2_sort) (auto simp: describes_def entry_key_def)
  show "set (sort_key ?key prs) = set prs" by simp
  have "sort_key ?key prs = sort_key (\<lambda>pr. (canonical_key (snd pr), fst pr)) prs"
    by (rule sort_key_order_cong) (auto simp: less_eq_prod_def less_prod_def canonical_key_def)
  also have "\<dots> = sort_key (\<lambda>pr. canonical_key (snd pr)) prs"
    by (rule sort_key_position[OF assms(2)])
  finally show "map snd (sort_key ?key prs) = sort_key canonical_key (map snd prs)"
    by (simp add: map_sort_key)
qed

lemma retain_entries_log:
  assumes "st = fold (prep_step committed) prs empty_prep"
    and "\<forall>pr \<in> set prs. header_validate (wr_header (snd pr)) = Inr ()"
  shows "list_all2 (describes (ps_tables st)) (retain_entries st)
    (filter (\<lambda>pr. uncommitted committed (wr_header (snd pr)) \<and> beyond_tombstone prs pr) prs)"
proof -
  have fp: "list_all2 (describes (ps_tables st)) (ps_entries st)
      (filter (\<lambda>pr. uncommitted committed (wr_header (snd pr))) prs)"
    "ps_latest_tombstones st = tombstones prs"
    using fold_prep[OF assms(2), of committed] assms(1) by simp_all
  have "list_all2 (describes (ps_tables st)) (retain_entries st)
      (filter (beyond_tombstone prs) (filter (\<lambda>pr. uncommitted committed (wr_header (snd pr))) prs))"
    unfolding retain_entries_def using fp(1)
    by (rule list_all2_filter)
      (simp add: describes_def beyond_tombstone_def fp(2) WalTableKey_new_def split: option.splits)
  then show ?thesis by simp
qed

lemma replay_spec:
  assumes "distinct (map wf_name root)"
  shows "replay c committed mode root =
    (case (mode, first_corruption c root (segment_paths root)) of
       (Fail, Some reason) \<Rightarrow> Inl (corrupt_error reason)
     | _ \<Rightarrow> Inr (sort_key canonical_key (live_records committed (log_records c root))))"
proof -
  let ?ps = "segment_paths root" and ?prs = "log_from c root 0 (segment_paths root)"
  define st where st: "st = fold (prep_step committed) ?prs empty_prep"
  have "\<And>p. p \<in> set ?ps \<Longrightarrow> ends_with p ''.wal'' \<and> (\<exists>f. find_file root p = Some f)"
    by (simp add: segment_paths_set find_file_iff)
  note spec = prep_segments_spec[OF distinct_segment_paths[OF assms] this,
      where mode = mode and c = c and committed = committed and seg = 0 and snaps = "[]" and st = empty_prep, folded st]
  have ok: "replay c committed mode root = Inr (sort_key canonical_key (live_records committed (log_records c root)))"
    if P: "pass_one c root ?ps root' snaps"
      and run: "prep_segments c committed mode 0 ?ps (root, [], empty_prep) = Inr (root', snaps, st)" for root' snaps
  proof -
    let ?live = "filter (\<lambda>pr. uncommitted committed (wr_header (snd pr)) \<and> beyond_tombstone ?prs pr) ?prs"
    define plan where plan: "plan = \<lparr>rp_segments = snaps, rp_entries = sort_key entry_key (retain_entries st),
      rp_tables = ps_tables st,
      rp_table_keys = set (map (\<lambda>e. ps_tables st ! re_table_index e) (sort_key entry_key (retain_entries st))),
      rp_entry_index = 0, rp_file_segment = None, rp_snapshot_checked = False, rp_peak_live_decoded_records = 0\<rparr>"
    have es: "list_all2 (describes (ps_tables st)) (retain_entries st) ?live"
      by (rule retain_entries_log[OF st]) (auto dest: log_from_valid)
    have sorted: "sorted_wrt (<) (map fst ?live)"
      using log_from_sorted[of c root 0 ?ps] by (simp add: sorted_wrt_map sorted_wrt_filter)
    obtain prs' where "list_all2 (describes (ps_tables st)) (sort_key entry_key (retain_entries st)) prs'"
      and same: "set prs' = set ?live" and ordered: "map snd prs' = sort_key canonical_key (map snd ?live)"
      by (rule sort_entries[OF es sorted])
    then have desc: "list_all2 (describes (ps_tables st)) (rp_entries plan) prs'"
      by (simp add: plan)
    have "map snd ?live = live_records committed (log_records c root)"
      using live_records_filter[of "[]" ?prs committed] log_from_sorted[of c root 0 ?ps]
      by (simp add: log_from_records log_records_def)
    moreover have "list_all2 (entry_readable c root' plan) (rp_entries plan) (map snd prs')"
    proof -
      have "entry_readable c root' plan e (snd pr)" if "pr \<in> set prs'" "describes (ps_tables st) e pr" for e pr
        using that same by (intro pass_one_readable[OF P, of plan "ps_tables st" pr committed e]) (auto simp: plan)
      then have "list_all2 (\<lambda>e pr. entry_readable c root' plan e (snd pr)) (rp_entries plan) prs'"
        by (intro list.rel_mono_strong[OF desc])
      then show ?thesis by (simp add: list_all2_map2)
    qed
    then have "collect c root' plan = Inr (map snd prs')"
      using collect_loop_records[of c root' plan "map snd prs'" plan "[]"] pass_one_verifies[OF P, of plan] plan
      by (simp add: collect_def)
    moreover have "prepare c committed mode root = Inr (root', plan)"
      by (simp add: prepare_def run plan Let_def)
    ultimately show ?thesis
      using ordered by (simp add: replay_def)
  qed
  show ?thesis
  proof (cases "mode = Fail \<and> first_corruption c root ?ps \<noteq> None")
    case True
    then show ?thesis using spec by (auto simp: replay_def prepare_def)
  next
    case False
    then obtain root' snaps where "pass_one c root ?ps root' snaps"
      "prep_segments c committed mode 0 ?ps (root, [], empty_prep) = Inr (root', snaps, st)"
      using spec by (auto split: WalRecoveryMode.splits option.splits)
    from ok[OF this] False show ?thesis
      by (auto split: WalRecoveryMode.splits option.splits)
  qed
qed


text \<open>Property C1. Replay is exact and fails closed. In \<open>fail\<close> mode a corrupt frame in any
  segment makes the replay return the error of the first one. Otherwise (no corruption, or
  \<open>salvage\<close> mode, where corrupt segments are quarantined and contribute their validated prefix)
  the replay returns every append that is not covered by the committed generation of its table
  incarnation and has no later tombstone of its table, in \<open>(generation, batch_id)\<close> order with ties
  in append order, and nothing else.\<close>

theorem replay_exact:
  assumes "distinct (map wf_name root)"
  shows "replay c committed mode root =
    (case (mode, first_corruption c root (segment_paths root)) of
       (Fail, Some reason) \<Rightarrow> Inl (corrupt_error reason)
     | _ \<Rightarrow> Inr (sort_key canonical_key (live_records committed (log_records c root))))"
  using assms by (rule replay_spec)

text \<open>Property C22. The streaming reader of the replay and the in-memory decoder agree: reading a
  frame at an offset of a file, up to a limit inside the file, never fails and yields what
  \<open>decode_frame\<close> yields on the bytes from the offset to the limit.\<close>

theorem read_frame_is_decode_frame:
  assumes "offset \<le> limit" "limit \<le> length file"
  shows "read_frame c file offset limit = Inr (decode_frame c (take (limit - offset) (drop offset file)))"
  using assms by (rule read_frame_eq_decode)

subsection \<open>Witnesses\<close>

definition demo_root :: wal_root where
  "demo_root = [\<lparr>wf_name = ''1.wal'', wf_data = segment_of demo_codec [demo_record], wf_mtime = 0\<rparr>]"

lemma demo_log:
  "segment_paths demo_root = [''1.wal'']"
  "seg_records demo_codec demo_root ''1.wal'' = ([(0, demo_record)], None)"
  "uncommitted (\<lambda>_. None) (wr_header demo_record)"
proof -
  show paths: "segment_paths demo_root = [''1.wal'']"
    by (simp add: segment_paths_def demo_root_def ends_with_def)
  have "records_from demo_codec (segment_of demo_codec [demo_record]) 0 = ([(0, demo_record)], None)"
    using records_from_segment[of demo_codec "[demo_record]" 0] demo_writable by simp
  then show "seg_records demo_codec demo_root ''1.wal'' = ([(0, demo_record)], None)"
    by (simp add: seg_records_def data_of_def demo_root_def)
  show "uncommitted (\<lambda>_. None) (wr_header demo_record)"
    by (simp add: uncommitted_def is_committed_def demo_record_def demo_header_def)
qed

theorem replay_exact_witness:
  "replay demo_codec (\<lambda>_. None) Fail demo_root = Inr [demo_record]"
proof -
  have "distinct (map wf_name demo_root)" by (simp add: demo_root_def)
  from replay_exact[OF this, of demo_codec "\<lambda>_. None" Fail] show ?thesis
    by (simp add: demo_log log_records_def)
qed

theorem read_frame_is_decode_frame_witness:
  "read_frame demo_codec [0, 0, 0, 0, 0, 0, 0, 0, 0] 0 9 = Inr Incomplete"
proof -
  have "decode_frame demo_codec (replicate 9 0) = Incomplete" by (rule decode_zeros)
  then show ?thesis
    using read_frame_is_decode_frame[of 0 9 "[0, 0, 0, 0, 0, 0, 0, 0, 0]" demo_codec]
    by (simp add: numeral_eq_Suc)
qed

end
