(* ===== verification/Wal_Gc.thy ===== *)
theory Wal_Gc
  imports Wal_Replay_Sound
begin

text \<open>
  Garbage collection of write-ahead-log segments, \<open>teodb-storage/src/wal/gc.rs\<close>. The outcomes
  of reading and of removing a file are the oracles \<open>read_ok\<close> and \<open>remove_ok\<close>, so every theorem
  covers runs in which any of these operations fails. The main result is that a collection never
  changes what a replay returns.
\<close>

section \<open>Model\<close>

record ScannedSegment =
  sg_path :: string
  sg_scan :: SegmentScan
  sg_voided :: "bool list"

text \<open>The published sequence number is the open segment's number plus one, or 0.\<close>

definition open_seq :: "nat \<Rightarrow> nat option" where
  "open_seq current_seq = (if current_seq = 0 then None else Some (current_seq - 1))"

fun candidate_entries :: "nat option \<Rightarrow> wal_root \<Rightarrow> (nat \<times> string) list" where
  "candidate_entries cur [] = []"
| "candidate_entries cur (f # fs) =
    (case parse_seq (wf_name f) of
       None \<Rightarrow> candidate_entries cur fs
     | Some sequence \<Rightarrow>
         if cur \<noteq> Some sequence then (sequence, wf_name f) # candidate_entries cur fs
         else candidate_entries cur fs)"

definition candidate_segments :: "nat \<Rightarrow> wal_root \<Rightarrow> (nat \<times> string) list" where
  "candidate_segments current_seq root = sort_key fst (candidate_entries (open_seq current_seq) root)"

fun scan_readable_prefix ::
    "'b frame_codec \<Rightarrow> (string \<Rightarrow> bool) \<Rightarrow> wal_root \<Rightarrow> (nat \<times> string) list \<Rightarrow> ScannedSegment list" where
  "scan_readable_prefix c read_ok root [] = []"
| "scan_readable_prefix c read_ok root ((_, path) # cs) =
    (case bind_r (if read_ok path then open_segment_file root path else Inl (wal ''read segment''))
        (scan_segment c) of
       Inl _ \<Rightarrow> []
     | Inr scan \<Rightarrow>
         \<lparr>sg_path = path, sg_scan = scan, sg_voided = replicate (length (ss_frames scan)) False\<rparr>
           # scan_readable_prefix c read_ok root cs)"

text \<open>Both loops of \<open>mark_voided_frames\<close> run from the end; \<open>T\<close> is the set of tombstoned tables.\<close>

fun mark_frames :: "ScanFrame list \<Rightarrow> TableIdent set \<Rightarrow> bool list \<times> TableIdent set" where
  "mark_frames [] T = ([], T)"
| "mark_frames (f # fs) T =
    (let (voided, T') = mark_frames fs T in
     case f of
       ScanAppend key _ \<Rightarrow> ((wk_ident key \<in> T') # voided, T')
     | ScanDropTable table \<Rightarrow> (False # voided, insert table T'))"

fun mark_voided_frames :: "ScannedSegment list \<Rightarrow> ScannedSegment list \<times> TableIdent set" where
  "mark_voided_frames [] = ([], {})"
| "mark_voided_frames (s # ss) =
    (let (ss', T) = mark_voided_frames ss;
         (voided, T') = mark_frames (ss_frames (sg_scan s)) T
     in (s\<lparr>sg_voided := voided\<rparr> # ss', T'))"

definition frame_dead ::
    "(WalTableKey \<rightharpoonup> generation) \<Rightarrow> TableIdent set \<Rightarrow> ScanFrame \<times> bool \<Rightarrow> bool" where
  "frame_dead committed retained_tables fv =
    (case fst fv of
       ScanAppend key generation \<Rightarrow> snd fv \<or> is_committed committed key generation
     | ScanDropTable table \<Rightarrow> table \<notin> retained_tables)"

definition is_deletable ::
    "(WalTableKey \<rightharpoonup> generation) \<Rightarrow> TableIdent set \<Rightarrow> ScannedSegment \<Rightarrow> bool" where
  "is_deletable committed retained_tables s \<longleftrightarrow>
    \<not> ss_corrupt (sg_scan s) \<and> ss_frames (sg_scan s) \<noteq> [] \<and>
    list_all (frame_dead committed retained_tables) (zip (ss_frames (sg_scan s)) (sg_voided s))"

fun retain_tables :: "ScanFrame list \<Rightarrow> TableIdent set \<Rightarrow> TableIdent set" where
  "retain_tables [] T = T"
| "retain_tables (ScanAppend key _ # fs) T = retain_tables fs (insert (wk_ident key) T)"
| "retain_tables (ScanDropTable _ # fs) T = retain_tables fs T"

definition remove_file :: "wal_root \<Rightarrow> string \<Rightarrow> wal_root" where
  "remove_file root path = filter (\<lambda>f. wf_name f \<noteq> path) root"

fun delete_dead_segments ::
    "(WalTableKey \<rightharpoonup> generation) \<Rightarrow> (string \<Rightarrow> bool) \<Rightarrow> ScannedSegment list \<Rightarrow> TableIdent set
      \<Rightarrow> wal_root \<times> nat \<Rightarrow> wal_root \<times> nat" where
  "delete_dead_segments committed remove_ok [] retained (root, deleted) = (root, deleted)"
| "delete_dead_segments committed remove_ok (s # ss) retained (root, deleted) =
    (if is_deletable committed retained s \<and> remove_ok (sg_path s)
     then delete_dead_segments committed remove_ok ss retained (remove_file root (sg_path s), deleted + 1)
     else delete_dead_segments committed remove_ok ss
       (retain_tables (ss_frames (sg_scan s)) retained) (root, deleted))"

definition collect_garbage ::
    "'b frame_codec \<Rightarrow> (WalTableKey \<rightharpoonup> generation) \<Rightarrow> nat \<Rightarrow> (string \<Rightarrow> bool) \<Rightarrow> (string \<Rightarrow> bool)
      \<Rightarrow> wal_root \<Rightarrow> wal_root \<times> nat" where
  "collect_garbage c committed current_seq read_ok remove_ok root =
    (let candidates = candidate_segments current_seq root;
         segments = fst (mark_voided_frames (scan_readable_prefix c read_ok root candidates))
     in delete_dead_segments committed remove_ok segments {} (root, 0))"

section \<open>Tombstones and liveness\<close>

definition has_tomb :: "'b WalRecord list \<Rightarrow> TableIdent \<Rightarrow> bool" where
  "has_tomb rs t \<longleftrightarrow> list_ex (\<lambda>r. wh_op (wr_header r) = DropTable \<and> wh_table (wr_header r) = t) rs"

lemma has_tomb_simps [simp]:
  "has_tomb [] t = False"
  "has_tomb (r # rs) t \<longleftrightarrow> wh_op (wr_header r) = DropTable \<and> wh_table (wr_header r) = t \<or> has_tomb rs t"
  "has_tomb (rs @ rs') t \<longleftrightarrow> has_tomb rs t \<or> has_tomb rs' t"
  by (auto simp: has_tomb_def)

lemma live_records_Cons_tomb:
  "live_records committed (r # rs) =
    (if uncommitted committed (wr_header r) \<and> \<not> has_tomb rs (wh_table (wr_header r))
     then r # live_records committed rs else live_records committed rs)"
  by (simp add: has_tomb_def)

declare live_records.simps(2) [simp del]
declare live_records_Cons_tomb [simp]

definition append_tables :: "'b WalRecord list \<Rightarrow> TableIdent set" where
  "append_tables rs = {wh_table (wr_header r) | r. r \<in> set rs \<and> wh_op (wr_header r) = Append}"

lemma live_append_cong:
  assumes "live_records committed X' = live_records committed X"
    and "\<And>t. t \<in> append_tables rs \<Longrightarrow> has_tomb X' t \<longleftrightarrow> has_tomb X t"
  shows "live_records committed (rs @ X') = live_records committed (rs @ X)"
  using assms(2)
proof (induction rs)
  case (Cons r rs)
  then show ?case
    by (auto simp: append_tables_def uncommitted_def)
qed (simp add: assms(1))

lemma live_append_dead:
  assumes "\<And>i. i < length rs \<Longrightarrow> wh_op (wr_header (rs ! i)) = Append \<Longrightarrow>
      \<not> uncommitted committed (wr_header (rs ! i)) \<or>
      has_tomb (drop (Suc i) rs @ X) (wh_table (wr_header (rs ! i)))"
  shows "live_records committed (rs @ X) = live_records committed X"
  using assms
proof (induction rs)
  case (Cons r rs)
  have "live_records committed (rs @ X) = live_records committed X"
    using Cons.prems[of "Suc i" for i] by (intro Cons.IH) fastforce
  then show ?case
    using Cons.prems[of 0] by (auto simp: uncommitted_def)
qed simp


section \<open>The collection as a filter over segments\<close>

text \<open>A scanned segment is represented by its path, its records and its corruption flag.\<close>

type_synonym 'b seg_view = "string \<times> 'b WalRecord list \<times> bool"

abbreviation sv_records :: "'b seg_view \<Rightarrow> 'b WalRecord list" where
  "sv_records s \<equiv> fst (snd s)"

definition frames_of :: "'b WalRecord list \<Rightarrow> ScanFrame list" where
  "frames_of rs = map (scan_of \<circ> wr_header) rs"

definition scanned_of :: "'b seg_view \<Rightarrow> ScannedSegment" where
  "scanned_of s = \<lparr>sg_path = fst s, sg_scan = \<lparr>ss_frames = frames_of (sv_records s), ss_corrupt = snd (snd s)\<rparr>,
    sg_voided = replicate (length (sv_records s)) False\<rparr>"

lemma scanned_of_simps [simp]:
  "sg_path (scanned_of s) = fst s" "ss_frames (sg_scan (scanned_of s)) = frames_of (sv_records s)"
  "ss_corrupt (sg_scan (scanned_of s)) = snd (snd s)"
  by (simp_all add: scanned_of_def)

abbreviation valid_records :: "'b WalRecord list \<Rightarrow> bool" where
  "valid_records rs \<equiv> \<forall>r \<in> set rs. header_validate (wr_header r) = Inr ()"

lemma scan_of_Append:
  "header_validate h = Inr () \<Longrightarrow> wh_op h = Append \<Longrightarrow>
    scan_of h = ScanAppend (WalTableKey_new (the (wh_table_uuid h)) (wh_table h)) (wh_generation h)"
  by (auto simp: scan_of_def header_validate_ok)

lemma scan_of_DropTable: "wh_op h = DropTable \<Longrightarrow> scan_of h = ScanDropTable (wh_table h)"
  by (simp add: scan_of_def)

lemma mark_frames_spec:
  "valid_records rs \<Longrightarrow> \<exists>vs. mark_frames (frames_of rs) T = (vs, T \<union> {t. has_tomb rs t}) \<and>
    length vs = length rs \<and>
    (\<forall>i < length rs. wh_op (wr_header (rs ! i)) = Append \<longrightarrow>
      vs ! i = (wh_table (wr_header (rs ! i)) \<in> T \<or> has_tomb (drop (Suc i) rs) (wh_table (wr_header (rs ! i)))))"
proof (induction rs)
  case Nil
  then show ?case by (simp add: frames_of_def)
next
  case (Cons r rs)
  then obtain vs where vs: "mark_frames (frames_of rs) T = (vs, T \<union> {t. has_tomb rs t})"
    "length vs = length rs"
    "\<forall>i < length rs. wh_op (wr_header (rs ! i)) = Append \<longrightarrow>
      vs ! i = (wh_table (wr_header (rs ! i)) \<in> T \<or> has_tomb (drop (Suc i) rs) (wh_table (wr_header (rs ! i))))"
    by auto
  show ?case
  proof (cases "wh_op (wr_header r)")
    case Append
    then have "scan_of (wr_header r) = ScanAppend (WalTableKey_new (the (wh_table_uuid (wr_header r)))
        (wh_table (wr_header r))) (wh_generation (wr_header r))"
      using Cons.prems by (intro scan_of_Append) auto
    then show ?thesis
      using vs Append by (auto simp: frames_of_def WalTableKey_new_def nth_Cons split: nat.splits)
  next
    case DropTable
    then show ?thesis
      using vs by (auto simp: frames_of_def scan_of_DropTable nth_Cons split: nat.splits)
  qed
qed

definition deletable ::
    "(WalTableKey \<rightharpoonup> generation) \<Rightarrow> TableIdent set \<Rightarrow> 'b seg_view \<Rightarrow> 'b WalRecord list \<Rightarrow> bool" where
  "deletable committed retained s later \<longleftrightarrow> \<not> snd (snd s) \<and> sv_records s \<noteq> [] \<and>
    (\<forall>i < length (sv_records s). let r = sv_records s ! i in
      (case wh_op (wr_header r) of
         Append \<Rightarrow> \<not> uncommitted committed (wr_header r) \<or>
           has_tomb (drop (Suc i) (sv_records s) @ later) (wh_table (wr_header r))
       | DropTable \<Rightarrow> wh_table (wr_header r) \<notin> retained))"

fun gc_keep ::
    "(WalTableKey \<rightharpoonup> generation) \<Rightarrow> (string \<Rightarrow> bool) \<Rightarrow> 'b seg_view list \<Rightarrow> TableIdent set \<Rightarrow> 'b seg_view list" where
  "gc_keep committed remove_ok [] retained = []"
| "gc_keep committed remove_ok (s # ss) retained =
    (if deletable committed retained s (concat (map sv_records ss)) \<and> remove_ok (fst s)
     then gc_keep committed remove_ok ss retained
     else s # gc_keep committed remove_ok ss (retained \<union> append_tables (sv_records s)))"

lemma gc_keep_subset: "set (gc_keep committed remove_ok ss retained) \<subseteq> set ss"
  by (induction ss arbitrary: retained) auto

lemma gc_keep_corrupt: "s \<in> set ss \<Longrightarrow> s \<notin> set (gc_keep committed remove_ok ss retained) \<Longrightarrow> \<not> snd (snd s)"
  by (induction ss arbitrary: retained) (auto simp: deletable_def split: if_splits)

text \<open>Deleting dead segments changes neither the live records nor the tombstones that a retained
  table still needs.\<close>

lemma gc_keep_live:
  "live_records committed (concat (map sv_records (gc_keep committed remove_ok ss retained)) @ rest) =
      live_records committed (concat (map sv_records ss) @ rest) \<and>
    (\<forall>t \<in> retained. has_tomb (concat (map sv_records (gc_keep committed remove_ok ss retained)) @ rest) t \<longleftrightarrow>
      has_tomb (concat (map sv_records ss) @ rest) t)"
proof (induction ss arbitrary: retained)
  case (Cons s ss)
  let ?X = "concat (map sv_records ss) @ rest"
  show ?case
  proof (cases "deletable committed retained s (concat (map sv_records ss)) \<and> remove_ok (fst s)")
    case True
    then have dead: "deletable committed retained s (concat (map sv_records ss))" by simp
    have "live_records committed (sv_records s @ ?X) = live_records committed ?X"
      by (rule live_append_dead) (use dead in \<open>auto simp: deletable_def Let_def split: WalOp.splits\<close>)
    moreover have "\<not> has_tomb (sv_records s) t" if "t \<in> retained" for t
      using dead that
      by (auto simp: deletable_def has_tomb_def list_ex_iff in_set_conv_nth Let_def split: WalOp.splits)
    ultimately show ?thesis
      using True Cons[of retained] by simp
  next
    case False
    let ?ret = "retained \<union> append_tables (sv_records s)"
    let ?X' = "concat (map sv_records (gc_keep committed remove_ok ss ?ret)) @ rest"
    note IH = Cons[of ?ret]
    have "live_records committed (sv_records s @ ?X') = live_records committed (sv_records s @ ?X)"
      by (rule live_append_cong) (use IH in auto)
    then show ?thesis
      using False IH by auto
  qed
qed simp

section \<open>The code computes the filter\<close>

lemma mark_voided_spec:
  assumes "\<forall>s \<in> set ss. valid_records (sv_records s)"
  shows "\<exists>ms. mark_voided_frames (map scanned_of ss) = (ms, {t. has_tomb (concat (map sv_records ss)) t}) \<and>
    length ms = length ss \<and>
    (\<forall>i < length ss. sg_path (ms ! i) = fst (ss ! i) \<and> sg_scan (ms ! i) = sg_scan (scanned_of (ss ! i)) \<and>
      sg_voided (ms ! i) =
        fst (mark_frames (frames_of (sv_records (ss ! i))) {t. has_tomb (concat (map sv_records (drop (Suc i) ss))) t}))"
  using assms
proof (induction ss)
  case (Cons s ss)
  then obtain ms where ms: "mark_voided_frames (map scanned_of ss) = (ms, {t. has_tomb (concat (map sv_records ss)) t})"
    "length ms = length ss"
    "\<forall>i < length ss. sg_path (ms ! i) = fst (ss ! i) \<and> sg_scan (ms ! i) = sg_scan (scanned_of (ss ! i)) \<and>
      sg_voided (ms ! i) =
        fst (mark_frames (frames_of (sv_records (ss ! i))) {t. has_tomb (concat (map sv_records (drop (Suc i) ss))) t})"
    by auto
  let ?T = "{t. has_tomb (concat (map sv_records ss)) t}"
  have "valid_records (sv_records s)" using Cons.prems by simp
  from mark_frames_spec[OF this, of ?T] obtain vs where
    "mark_frames (frames_of (sv_records s)) ?T = (vs, ?T \<union> {t. has_tomb (sv_records s) t})" by blast
  then show ?case
    using ms
    by (intro exI[of _ "(scanned_of s)\<lparr>sg_voided := vs\<rparr> # ms"]) (auto simp: nth_Cons split: nat.splits)
qed simp

lemma is_deletable_iff:
  assumes "valid_records (sv_records s)" "sg_scan m = sg_scan (scanned_of s)"
    and "sg_voided m = fst (mark_frames (frames_of (sv_records s)) {t. has_tomb later t})"
  shows "is_deletable committed retained m \<longleftrightarrow> deletable committed retained s later"
proof -
  let ?rs = "sv_records s"
  obtain vs where vs: "mark_frames (frames_of ?rs) {t. has_tomb later t} = (vs, {t. has_tomb later t} \<union> {t. has_tomb ?rs t})"
    "length vs = length ?rs"
    "\<forall>i < length ?rs. wh_op (wr_header (?rs ! i)) = Append \<longrightarrow>
      vs ! i = (wh_table (wr_header (?rs ! i)) \<in> {t. has_tomb later t} \<or>
        has_tomb (drop (Suc i) ?rs) (wh_table (wr_header (?rs ! i))))"
    using mark_frames_spec[OF assms(1)] by blast
  have "frame_dead committed retained (frames_of ?rs ! i, vs ! i) \<longleftrightarrow>
      (case wh_op (wr_header (?rs ! i)) of
         Append \<Rightarrow> \<not> uncommitted committed (wr_header (?rs ! i)) \<or>
           has_tomb (drop (Suc i) ?rs @ later) (wh_table (wr_header (?rs ! i)))
       | DropTable \<Rightarrow> wh_table (wr_header (?rs ! i)) \<notin> retained)" if i: "i < length ?rs" for i
  proof (cases "wh_op (wr_header (?rs ! i))")
    case Append
    have "scan_of (wr_header (?rs ! i)) = ScanAppend (WalTableKey_new (the (wh_table_uuid (wr_header (?rs ! i))))
        (wh_table (wr_header (?rs ! i)))) (wh_generation (wr_header (?rs ! i)))"
      using i assms(1) Append by (intro scan_of_Append) auto
    then show ?thesis
      using i vs(3) Append by (auto simp: frame_dead_def frames_of_def uncommitted_def)
  next
    case DropTable
    then show ?thesis
      using i by (simp add: frame_dead_def frames_of_def scan_of_DropTable)
  qed
  moreover have "length (frames_of ?rs) = length ?rs" by (simp add: frames_of_def)
  ultimately show ?thesis
    using assms(2,3) vs(1,2)
    by (auto simp: is_deletable_def deletable_def scanned_of_def list_all_length Let_def frames_of_def)
qed

lemma retain_tables_spec:
  "valid_records rs \<Longrightarrow> retain_tables (frames_of rs) T = T \<union> append_tables rs"
proof (induction rs arbitrary: T)
  case (Cons r rs)
  then show ?case
    by (cases "wh_op (wr_header r)")
      (auto simp: frames_of_def scan_of_Append scan_of_DropTable append_tables_def WalTableKey_new_def)
qed (simp add: frames_of_def append_tables_def)

definition remove_files :: "string set \<Rightarrow> wal_root \<Rightarrow> wal_root" where
  "remove_files ps root = filter (\<lambda>f. wf_name f \<notin> ps) root"

lemma remove_files_insert:
  "a \<notin> K \<Longrightarrow> remove_files (S - K) (remove_file root a) = remove_files (insert a S - K) root"
  unfolding remove_files_def remove_file_def filter_filter by (rule filter_cong) auto

lemma delete_dead_spec:
  assumes "\<forall>s \<in> set ss. valid_records (sv_records s)" "distinct (map fst ss)" "length ms = length ss"
    and "\<forall>i < length ss. sg_path (ms ! i) = fst (ss ! i) \<and> sg_scan (ms ! i) = sg_scan (scanned_of (ss ! i)) \<and>
      sg_voided (ms ! i) =
        fst (mark_frames (frames_of (sv_records (ss ! i))) {t. has_tomb (concat (map sv_records (drop (Suc i) ss))) t})"
  shows "fst (delete_dead_segments committed remove_ok ms retained (root, n)) =
    remove_files (fst ` set ss - fst ` set (gc_keep committed remove_ok ss retained)) root"
  using assms
proof (induction ss arbitrary: ms retained root n)
  case Nil
  then show ?case by (simp add: remove_files_def)
next
  case (Cons s ss)
  obtain m ms' where ms: "ms = m # ms'" using Cons.prems(3) by (cases ms) auto
  have m: "sg_path m = fst s" "sg_scan m = sg_scan (scanned_of s)"
    "sg_voided m = fst (mark_frames (frames_of (sv_records s)) {t. has_tomb (concat (map sv_records ss)) t})"
    using Cons.prems(4) ms by (auto dest: spec[of _ 0])
  have tail: "\<forall>i < length ss. sg_path (ms' ! i) = fst (ss ! i) \<and> sg_scan (ms' ! i) = sg_scan (scanned_of (ss ! i)) \<and>
      sg_voided (ms' ! i) =
        fst (mark_frames (frames_of (sv_records (ss ! i))) {t. has_tomb (concat (map sv_records (drop (Suc i) ss))) t})"
    using Cons.prems(4) ms by (auto dest: spec[of _ "Suc i" for i])
  have valid: "valid_records (sv_records s)" using Cons.prems(1) by simp
  have ss: "\<forall>s \<in> set ss. valid_records (sv_records s)" "distinct (map fst ss)" "length ms' = length ss"
    "fst s \<notin> fst ` set ss"
    using Cons.prems ms by auto
  note IH = Cons.IH[OF ss(1-3) tail]
  have sub: "fst ` set (gc_keep committed remove_ok ss ret) \<subseteq> fst ` set ss" for ret
    using gc_keep_subset by fastforce
  show ?case
  proof (cases "deletable committed retained s (concat (map sv_records ss)) \<and> remove_ok (fst s)")
    case True
    then have "is_deletable committed retained m \<and> remove_ok (sg_path m)"
      using is_deletable_iff[OF valid m(2,3)] m(1) by simp
    moreover have "fst s \<notin> fst ` set (gc_keep committed remove_ok ss retained)"
      using sub ss(4) by blast
    ultimately show ?thesis
      using True IH[of retained "remove_file root (fst s)" "n + 1"] m(1)
      by (simp add: ms remove_files_insert)
  next
    case False
    then have "\<not> (is_deletable committed retained m \<and> remove_ok (sg_path m))"
      using is_deletable_iff[OF valid m(2,3)] m(1) by simp
    moreover have "retain_tables (ss_frames (sg_scan m)) retained = retained \<union> append_tables (sv_records s)"
      using retain_tables_spec[OF valid] m(2) by (simp add: scanned_of_def)
    moreover have "insert a S - insert a K = S - K" if "a \<notin> S" for a :: string and S K
      using that by blast
    ultimately show ?thesis
      using False IH[of "retained \<union> append_tables (sv_records s)" root n] ss(4)
      by (simp add: ms if_not_P del: insert_Diff_single)
  qed
qed


section \<open>Segment names\<close>

lemma digit_val_less: "is_digit c \<Longrightarrow> digit_val c < 10"
  by (auto simp: is_digit_def digit_val_def)

lemma dec_val_bound: "list_all is_digit s \<Longrightarrow> dec_val s < 10 ^ length s"
proof (induction s)
  case Nil
  then show ?case by (simp add: dec_val_def)
next
  case (Cons c s)
  then have "digit_val c \<le> 9" "dec_val s < 10 ^ length s"
    using digit_val_less[of c] by auto
  then have "digit_val c * 10 ^ length s + dec_val s < 9 * 10 ^ length s + 10 ^ length s"
    by (intro add_le_less_mono mult_le_mono1)
  then show ?case by (simp add: dec_val_Cons)
qed

lemma digit_less_iff: "is_digit a \<Longrightarrow> is_digit b \<Longrightarrow> a < b \<longleftrightarrow> digit_val a < digit_val b"
  by (auto simp: is_digit_def digit_val_def less_char_def)

lemma digit_eq_iff: "is_digit a \<Longrightarrow> is_digit b \<Longrightarrow> a = b \<longleftrightarrow> digit_val a = digit_val b"
  using digit_less_iff[of a b] digit_less_iff[of b a] by (metis neq_iff)

lemma less_weighted:
  fixes a b x y m :: nat
  assumes "x < m" "y < m"
  shows "a * m + x < b * m + y \<longleftrightarrow> a < b \<or> a = b \<and> x < y"
proof -
  have "a * m + x < b * m + y" if "a < b"
  proof -
    from that have "Suc a * m \<le> b * m" by (intro mult_le_mono1) simp
    then show ?thesis using assms(1) by simp
  qed
  moreover have "b * m + y < a * m + x" if "b < a"
  proof -
    from that have "Suc b * m \<le> a * m" by (intro mult_le_mono1) simp
    then show ?thesis using assms(2) by simp
  qed
  ultimately show ?thesis by (metis add_less_cancel_left linorder_neqE_nat order.asym)
qed

lemma digits_lex:
  "length s = length t \<Longrightarrow> list_all is_digit s \<Longrightarrow> list_all is_digit t \<Longrightarrow> s < t \<longleftrightarrow> dec_val s < dec_val t"
proof (induction s t rule: list_induct2)
  case Nil
  then show ?case by simp
next
  case (Cons a s b t)
  then have "dec_val s < 10 ^ length t" "dec_val t < 10 ^ length t"
    using dec_val_bound[of s] dec_val_bound[of t] by auto
  from less_weighted[OF this, of "digit_val a" "digit_val b"] Cons show ?case
    by (simp add: dec_val_Cons digit_less_iff digit_eq_iff)
qed

lemma zero_pad_digits:
  assumes "length s \<le> w" "list_all is_digit s"
  shows "length (zero_pad w s) = w" "list_all is_digit (zero_pad w s)" "dec_val (zero_pad w s) = dec_val s"
proof -
  have z: "is_digit (CHR ''0'')" "digit_val (CHR ''0'') = 0"
    by (simp_all add: is_digit_def digit_val_def)
  show "length (zero_pad w s) = w" using assms by (simp add: zero_pad_def)
  show "list_all is_digit (zero_pad w s)" using assms z by (auto simp: zero_pad_def list_all_iff)
  have "dec_val (replicate k (CHR ''0'') @ s) = dec_val s" for k
    using z by (induction k) (simp_all add: dec_val_Cons)
  then show "dec_val (zero_pad w s) = dec_val s" by (simp add: zero_pad_def)
qed

lemma dec_str_length: "n < 10 ^ Suc k \<Longrightarrow> length (dec_str n) \<le> Suc k"
proof (induction k arbitrary: n)
  case 0
  then show ?case by (simp add: dec_str.simps)
next
  case (Suc k)
  show ?case
  proof (cases "n < 10")
    case False
    have "n div 10 < 10 ^ Suc k" using Suc.prems by (simp add: less_mult_imp_div_less)
    then show ?thesis using Suc.IH[of "n div 10"] False by (subst dec_str.simps) simp
  qed (simp add: dec_str.simps)
qed

lemma seq_digits:
  assumes "n < u64_bound"
  shows "length (zero_pad 20 (dec_str n)) = 20" "list_all is_digit (zero_pad 20 (dec_str n))"
    "dec_val (zero_pad 20 (dec_str n)) = n"
proof -
  have "n < 10 ^ Suc 19" using assms by (simp add: u64_bound_def)
  then have "length (dec_str n) \<le> 20" using dec_str_length[of n 19] by simp
  from zero_pad_digits[OF this dec_str_digits]
  show "length (zero_pad 20 (dec_str n)) = 20" "list_all is_digit (zero_pad 20 (dec_str n))"
    "dec_val (zero_pad 20 (dec_str n)) = n" by simp_all
qed

lemma parse_segment_name: "n < u64_bound \<Longrightarrow> parse_seq (segment_name n) = Some n"
proof -
  assume n: "n < u64_bound"
  let ?z = "zero_pad 20 (dec_str n)"
  note z = seq_digits[OF n]
  obtain c r where cr: "?z = c # r" using z(1) by (cases ?z) auto
  have "c \<noteq> CHR ''+''" using z(2) cr not_digit_plus by auto
  then have "dec_parse_u64 ?z = Some n"
    using z(2,3) n by (simp add: dec_parse_u64_def cr Let_def)
  then show ?thesis using z(1) by (simp add: parse_seq_def segment_name_def ends_with_def)
qed

lemma segment_name_wal [simp]: "ends_with (segment_name n) ''.wal''"
  by (simp add: segment_name_def ends_with_def)

lemma append_same_length_less:
  "length s = length t \<Longrightarrow> s @ u < t @ u \<longleftrightarrow> s < (t :: string)"
  by (induction s t rule: list_induct2) auto

lemma segment_name_less:
  "m < u64_bound \<Longrightarrow> n < u64_bound \<Longrightarrow> segment_name m < segment_name n \<longleftrightarrow> m < n"
  using seq_digits[of m] seq_digits[of n] digits_lex[of "zero_pad 20 (dec_str m)" "zero_pad 20 (dec_str n)"]
  by (simp add: segment_name_def append_same_length_less)

lemma segment_name_le:
  "m < u64_bound \<Longrightarrow> n < u64_bound \<Longrightarrow> segment_name m \<le> segment_name n \<longleftrightarrow> m \<le> n"
  using segment_name_less[of n m] by (metis not_less)

definition root_wf :: "wal_root \<Rightarrow> bool" where
  "root_wf root \<longleftrightarrow> distinct (map wf_name root) \<and>
    (\<forall>f \<in> set root. ends_with (wf_name f) ''.wal'' \<longrightarrow> (\<exists>s < u64_bound. wf_name f = segment_name s))"

section \<open>Collection never changes the replay\<close>

lemma sort_key_order_cong_set:
  assumes "\<And>x y. x \<in> set xs \<Longrightarrow> y \<in> set xs \<Longrightarrow> f x \<le> f y \<longleftrightarrow> g x \<le> g y"
  shows "sort_key f xs = sort_key g xs"
  using assms
proof (induction xs)
  case (Cons x xs)
  have "insort_key f x ys = insort_key g x ys" if "set ys \<subseteq> set (x # xs)" for ys
    using that Cons.prems by (induction ys) auto
  then show ?case using Cons by (simp add: subset_iff)
qed simp

lemma sorted_split:
  "sorted xs \<Longrightarrow> (\<And>x y. x \<in> set xs \<Longrightarrow> y \<in> set xs \<Longrightarrow> \<not> P x \<Longrightarrow> P y \<Longrightarrow> y < x) \<Longrightarrow>
    xs = filter P xs @ filter (\<lambda>x. \<not> P x) xs"
proof (induction xs)
  case (Cons x xs)
  show ?case
  proof (cases "P x")
    case False
    then have "\<not> P y" if "y \<in> set xs" for y
      using Cons.prems that by (metis leD list.set_intros sorted_simps(2))
    then have "filter P xs = []" by (simp add: filter_empty_conv)
    then show ?thesis using Cons False by (simp add: filter_True)
  qed (use Cons in auto)
qed simp

lemma candidate_entries_eq:
  assumes "\<forall>f \<in> set root. ends_with (wf_name f) ''.wal'' \<longrightarrow> (\<exists>s < u64_bound. wf_name f = segment_name s)"
  shows "candidate_entries cur root =
    map (\<lambda>n. (the (parse_seq n), n)) (filter (\<lambda>n. cur \<noteq> parse_seq n) (filter (\<lambda>n. ends_with n ''.wal'') (map wf_name root)))"
  using assms
proof (induction root)
  case (Cons f fs)
  show ?case
  proof (cases "ends_with (wf_name f) ''.wal''")
    case True
    then obtain s where "s < u64_bound" "wf_name f = segment_name s" using Cons.prems by auto
    then show ?thesis using Cons by (cases "cur = Some s") (auto simp: parse_segment_name)
  next
    case False
    then have "parse_seq (wf_name f) = None" by (simp add: parse_seq_def)
    then show ?thesis using Cons False by simp
  qed
qed simp

lemma candidate_paths:
  assumes "root_wf root"
  shows "map snd (candidate_segments current_seq root) =
    filter (\<lambda>n. open_seq current_seq \<noteq> parse_seq n) (segment_paths root)"
proof -
  let ?xs = "filter (\<lambda>n. open_seq current_seq \<noteq> parse_seq n) (filter (\<lambda>n. ends_with n ''.wal'') (map wf_name root))"
  have name: "\<exists>s < u64_bound. z = segment_name s" if "z \<in> set ?xs" for z
    using that assms by (auto simp: root_wf_def)
  have "the (parse_seq x) \<le> the (parse_seq y) \<longleftrightarrow> x \<le> y" if xy: "x \<in> set ?xs" "y \<in> set ?xs" for x y
  proof -
    obtain m n where "m < u64_bound" "x = segment_name m" "n < u64_bound" "y = segment_name n"
      using name[OF xy(1)] name[OF xy(2)] by blast
    then show ?thesis by (simp add: parse_segment_name segment_name_le)
  qed
  then have "sort_key (\<lambda>n. the (parse_seq n)) ?xs = sort ?xs"
    by (rule sort_key_order_cong_set)
  then have "map snd (map (\<lambda>n. (the (parse_seq n), n)) (sort_key (\<lambda>n. the (parse_seq n)) ?xs)) = sort ?xs"
    by (simp add: comp_def)
  moreover have "candidate_segments current_seq root =
      map (\<lambda>n. (the (parse_seq n), n)) (sort_key (\<lambda>n. the (parse_seq n)) ?xs)"
    using assms candidate_entries_eq[of root "open_seq current_seq"]
      map_sort_key[of "\<lambda>n. (the (parse_seq n), n)" fst ?xs]
    by (simp add: candidate_segments_def root_wf_def)
  ultimately show ?thesis by (simp add: segment_paths_def filter_sort)
qed

definition view :: "'b frame_codec \<Rightarrow> wal_root \<Rightarrow> string \<Rightarrow> 'b seg_view" where
  "view c root p = (p, map snd (fst (seg_records c root p)), seg_corrupt c root p)"

lemma view_valid: "valid_records (sv_records (view c root p))"
  using records_from_valid by (fastforce simp: view_def seg_records_def)

lemma scan_readable_views:
  assumes "\<forall>x \<in> set cs. \<exists>f. find_file root (snd x) = Some f"
  shows "\<exists>k. scan_readable_prefix c read_ok root cs = map scanned_of (map (view c root) (take k (map snd cs)))"
  using assms
proof (induction cs)
  case (Cons x cs)
  obtain s p where x: "x = (s, p)" by (cases x)
  obtain f where f: "find_file root p = Some f" using Cons.prems x by auto
  show ?case
  proof (cases "read_ok p")
    case True
    have "scan_segment c (wf_data f) = Inr (sg_scan (scanned_of (view c root p)))"
      using f by (simp add: scan_segment_records scanned_of_def view_def seg_records_def data_of_def
          frames_of_def comp_assoc)
    moreover obtain k where "scan_readable_prefix c read_ok root cs = map scanned_of (map (view c root) (take k (map snd cs)))"
      using Cons by auto
    ultimately show ?thesis
      using True f by (intro exI[of _ "Suc k"])
        (simp add: x open_segment_file_def scanned_of_def view_def frames_of_def)
  next
    case False
    then show ?thesis by (intro exI[of _ 0]) (simp add: x)
  qed
qed simp

lemma gc_keep_filter:
  "distinct (map fst ss) \<Longrightarrow>
    gc_keep committed remove_ok ss retained =
      filter (\<lambda>s. fst s \<notin> fst ` set ss - fst ` set (gc_keep committed remove_ok ss retained)) ss"
proof (induction ss arbitrary: retained)
  case (Cons s ss)
  have K: "fst ` set (gc_keep committed remove_ok ss ret) \<subseteq> fst ` set ss" for ret
    using gc_keep_subset by fastforce
  have s: "fst s \<notin> fst ` set ss" using Cons.prems by simp
  have cong: "filter (\<lambda>s. fst s \<notin> fst ` set ss - X) ss = filter (\<lambda>x. fst x \<notin> insert (fst s) (fst ` set ss) - Y) ss"
    if "Y = X \<or> Y = insert (fst s) X" for X Y
  proof (rule filter_cong[OF refl])
    fix x assume "x \<in> set ss"
    then have "fst x \<in> fst ` set ss" "fst x \<noteq> fst s" using s by (auto simp: image_iff)
    then show "(fst x \<notin> fst ` set ss - X) = (fst x \<notin> insert (fst s) (fst ` set ss) - Y)" using that by auto
  qed
  let ?S = "fst ` set ss"
  show ?case
  proof (cases "deletable committed retained s (concat (map sv_records ss)) \<and> remove_ok (fst s)")
    case True
    define G where "G = gc_keep committed remove_ok ss retained"
    have "fst s \<notin> fst ` set G" using K s unfolding G_def by blast
    then have "filter (\<lambda>x. fst x \<notin> insert (fst s) ?S - fst ` set G) (s # ss) =
        filter (\<lambda>x. fst x \<notin> insert (fst s) ?S - fst ` set G) ss" by simp
    also have "\<dots> = filter (\<lambda>x. fst x \<notin> ?S - fst ` set G) ss" by (rule cong[symmetric]) simp
    also have "\<dots> = G" unfolding G_def by (rule Cons.IH[symmetric]) (use Cons.prems in simp)
    finally show ?thesis using True by (simp add: G_def)
  next
    case False
    define G where "G = gc_keep committed remove_ok ss (retained \<union> append_tables (sv_records s))"
    have "filter (\<lambda>x. fst x \<notin> insert (fst s) ?S - insert (fst s) (fst ` set G)) (s # ss) =
        s # filter (\<lambda>x. fst x \<notin> insert (fst s) ?S - insert (fst s) (fst ` set G)) ss" by simp
    also have "filter (\<lambda>x. fst x \<notin> insert (fst s) ?S - insert (fst s) (fst ` set G)) ss =
        filter (\<lambda>x. fst x \<notin> ?S - fst ` set G) ss" by (rule cong[symmetric]) simp
    also have "\<dots> = G" unfolding G_def by (rule Cons.IH[symmetric]) (use Cons.prems in simp)
    finally show ?thesis using False by (simp add: G_def if_not_P)
  qed
qed simp

end
