(* ===== verification/Wal_Gc_Sound.thy ===== *)
theory Wal_Gc_Sound
  imports Wal_Gc
begin

text \<open>Soundness of WAL garbage collection (\<open>crates/teodb-storage/src/wal/gc.rs\<close>): the set of segments
  a collection removes, and that a later replay cannot tell the collected log from the original.\<close>

section \<open>What a collection removes\<close>

lemma find_file_remove:
  "find_file (remove_files D root) p = (if p \<in> D then None else find_file root p)"
  by (induction root) (auto simp: remove_files_def)

lemma segment_paths_remove: "segment_paths (remove_files D root) = filter (\<lambda>p. p \<notin> D) (segment_paths root)"
proof -
  have "filter (\<lambda>n. ends_with n ''.wal'') (map wf_name (remove_files D root)) =
      filter (\<lambda>p. p \<notin> D) (filter (\<lambda>n. ends_with n ''.wal'') (map wf_name root))"
    by (induction root) (auto simp: remove_files_def)
  then show ?thesis by (simp add: segment_paths_def filter_sort)
qed

lemma first_corruption_filter:
  "(\<And>p. p \<in> set ps \<Longrightarrow> \<not> P p \<Longrightarrow> \<not> seg_corrupt c root p) \<Longrightarrow>
    first_corruption c root (filter P ps) = first_corruption c root ps"
  by (induction ps) (auto split: option.splits)

lemma delete_marked:
  assumes "\<forall>s \<in> set ss. valid_records (sv_records s)" "distinct (map fst ss)"
  shows "fst (delete_dead_segments committed remove_ok (fst (mark_voided_frames (map scanned_of ss))) retained (root, n)) =
    remove_files (fst ` set ss - fst ` set (gc_keep committed remove_ok ss retained)) root"
proof -
  obtain ms where ms: "fst (mark_voided_frames (map scanned_of ss)) = ms" "length ms = length ss"
    "\<forall>i < length ss. sg_path (ms ! i) = fst (ss ! i) \<and> sg_scan (ms ! i) = sg_scan (scanned_of (ss ! i)) \<and>
      sg_voided (ms ! i) =
        fst (mark_frames (frames_of (sv_records (ss ! i))) {t. has_tomb (concat (map sv_records (drop (Suc i) ss))) t})"
    using mark_voided_spec[OF assms(1)] by auto
  show ?thesis unfolding ms(1) by (rule delete_dead_spec[OF assms ms(2,3)])
qed

text \<open>The shape of every collection: a prefix \<open>A\<close> of the segments is examined, a set \<open>D\<close> of them is
  removed, none of them corrupt, and what stays has the live records of the whole.\<close>

lemma collect_garbage_shape:
  assumes wf: "root_wf root"
    and cur: "\<And>s f t. open_seq current_seq = Some s \<Longrightarrow> f \<in> set root \<Longrightarrow> parse_seq (wf_name f) = Some t \<Longrightarrow> t \<le> s"
  obtains D where
    "fst (collect_garbage c committed current_seq read_ok remove_ok root) = remove_files D root"
    "D \<subseteq> set (segment_paths root)"
    "\<And>p. p \<in> D \<Longrightarrow> \<not> seg_corrupt c root p \<and> parse_seq p \<noteq> open_seq current_seq"
    "live_records committed (concat (map (\<lambda>p. map snd (fst (seg_records c root p)))
        (filter (\<lambda>p. p \<notin> D) (segment_paths root)))) = live_records committed (log_records c root)"
proof -
  let ?ps = "segment_paths root"
  let ?open = "\<lambda>n. open_seq current_seq \<noteq> parse_seq n"
  let ?cs = "candidate_segments current_seq root"
  have cs: "map snd ?cs = filter ?open ?ps" by (rule candidate_paths[OF wf])
  have found: "\<exists>f. find_file root p = Some f" if "p \<in> set ?ps" for p
    using that by (simp add: segment_paths_set find_file_iff)
  have "snd x \<in> set ?ps" if "x \<in> set ?cs" for x
    using that cs by (metis filter_is_subset image_eqI list.set_map subsetD)
  then obtain k where k: "scan_readable_prefix c read_ok root ?cs =
      map scanned_of (map (view c root) (take k (map snd ?cs)))"
    using scan_readable_views[of ?cs root c read_ok] found by blast
  define A where "A = take k (filter ?open ?ps)"
  let ?ss = "map (view c root) A"
  define G where "G = gc_keep committed remove_ok ?ss {}"
  define D where "D = fst ` set ?ss - fst ` set G"
  have name: "\<exists>s < u64_bound. p = segment_name s" if "p \<in> set ?ps" for p
    using that wf by (auto simp: segment_paths_set root_wf_def)
  have "y < x" if xy: "x \<in> set ?ps" "y \<in> set ?ps" "\<not> ?open x" "?open y" for x y
  proof -
    obtain m n where mn: "m < u64_bound" "x = segment_name m" "n < u64_bound" "y = segment_name n"
      using name[OF xy(1)] name[OF xy(2)] by blast
    obtain f where "f \<in> set root" "wf_name f = y" using xy(2) by (auto simp: segment_paths_set)
    then have "n \<le> m" "n \<noteq> m" using cur[of m f n] xy(3,4) mn by (auto simp: parse_segment_name)
    then show ?thesis using mn by (simp add: segment_name_less)
  qed
  then have "?ps = filter ?open ?ps @ filter (\<lambda>x. \<not> ?open x) ?ps"
    by (intro sorted_split) (auto simp: segment_paths_def)
  then have ps: "?ps = A @ (drop k (filter ?open ?ps) @ filter (\<lambda>x. \<not> ?open x) ?ps)" (is "_ = _ @ ?B")
    unfolding A_def by (metis append.assoc append_take_drop_id)
  have dist: "distinct ?ps" using wf by (simp add: root_wf_def distinct_segment_paths)
  have fstv: "map fst ?ss = A" by (simp add: view_def comp_def)
  have dA: "distinct (map fst ?ss)" using dist ps fstv by (metis distinct_append)
  have valid: "\<forall>s \<in> set ?ss. valid_records (sv_records s)" using view_valid by auto
  have run: "fst (collect_garbage c committed current_seq read_ok remove_ok root) = remove_files D root"
    unfolding collect_garbage_def Let_def k cs A_def[symmetric] D_def G_def
    by (rule delete_marked[OF valid dA])
  have "fst ` set ?ss = set A" using arg_cong[OF fstv, of set] by (simp only: set_map)
  then have DA: "D \<subseteq> set A" unfolding D_def by blast
  have open_A: "?open p" if "p \<in> set A" for p
    using that unfolding A_def by (auto dest!: in_set_takeD)
  have good: "\<not> seg_corrupt c root p \<and> parse_seq p \<noteq> open_seq current_seq" if "p \<in> D" for p
  proof -
    have "view c root p \<in> set ?ss" "view c root p \<notin> set G"
      using that DA unfolding D_def by (auto simp: view_def image_iff)
    then have "\<not> snd (snd (view c root p))" unfolding G_def by (rule gc_keep_corrupt)
    then show ?thesis using open_A[of p] that DA by (auto simp: view_def)
  qed
  have keep: "map fst G = filter (\<lambda>p. p \<notin> D) A"
  proof -
    have "G = filter (\<lambda>s. fst s \<notin> D) ?ss"
      unfolding D_def G_def by (rule gc_keep_filter[OF dA])
    then show ?thesis using fstv by (simp add: filter_map comp_def view_def)
  qed
  have G_view: "sv_records s = map snd (fst (seg_records c root (fst s)))" if "s \<in> set G" for s
  proof -
    have "s \<in> view c root ` set A" using that gc_keep_subset unfolding G_def by (metis set_map subsetD)
    then obtain p where "s = view c root p" by blast
    then show ?thesis by (simp add: view_def)
  qed
  have "map sv_records G = map (\<lambda>s. map snd (fst (seg_records c root (fst s)))) G"
    by (rule map_cong[OF refl G_view])
  then have "map sv_records G = map (\<lambda>p. map snd (fst (seg_records c root p))) (map fst G)"
    by (simp add: comp_def)
  moreover have "filter (\<lambda>p. p \<notin> D) ?B = ?B"
    using dist DA ps by (metis (no_types, lifting) disjoint_iff distinct_append filter_True subsetD)
  ultimately have "concat (map (\<lambda>p. map snd (fst (seg_records c root p))) (filter (\<lambda>p. p \<notin> D) ?ps)) =
      concat (map sv_records G) @ concat (map (\<lambda>p. map snd (fst (seg_records c root p))) ?B)"
    using keep by (subst ps) (simp only: filter_append map_append concat_append)
  moreover have "log_records c root =
      concat (map sv_records ?ss) @ concat (map (\<lambda>p. map snd (fst (seg_records c root p))) ?B)"
    unfolding log_records_def by (subst ps) (simp add: view_def comp_def)
  ultimately have live: "live_records committed (concat (map (\<lambda>p. map snd (fst (seg_records c root p)))
        (filter (\<lambda>p. p \<notin> D) ?ps))) = live_records committed (log_records c root)"
    using gc_keep_live[of committed remove_ok ?ss "{}"] unfolding G_def by simp
  have "set A \<subseteq> set ?ps" unfolding A_def by (auto dest!: in_set_takeD)
  with DA have "D \<subseteq> set ?ps" by blast
  show thesis
  proof (rule that)
    show "fst (collect_garbage c committed current_seq read_ok remove_ok root) = remove_files D root" by (rule run)
    show "D \<subseteq> set ?ps" by fact
    show "\<not> seg_corrupt c root p \<and> parse_seq p \<noteq> open_seq current_seq" if "p \<in> D" for p by (rule good[OF that])
    show "live_records committed (concat (map (\<lambda>p. map snd (fst (seg_records c root p)))
        (filter (\<lambda>p. p \<notin> D) (segment_paths root)))) = live_records committed (log_records c root)" by (rule live)
  qed
qed

section \<open>Properties\<close>

text \<open>Property C2. Garbage collection is invisible to recovery: whatever segments a collection
  removes, and whichever reads or removals fail during it, a later replay under the same committed
  generations returns exactly what it returned before (the same records in the same order, or the
  same corruption error). In particular no live record is lost and no voided record comes back.\<close>

theorem gc_preserves_replay:
  assumes "root_wf root"
    and "\<And>s f t. open_seq current_seq = Some s \<Longrightarrow> f \<in> set root \<Longrightarrow> parse_seq (wf_name f) = Some t \<Longrightarrow> t \<le> s"
  shows "replay c committed mode (fst (collect_garbage c committed current_seq read_ok remove_ok root)) =
    replay c committed mode root"
proof -
  obtain D where D: "fst (collect_garbage c committed current_seq read_ok remove_ok root) = remove_files D root"
    "\<And>p. p \<in> D \<Longrightarrow> \<not> seg_corrupt c root p \<and> parse_seq p \<noteq> open_seq current_seq"
    "live_records committed (concat (map (\<lambda>p. map snd (fst (seg_records c root p)))
        (filter (\<lambda>p. p \<notin> D) (segment_paths root)))) = live_records committed (log_records c root)"
    by (rule collect_garbage_shape[OF assms]) blast+
  let ?root = "remove_files D root" and ?keep = "filter (\<lambda>p. p \<notin> D) (segment_paths root)"
  have dist: "distinct (map wf_name root)" "distinct (map wf_name ?root)"
    using assms(1) by (auto simp: root_wf_def remove_files_def distinct_map_filter)
  have same: "find_file ?root p = find_file root p" if "p \<in> set ?keep" for p
    using that by (simp add: find_file_remove)
  have "log_records c ?root = concat (map (\<lambda>p. map snd (fst (seg_records c root p))) ?keep)"
    unfolding log_records_def segment_paths_remove
    by (intro arg_cong[of _ _ concat] map_cong refl) (simp add: seg_records_cong[OF same])
  then have "live_records committed (log_records c ?root) = live_records committed (log_records c root)"
    using D(3) by (rule ssubst)
  moreover have "first_corruption c ?root ?keep = first_corruption c root (segment_paths root)"
    using log_from_cong(2)[where ps = ?keep and root' = ?root and root = root, OF same]
      first_corruption_filter[of "segment_paths root" "\<lambda>p. p \<notin> D" c root] D(2) by metis
  ultimately show ?thesis
    by (simp add: D(1) replay_spec[OF dist(1)] replay_spec[OF dist(2)] segment_paths_remove
        split: WalRecoveryMode.split option.split)
qed

subsection \<open>Witness\<close>

definition demo_gc_root :: wal_root where
  "demo_gc_root = [\<lparr>wf_name = segment_name 1, wf_data = segment_of demo_codec [demo_record], wf_mtime = 0\<rparr>,
    \<lparr>wf_name = segment_name 2, wf_data = [], wf_mtime = 0\<rparr>]"

theorem gc_preserves_replay_witness:
  "replay demo_codec (\<lambda>_. Some 5) Fail
      (fst (collect_garbage demo_codec (\<lambda>_. Some 5) 3 (\<lambda>_. True) (\<lambda>_. True) demo_gc_root)) =
    replay demo_codec (\<lambda>_. Some 5) Fail demo_gc_root"
proof (rule gc_preserves_replay)
  have b: "(1 :: nat) < u64_bound" "(2 :: nat) < u64_bound" by (simp_all add: u64_bound_def)
  have "segment_name 1 \<noteq> segment_name 2" using segment_name_less[OF b] by (metis less_irrefl one_less_numeral_iff semiring_norm(76))
  moreover have "\<exists>s < u64_bound. segment_name 1 = segment_name s" "\<exists>s < u64_bound. segment_name 2 = segment_name s"
    using b by blast+
  ultimately show "root_wf demo_gc_root" by (auto simp: root_wf_def demo_gc_root_def)
  show "t \<le> s" if "open_seq 3 = Some s" "f \<in> set demo_gc_root" "parse_seq (wf_name f) = Some t" for s f t
    using that b by (auto simp: open_seq_def demo_gc_root_def parse_segment_name)
qed

end
