(* ===== verification/Durable_File.thy ===== *)
theory Durable_File
  imports Core_Types
begin

text \<open>Atomic replacement of a small durable file: write a temporary file, fsync it, rename it over the target and
  fsync the directory. \<open>replace_file\<close> is the sequence shared by \<open>persist_identity\<close>
  (\<open>wal/identity.rs\<close>) and the prepared-intent \<open>persist\<close> (\<open>wal/prepared.rs\<close>); \<open>overwrite_file\<close> is the
  variant of \<open>persist_committed_checkpoint\<close> (\<open>wal/state.rs\<close>), which reuses a fixed temporary name and
  leaves it behind on failure.

  A directory is an association list from names to contents. An \<open>io_plan\<close> says which system call fails (if
  any), how many bytes a failing write left, whether the process died at that call instead of
  returning an error, whether the rename survived a crash that preceded the directory fsync, and
  whether the clean-up of the temporary file succeeded.\<close>

section \<open>Model\<close>

type_synonym fs = "(string \<times> byte list) list"

datatype fs_step = CreateTmp | WriteTmp | SyncTmp | RenameTmp | SyncDir

record io_plan =
  io_fail :: "fs_step option"
  io_crash :: bool
  io_partial :: nat
  io_rename_lost :: bool
  io_cleanup_ok :: bool

definition io_good :: io_plan where
  "io_good = \<lparr>io_fail = None, io_crash = False, io_partial = 0, io_rename_lost = False, io_cleanup_ok = True\<rparr>"

text \<open>The directory after the failing call. A completed rename has moved the temporary file.\<close>

definition fs_after :: "io_plan \<Rightarrow> fs_step \<Rightarrow> fs \<Rightarrow> string \<Rightarrow> string \<Rightarrow> byte list \<Rightarrow> fs" where
  "fs_after io step fs tmp path bytes =
    (case step of
       CreateTmp \<Rightarrow> fs
     | WriteTmp \<Rightarrow> al_put tmp (take (io_partial io) bytes) fs
     | SyncTmp \<Rightarrow> al_put tmp bytes fs
     | RenameTmp \<Rightarrow> al_put tmp bytes fs
     | SyncDir \<Rightarrow>
         if io_crash io \<and> io_rename_lost io then al_put tmp bytes fs else al_put path bytes (al_del tmp fs))"

text \<open>None as the second component: the process died and nothing was returned.\<close>

definition replace_file ::
    "(fs_step \<Rightarrow> string) \<Rightarrow> io_plan \<Rightarrow> string \<Rightarrow> string \<Rightarrow> byte list \<Rightarrow> fs \<Rightarrow> fs \<times> unit teo_result option" where
  "replace_file msg io tmp path bytes fs =
    (let fail = (if map_of fs tmp \<noteq> None then Some CreateTmp else io_fail io) in
     case fail of
       None \<Rightarrow> (al_put path bytes (al_del tmp fs), Some (Inr ()))
     | Some step \<Rightarrow>
         let fs' = fs_after io step fs tmp path bytes in
         if io_crash io then (fs', None)
         else (if io_cleanup_ok io then al_del tmp fs' else fs', Some (Inl (wal_source (msg step) []))))"

definition overwrite_file ::
    "(fs_step \<Rightarrow> string) \<Rightarrow> io_plan \<Rightarrow> string \<Rightarrow> string \<Rightarrow> byte list \<Rightarrow> fs \<Rightarrow> fs \<times> unit teo_result option" where
  "overwrite_file msg io tmp path bytes fs =
    (case io_fail io of
       None \<Rightarrow> (al_put path bytes (al_del tmp fs), Some (Inr ()))
     | Some step \<Rightarrow>
         (fs_after io step fs tmp path bytes,
          if io_crash io then None else Some (Inl (wal_source (msg step) []))))"

text \<open>Sequencing of steps on the directory: an error or a crash ends the sequence.\<close>

type_synonym 'a fs_result = "fs \<times> 'a teo_result option"

definition bind_io :: "'a fs_result \<Rightarrow> ('a \<Rightarrow> fs \<Rightarrow> 'b fs_result) \<Rightarrow> 'b fs_result" where
  "bind_io m f =
    (case snd m of None \<Rightarrow> (fst m, None) | Some (Inl e) \<Rightarrow> (fst m, Some (Inl e)) | Some (Inr x) \<Rightarrow> f x (fst m))"

definition lift_io :: "'a teo_result \<Rightarrow> fs \<Rightarrow> 'a fs_result" where
  "lift_io r fs = (fs, Some r)"

lemma bind_io_Inr:
  "bind_io m f = (fs', Some (Inr y)) \<longleftrightarrow> (\<exists>fs x. m = (fs, Some (Inr x)) \<and> f x fs = (fs', Some (Inr y)))"
  by (cases m) (auto simp: bind_io_def split: option.splits sum.splits)

lemma lift_io_Inr [simp]: "lift_io r fs = (fs', Some (Inr x)) \<longleftrightarrow> fs' = fs \<and> r = Inr x"
  by (auto simp: lift_io_def)

lemma lift_io_sel [simp]: "fst (lift_io r fs) = fs" "snd (lift_io r fs) = Some r"
  by (simp_all add: lift_io_def)

text \<open>The directory after a sequence is that after its first step or after the continuation.\<close>

lemma bind_io_cases:
  obtains "fst (bind_io m f) = fst m"
    | x where "snd m = Some (Inr x)" "bind_io m f = f x (fst m)"
proof (cases "snd m")
  case None
  then show ?thesis using that(1) by (simp add: bind_io_def)
next
  case (Some r)
  then show ?thesis using that by (cases r) (simp_all add: bind_io_def)
qed

lemma bind_io_keeps:
  assumes "P (fst m)" "\<And>x. snd m = Some (Inr x) \<Longrightarrow> P (fst (f x (fst m)))"
  shows "P (fst (bind_io m f))"
proof (rule bind_io_cases[of m f])
  assume "fst (bind_io m f) = fst m"
  then show ?thesis using assms(1) by simp
next
  fix x assume x: "snd m = Some (Inr x)" "bind_io m f = f x (fst m)"
  show ?thesis unfolding x(2) by (rule assms(2)[OF x(1)])
qed

lemma bind_lift_keeps:
  assumes "P fs" "\<And>x. r = Inr x \<Longrightarrow> P (fst (f x fs))"
  shows "P (fst (bind_io (lift_io r fs) f))"
  by (rule bind_io_keeps) (use assms in \<open>simp_all add: lift_io_def\<close>)

lemma bind_io_lift:
  "bind_io (lift_io r fs) f = (case r of Inl e \<Rightarrow> (fs, Some (Inl e)) | Inr x \<Rightarrow> f x fs)"
  by (simp add: bind_io_def lift_io_def split: sum.split)

section \<open>The contract of an atomic replacement\<close>

text \<open>What the callers rely on: success stores the new content; a failure or a crash leaves the old content or
  the new one, never a mixture; and no other durable file is touched. \<open>scratch\<close> is the set of names
  used for temporary files and \<open>'p\<close> what one attempt depends on (its plan, its temporary name).\<close>

locale atomic_replace =
  fixes replace :: "'p \<Rightarrow> byte list \<Rightarrow> fs \<Rightarrow> fs \<times> unit teo_result option"
    and path :: string and scratch :: "string set"
  assumes path_not_scratch: "path \<notin> scratch"
    and stored: "replace io bytes fs = (fs', Some (Inr ())) \<Longrightarrow> map_of fs' path = Some bytes"
    and old_or_new: "replace io bytes fs = (fs', r) \<Longrightarrow> map_of fs' path \<in> {map_of fs path, Some bytes}"
    and untouched: "replace io bytes fs = (fs', r) \<Longrightarrow> q \<noteq> path \<Longrightarrow> q \<notin> scratch \<Longrightarrow> map_of fs' q = map_of fs q"
begin

text \<open>A run of attempts, each with its own plan and content.\<close>

lemma run_content:
  "map_of (fold (\<lambda>(io, bytes) fs. fst (replace io bytes fs)) runs fs) path
    \<in> insert (map_of fs path) (Some ` snd ` set runs)"
proof (induction runs arbitrary: fs)
  case (Cons x runs)
  obtain io bytes where x: "x = (io, bytes)" by (cases x)
  obtain fs' r where r: "replace io bytes fs = (fs', r)" by (cases "replace io bytes fs")
  show ?case using Cons[of fs'] old_or_new[OF r] by (auto simp: x r)
qed simp

lemma run_untouched:
  assumes "q \<noteq> path" "q \<notin> scratch"
  shows "map_of (fold (\<lambda>(io, bytes) fs. fst (replace io bytes fs)) runs fs) q = map_of fs q"
proof (induction runs arbitrary: fs)
  case (Cons x runs)
  obtain io bytes where x: "x = (io, bytes)" by (cases x)
  obtain fs' r where r: "replace io bytes fs = (fs', r)" by (cases "replace io bytes fs")
  show ?case using Cons[of fs'] untouched[OF r assms] by (simp add: x r)
qed simp

end

section \<open>Both sequences meet the contract\<close>

lemma fs_after_path:
  "tmp \<noteq> path \<Longrightarrow> map_of (fs_after io step fs tmp path bytes) path \<in> {map_of fs path, Some bytes}"
  by (cases step) (auto simp: fs_after_def)

lemma fs_after_other:
  "q \<noteq> path \<Longrightarrow> q \<noteq> tmp \<Longrightarrow> map_of (fs_after io step fs tmp path bytes) q = map_of fs q"
  by (cases step) (auto simp: fs_after_def)

lemma replace_file_cases:
  assumes "replace_file msg io tmp path bytes fs = (fs', r)"
  obtains "fs' = al_put path bytes (al_del tmp fs)" "r = Some (Inr ())"
    | step where "fs' = fs_after io step fs tmp path bytes" "r \<noteq> Some (Inr ())"
    | step where "fs' = al_del tmp (fs_after io step fs tmp path bytes)" "r \<noteq> Some (Inr ())"
  using assms by (auto simp: replace_file_def Let_def split: option.splits if_splits)

lemma replace_file_atomic:
  assumes "\<And>u. tmp u \<noteq> path"
  shows "atomic_replace (\<lambda>(u, io). replace_file msg io (tmp u) path) path (range tmp)"
proof
  have ne: "path \<noteq> tmp u" for u using assms[of u] by simp
  show "path \<notin> range tmp" using ne by auto
  fix p bytes fs fs' r q
  obtain u io where p: "p = (u :: 'a, io :: io_plan)" by (cases p)
  {
    assume "(case p of (u, io) \<Rightarrow> replace_file msg io (tmp u) path) bytes fs = (fs', Some (Inr ()))"
    then show "map_of fs' path = Some bytes" unfolding p by (auto elim!: replace_file_cases)
  next
    assume "(case p of (u, io) \<Rightarrow> replace_file msg io (tmp u) path) bytes fs = (fs', r)"
    then have "replace_file msg io (tmp u) path bytes fs = (fs', r)" unfolding p by simp
    then show "map_of fs' path \<in> {map_of fs path, Some bytes}"
      using fs_after_path[OF assms[of u]] ne by (elim replace_file_cases) auto
  next
    assume "(case p of (u, io) \<Rightarrow> replace_file msg io (tmp u) path) bytes fs = (fs', r)" "q \<noteq> path" "q \<notin> range tmp"
    then have "replace_file msg io (tmp u) path bytes fs = (fs', r)" "q \<noteq> path" "q \<noteq> tmp u" unfolding p by auto
    then show "map_of fs' q = map_of fs q"
      by (elim replace_file_cases) (auto simp: fs_after_other)
  }
qed

lemma overwrite_file_atomic:
  assumes "tmp \<noteq> path"
  shows "atomic_replace (\<lambda>io. overwrite_file msg io tmp path) path {tmp}"
proof
  show "path \<notin> {tmp}" using assms by simp
  show "map_of fs' path = Some bytes" if "overwrite_file msg io tmp path bytes fs = (fs', Some (Inr ()))" for io bytes fs fs'
    using that by (auto simp: overwrite_file_def split: option.splits if_splits)
  show "map_of fs' path \<in> {map_of fs path, Some bytes}" if "overwrite_file msg io tmp path bytes fs = (fs', r)" for io bytes fs fs' r
    using that fs_after_path[OF assms] assms
    by (auto simp: overwrite_file_def split: option.splits if_splits)
  show "map_of fs' q = map_of fs q" if "overwrite_file msg io tmp path bytes fs = (fs', r)" "q \<noteq> path" "q \<notin> {tmp}" for io bytes fs fs' r q
    using that by (auto simp: overwrite_file_def fs_after_other split: option.splits if_splits)
qed

end
