(* ===== verification/Wal_Identity.thy ===== *)
theory Wal_Identity
  imports Durable_File Write_Protocol
begin

text \<open>The durable identity of a WAL root (\<open>crates/teodb-storage/src/wal/identity.rs\<close>): reading and validating the
  identity file, advancing the writer epoch on every open, reconciling it with an epoch observed in
  the catalog, and refusing to invent an identity for a root that already holds durable data.

  The JSON codec of the identity file is a parameter (\<open>identity_codec\<close>).\<close>

section \<open>Model\<close>

definition IDENTITY_FILE :: string where
  "IDENTITY_FILE = ''writer-identity.json''"

definition IDENTITY_VERSION :: nat where
  "IDENTITY_VERSION = 1"

definition MAX_IDENTITY_FILE_BYTES :: nat where
  "MAX_IDENTITY_FILE_BYTES = 16 * 1024"

record WalIdentityConfig =
  ic_cluster_id :: "uuid option"
  ic_node_id :: "string option"
  ic_writer_slot :: "string option"

record IdentityFile =
  idf_version :: nat
  idf_cluster_id :: uuid
  idf_writer_slot :: string
  idf_writer_id :: uuid
  idf_epoch :: nat

record identity_codec =
  idc_enc :: "IdentityFile \<Rightarrow> byte list option"
  idc_dec :: "byte list \<Rightarrow> IdentityFile option"

definition identity_codec_ok :: "identity_codec \<Rightarrow> bool" where
  "identity_codec_ok C \<longleftrightarrow> (\<forall>i b. idc_enc C i = Some b \<longrightarrow> idc_dec C b = Some i)"

record WalIdentity =
  wi_resolved :: ResolvedIdentity

definition identity_msg :: "fs_step \<Rightarrow> string" where
  "identity_msg step =
    (case step of
       CreateTmp \<Rightarrow> ''create writer identity temp file'' | WriteTmp \<Rightarrow> ''write writer identity temp file''
     | SyncTmp \<Rightarrow> ''fsync writer identity temp file'' | RenameTmp \<Rightarrow> ''rename writer identity''
     | SyncDir \<Rightarrow> ''fsync WAL root after identity rename'')"

definition identity_tmp :: "text_codec \<Rightarrow> uuid \<Rightarrow> string" where
  "identity_tmp T u = ''.'' @ IDENTITY_FILE @ ''.'' @ uuid_fmt T u @ ''.tmp''"

definition persist_identity ::
    "text_codec \<Rightarrow> identity_codec \<Rightarrow> uuid \<times> io_plan \<Rightarrow> IdentityFile \<Rightarrow> fs \<Rightarrow> unit fs_result" where
  "persist_identity T C plan identity fs =
    (case idc_enc C identity of
       None \<Rightarrow> (fs, Some (Inl (wal_source ''serialize writer identity'' [])))
     | Some bytes \<Rightarrow>
         (case plan of (u, io) \<Rightarrow> replace_file identity_msg io (identity_tmp T u) IDENTITY_FILE bytes fs))"

definition read_identity :: "text_codec \<Rightarrow> identity_codec \<Rightarrow> fs \<Rightarrow> IdentityFile teo_result" where
  "read_identity T C fs =
    (case map_of fs IDENTITY_FILE of
       None \<Rightarrow> Inl (wal_source ''stat writer identity'' [])
     | Some bytes \<Rightarrow>
         if length bytes = 0 then Inl (wal ''writer identity file is empty'')
         else if length bytes > MAX_IDENTITY_FILE_BYTES then Inl (wal ''writer identity file exceeds 16384 bytes'')
         else (case idc_dec C bytes of
             None \<Rightarrow> Inl (wal_source ''parse writer identity'' [])
           | Some i \<Rightarrow>
               if idf_version i \<noteq> IDENTITY_VERSION then Inl (wal ''unsupported writer identity version'')
               else if is_nil (idf_cluster_id i) then Inl (wal ''writer identity contains a nil cluster UUID'')
               else if is_nil (idf_writer_id i) then Inl (wal ''writer identity contains a nil writer UUID'')
               else (case WriterSlot_new (idf_writer_slot i) of
                   Inl e \<Rightarrow> Inl (wal ''writer identity contains an invalid writer slot'')
                 | Inr _ \<Rightarrow>
                     if idf_writer_id i \<noteq> WriterId_derive T (idf_cluster_id i) (idf_writer_slot i)
                     then Inl (wal ''writer identity is internally inconsistent'')
                     else Inr i)))"

definition validate_configured_identity :: "WalIdentityConfig \<Rightarrow> unit teo_result" where
  "validate_configured_identity cfg =
    (if (case ic_cluster_id cfg of None \<Rightarrow> False | Some c \<Rightarrow> is_nil c)
     then Inl (Config ''configured cluster UUID must not be nil'')
     else
       bind_r (case ic_node_id cfg of None \<Rightarrow> Inr () | Some n \<Rightarrow> map_sum id (\<lambda>_. ()) (NodeId_new n)) (\<lambda>_.
       case ic_writer_slot cfg of None \<Rightarrow> Inr () | Some s \<Rightarrow> map_sum id (\<lambda>_. ()) (WriterSlot_new s)))"

definition validate_identity :: "IdentityFile \<Rightarrow> WalIdentityConfig \<Rightarrow> unit teo_result" where
  "validate_identity persisted cfg =
    (if (case ic_cluster_id cfg of None \<Rightarrow> False | Some c \<Rightarrow> c \<noteq> idf_cluster_id persisted)
     then Inl (Config ''WAL cluster identity mismatch'')
     else if (case ic_writer_slot cfg of None \<Rightarrow> False | Some s \<Rightarrow> s \<noteq> idf_writer_slot persisted)
     then Inl (Config ''WAL writer slot mismatch'')
     else Inr ())"

definition durable_files :: "fs \<Rightarrow> string list" where
  "durable_files fs = map fst (filter (\<lambda>(name, bytes).
    (ends_with name ''.wal'' \<or> name = ''committed.json'') \<and> length bytes > 0) fs)"

definition ensure_uninitialized_root :: "fs \<Rightarrow> unit teo_result" where
  "ensure_uninitialized_root fs =
    (if durable_files fs = [] then Inr ()
     else Inl (wal ''writer identity is missing while durable WAL state exists''))"

text \<open>\<open>fresh\<close> is the version-7 UUID of a root without a configured cluster; \<open>first\<close> and \<open>second\<close> are the plans of
  the initial write and of the epoch advance.\<close>

definition identity_create ::
    "text_codec \<Rightarrow> identity_codec \<Rightarrow> WalIdentityConfig \<Rightarrow> uuid \<Rightarrow> uuid \<times> io_plan \<Rightarrow> fs \<Rightarrow> IdentityFile fs_result" where
  "identity_create T C cfg fresh first fs =
    bind_io (lift_io (ensure_uninitialized_root fs) fs) (\<lambda>_ fs.
      let cluster_id = (case ic_cluster_id cfg of None \<Rightarrow> fresh | Some c \<Rightarrow> c) in
      bind_io (lift_io (WriterSlot_new ''standalone'') fs) (\<lambda>standalone fs.
        let writer_slot = (case ic_writer_slot cfg of None \<Rightarrow> standalone | Some s \<Rightarrow> s);
            identity = \<lparr>idf_version = IDENTITY_VERSION, idf_cluster_id = cluster_id,
              idf_writer_slot = writer_slot, idf_writer_id = WriterId_derive T cluster_id writer_slot,
              idf_epoch = 0\<rparr>
        in bind_io (persist_identity T C first identity fs) (\<lambda>_ fs. (fs, Some (Inr identity)))))"

definition identity_open ::
    "text_codec \<Rightarrow> identity_codec \<Rightarrow> WalIdentityConfig \<Rightarrow> uuid \<Rightarrow> uuid \<times> io_plan \<Rightarrow> uuid \<times> io_plan
      \<Rightarrow> fs \<Rightarrow> WalIdentity fs_result" where
  "identity_open T C cfg fresh first second fs =
    bind_io (lift_io (validate_configured_identity cfg) fs) (\<lambda>_ fs.
    bind_io (lift_io (NodeId_new ''standalone'') fs) (\<lambda>standalone fs.
    let node_id = (case ic_node_id cfg of None \<Rightarrow> standalone | Some n \<Rightarrow> n) in
    bind_io (if map_of fs IDENTITY_FILE \<noteq> None then lift_io (read_identity T C fs) fs
             else identity_create T C cfg fresh first fs) (\<lambda>persisted fs.
    bind_io (lift_io (validate_identity persisted cfg) fs) (\<lambda>_ fs.
    bind_io (lift_io (checked_next (idf_epoch persisted)) fs) (\<lambda>epoch fs.
    let persisted = persisted\<lparr>idf_epoch := epoch\<rparr> in
    bind_io (persist_identity T C second persisted fs) (\<lambda>_ fs.
    (fs, Some (Inr \<lparr>wi_resolved =
      \<lparr>ri_cluster_id = idf_cluster_id persisted, ri_node_id = node_id,
       ri_writer_slot = idf_writer_slot persisted, ri_writer_id = idf_writer_id persisted,
       ri_writer_epoch = epoch\<rparr>\<rparr>))))))))"

definition identity_epoch :: "WalIdentity \<Rightarrow> nat" where
  "identity_epoch w = ri_writer_epoch (wi_resolved w)"

definition observe_epoch_and_bump ::
    "text_codec \<Rightarrow> identity_codec \<Rightarrow> uuid \<times> io_plan \<Rightarrow> nat \<Rightarrow> WalIdentity \<Rightarrow> fs \<Rightarrow> WalIdentity fs_result" where
  "observe_epoch_and_bump T C plan observed w fs =
    (if identity_epoch w > observed then (fs, Some (Inr w))
     else
       bind_io (lift_io (checked_next observed) fs) (\<lambda>epoch fs.
       let r = wi_resolved w;
           persisted = \<lparr>idf_version = IDENTITY_VERSION, idf_cluster_id = ri_cluster_id r,
             idf_writer_slot = ri_writer_slot r, idf_writer_id = ri_writer_id r, idf_epoch = epoch\<rparr>
       in bind_io (persist_identity T C plan persisted fs) (\<lambda>_ fs.
          (fs, Some (Inr (w\<lparr>wi_resolved := r\<lparr>ri_writer_epoch := epoch\<rparr>\<rparr>))))))"

section \<open>The identity file is replaced atomically\<close>

lemma identity_tmp_other: "identity_tmp T u \<noteq> IDENTITY_FILE"
  by (simp add: identity_tmp_def IDENTITY_FILE_def)

interpretation idf: atomic_replace "\<lambda>(u, io). replace_file identity_msg io (identity_tmp T u) IDENTITY_FILE"
    IDENTITY_FILE "range (identity_tmp T)" for T
  by (rule replace_file_atomic[OF identity_tmp_other])

lemma persist_identity_stored:
  assumes "persist_identity T C plan i fs = (fs', Some (Inr ()))"
  shows "map_of fs' IDENTITY_FILE = idc_enc C i \<and> idc_enc C i \<noteq> None"
proof (cases plan)
  case (Pair u io)
  then show ?thesis using assms idf.stored[of T "(u, io)"] by (auto simp: persist_identity_def split: option.splits)
qed

lemma persist_identity_old_or_new:
  assumes "persist_identity T C plan i fs = (fs', r)"
  shows "map_of fs' IDENTITY_FILE = map_of fs IDENTITY_FILE \<or>
    map_of fs' IDENTITY_FILE = idc_enc C i \<and> idc_enc C i \<noteq> None"
proof (cases plan)
  case (Pair u io)
  show ?thesis
  proof (cases "idc_enc C i")
    case (Some bytes)
    then have "map_of fs' IDENTITY_FILE \<in> {map_of fs IDENTITY_FILE, Some bytes}"
      using assms idf.old_or_new[of T "(u, io)" bytes fs fs' r] by (simp add: persist_identity_def Pair)
    then show ?thesis using Some by auto
  qed (use assms in \<open>simp add: persist_identity_def\<close>)
qed

section \<open>Epoch fencing\<close>

text \<open>\<open>epoch_at_least C fs n\<close>: the identity file decodes to an identity of epoch at least \<open>n\<close>.\<close>

definition epoch_at_least :: "identity_codec \<Rightarrow> fs \<Rightarrow> nat \<Rightarrow> bool" where
  "epoch_at_least C fs n \<longleftrightarrow>
    (case map_of fs IDENTITY_FILE of None \<Rightarrow> False
     | Some b \<Rightarrow> (case idc_dec C b of None \<Rightarrow> False | Some i \<Rightarrow> n \<le> idf_epoch i))"

lemma persist_keeps_epoch:
  assumes ok: "identity_codec_ok C" and at: "epoch_at_least C fs n" and le: "n \<le> idf_epoch i"
  shows "epoch_at_least C (fst (persist_identity T C plan i fs)) n"
proof -
  obtain fs' r where r: "persist_identity T C plan i fs = (fs', r)" by fastforce
  show ?thesis using persist_identity_old_or_new[OF r] ok at le
    by (auto simp: epoch_at_least_def r identity_codec_ok_def split: option.splits)
qed

lemma persist_sets_epoch:
  assumes "identity_codec_ok C" "persist_identity T C plan i fs = (fs', Some (Inr ()))"
  shows "epoch_at_least C fs' (idf_epoch i)"
  using assms persist_identity_stored[OF assms(2)]
  by (auto simp: epoch_at_least_def identity_codec_ok_def)

lemma checked_next_Inr [simp]: "checked_next e = Inr e' \<longleftrightarrow> e' = Suc e \<and> Suc e < u64_bound"
  by (auto simp: checked_next_def)

lemma read_identity_dec:
  "read_identity T C fs = Inr i \<Longrightarrow> \<exists>b. map_of fs IDENTITY_FILE = Some b \<and> idc_dec C b = Some i"
  by (auto simp: read_identity_def split: option.splits if_splits sum.splits)

text \<open>A successful open returns a strictly larger epoch than the one on disk and stores it.\<close>

lemma open_epoch:
  assumes ok: "identity_codec_ok C" and at: "epoch_at_least C fs n"
    and op: "identity_open T C cfg fresh first second fs = (fs', Some (Inr w))"
  shows "n < identity_epoch w \<and> epoch_at_least C fs' (identity_epoch w)"
proof -
  have present: "map_of fs IDENTITY_FILE \<noteq> None" using at by (auto simp: epoch_at_least_def split: option.splits)
  obtain p where p: "read_identity T C fs = Inr p" "identity_epoch w = Suc (idf_epoch p)"
    "persist_identity T C second (p\<lparr>idf_epoch := Suc (idf_epoch p)\<rparr>) fs = (fs', Some (Inr ()))"
    using op present by (auto simp: identity_open_def bind_io_Inr Let_def identity_epoch_def)
  have "n \<le> idf_epoch p" using read_identity_dec[OF p(1)] at by (auto simp: epoch_at_least_def)
  then show ?thesis using p(2) persist_sets_epoch[OF ok p(3)] by simp
qed

lemma open_stores_epoch:
  assumes ok: "identity_codec_ok C" and op: "identity_open T C cfg fresh first second fs = (fs', Some (Inr w))"
  shows "epoch_at_least C fs' (identity_epoch w)"
proof -
  obtain p fs1 where "identity_epoch w = Suc (idf_epoch p)"
    "persist_identity T C second (p\<lparr>idf_epoch := Suc (idf_epoch p)\<rparr>) fs1 = (fs', Some (Inr ()))"
    using op by (auto simp: identity_open_def bind_io_Inr Let_def identity_epoch_def)
  then show ?thesis using persist_sets_epoch[OF ok] by fastforce
qed

lemma failed_open_keeps_epoch:
  assumes ok: "identity_codec_ok C" and at: "epoch_at_least C fs n"
  shows "epoch_at_least C (fst (identity_open T C cfg fresh first second fs)) n"
proof -
  have present: "map_of fs IDENTITY_FILE \<noteq> None" using at by (auto simp: epoch_at_least_def split: option.splits)
  have le: "n \<le> idf_epoch p" if "read_identity T C fs = Inr p" for p
    using read_identity_dec[OF that] at by (auto simp: epoch_at_least_def)
  have persist: "epoch_at_least C (fst (persist_identity T C second (p\<lparr>idf_epoch := Suc (idf_epoch p)\<rparr>) fs)) n"
    if "read_identity T C fs = Inr p" for p
    using le[OF that] by (intro persist_keeps_epoch[OF ok at]) simp
  show ?thesis unfolding identity_open_def Let_def
    using present at persist by (auto intro!: bind_io_keeps[where P = "\<lambda>fs. epoch_at_least C fs n"])
qed

text \<open>The life of a WAL root: opens (each one a process start, so the previous handle is gone) and epoch
  reconciliations on the current handle, all with arbitrary plans. The last component collects every
  epoch that was handed to a caller.\<close>

datatype id_event =
    OpenEvent WalIdentityConfig uuid "uuid \<times> io_plan" "uuid \<times> io_plan"
  | BumpEvent nat "uuid \<times> io_plan"

type_synonym id_state = "fs \<times> WalIdentity option \<times> nat list"

definition returned :: "WalIdentity teo_result option \<Rightarrow> WalIdentity option" where
  "returned r = (case r of Some (Inr w) \<Rightarrow> Some w | _ \<Rightarrow> None)"

fun id_step :: "text_codec \<Rightarrow> identity_codec \<Rightarrow> id_event \<Rightarrow> id_state \<Rightarrow> id_state" where
  "id_step T C (OpenEvent cfg fresh first second) (fs, h, es) =
    (case identity_open T C cfg fresh first second fs of (fs', r) \<Rightarrow>
       (case returned r of None \<Rightarrow> (fs', None, es) | Some w \<Rightarrow> (fs', Some w, identity_epoch w # es)))"
| "id_step T C (BumpEvent observed plan) (fs, None, es) = (fs, None, es)"
| "id_step T C (BumpEvent observed plan) (fs, Some w, es) =
    (case observe_epoch_and_bump T C plan observed w fs of (fs', r) \<Rightarrow>
       (case returned r of None \<Rightarrow> (fs', Some w, es) | Some w' \<Rightarrow> (fs', Some w', identity_epoch w' # es)))"

definition id_inv :: "identity_codec \<Rightarrow> id_state \<Rightarrow> bool" where
  "id_inv C s = (case s of (fs, h, es) \<Rightarrow>
    (\<forall>e \<in> set es. epoch_at_least C fs e) \<and>
    (case h of None \<Rightarrow> True | Some w \<Rightarrow> identity_epoch w \<in> set es \<and> (\<forall>e \<in> set es. e \<le> identity_epoch w)))"

lemma returned_Some: "returned r = Some w \<longleftrightarrow> r = Some (Inr w)"
  by (auto simp: returned_def split: option.splits sum.splits)

lemma epoch_at_least_mono: "epoch_at_least C fs n \<Longrightarrow> m \<le> n \<Longrightarrow> epoch_at_least C fs m"
  by (auto simp: epoch_at_least_def split: option.splits)

lemma bump_ok:
  assumes ok: "identity_codec_ok C" and at: "epoch_at_least C fs (identity_epoch w)"
    and b: "observe_epoch_and_bump T C plan observed w fs = (fs', Some (Inr w'))"
  shows "identity_epoch w \<le> identity_epoch w' \<and> observed < identity_epoch w' \<and> epoch_at_least C fs' (identity_epoch w')"
proof (cases "identity_epoch w > observed")
  case True
  then show ?thesis using b at by (simp add: observe_epoch_and_bump_def)
next
  case False
  then obtain i where i: "persist_identity T C plan i fs = (fs', Some (Inr ()))" "idf_epoch i = Suc observed"
    "identity_epoch w' = Suc observed"
    using b by (auto simp: observe_epoch_and_bump_def bind_io_Inr Let_def identity_epoch_def)
  then show ?thesis using False persist_sets_epoch[OF ok i(1)] by simp
qed

lemma bump_keeps_epoch:
  assumes ok: "identity_codec_ok C" and at: "epoch_at_least C fs n" and le: "n \<le> identity_epoch w"
  shows "epoch_at_least C (fst (observe_epoch_and_bump T C plan observed w fs)) n"
proof (cases "identity_epoch w > observed \<or> \<not> Suc observed < u64_bound")
  case True
  then show ?thesis using at
    by (auto simp: observe_epoch_and_bump_def checked_next_def bind_io_def lift_io_def)
next
  case False
  let ?i = "\<lparr>idf_version = IDENTITY_VERSION, idf_cluster_id = ri_cluster_id (wi_resolved w),
    idf_writer_slot = ri_writer_slot (wi_resolved w), idf_writer_id = ri_writer_id (wi_resolved w),
    idf_epoch = Suc observed\<rparr>"
  have "fst (observe_epoch_and_bump T C plan observed w fs) = fst (persist_identity T C plan ?i fs)"
    using False by (auto simp: observe_epoch_and_bump_def checked_next_def bind_io_def lift_io_def Let_def
        split: option.splits sum.splits)
  then show ?thesis using persist_keeps_epoch[OF ok at, of ?i] False le by simp
qed

lemma id_step_inv:
  assumes ok: "identity_codec_ok C" and inv: "id_inv C (fs, h, es)"
  shows "id_inv C (id_step T C ev (fs, h, es))"
proof (cases ev)
  case (OpenEvent cfg fresh first second)
  obtain fs' r where r: "identity_open T C cfg fresh first second fs = (fs', r)" by fastforce
  have at: "epoch_at_least C fs e" if "e \<in> set es" for e using inv that by (simp add: id_inv_def)
  show ?thesis
  proof (cases "returned r")
    case None
    have "epoch_at_least C fs' e" if "e \<in> set es" for e
      using failed_open_keeps_epoch[OF ok at[OF that], of T cfg fresh first second] by (simp add: r)
    then show ?thesis by (simp add: OpenEvent r None id_inv_def)
  next
    case (Some w)
    then have w: "identity_open T C cfg fresh first second fs = (fs', Some (Inr w))" by (simp add: r returned_Some)
    have lt: "e < identity_epoch w" if "e \<in> set es" for e using open_epoch[OF ok at[OF that] w] by simp
    have "epoch_at_least C fs' (identity_epoch w)" by (rule open_stores_epoch[OF ok w])
    then show ?thesis using lt by (auto simp: OpenEvent r Some id_inv_def intro: epoch_at_least_mono less_imp_le)
  qed
next
  case (BumpEvent observed plan)
  show ?thesis
  proof (cases h)
    case (Some w)
    have w: "identity_epoch w \<in> set es" "\<And>e. e \<in> set es \<Longrightarrow> e \<le> identity_epoch w"
      "\<And>e. e \<in> set es \<Longrightarrow> epoch_at_least C fs e" using inv by (auto simp: id_inv_def Some)
    obtain fs' r where r: "observe_epoch_and_bump T C plan observed w fs = (fs', r)" by fastforce
    show ?thesis
    proof (cases "returned r")
      case None
      have "epoch_at_least C fs' e" if "e \<in> set es" for e
        using bump_keeps_epoch[OF ok w(3)[OF that] w(2)[OF that], of T plan observed] by (simp add: r)
      then show ?thesis using w by (simp add: BumpEvent Some r None id_inv_def)
    next
      case (Some w')
      then have w': "observe_epoch_and_bump T C plan observed w fs = (fs', Some (Inr w'))" by (simp add: r returned_Some)
      from bump_ok[OF ok w(3)[OF w(1)] this] w(2) show ?thesis
        by (auto simp: BumpEvent \<open>h = Some w\<close> r Some id_inv_def intro: epoch_at_least_mono order_trans)
    qed
  qed (use inv in \<open>simp add: BumpEvent\<close>)
qed

lemma id_run_inv:
  assumes ok: "identity_codec_ok C" and inv: "id_inv C s"
  shows "id_inv C (fold (id_step T C) evs s)"
  using inv
proof (induction evs arbitrary: s)
  case (Cons ev evs)
  obtain fs h es where s: "s = (fs, h, es)" by (cases s)
  show ?case using Cons.IH[OF id_step_inv[OF ok, of fs h es]] Cons.prems by (simp add: s)
qed simp

section \<open>Properties\<close>

text \<open>Property C5. Epoch fencing: over the whole life of a WAL root, through any number of opens and epoch
  reconciliations whose file operations may fail or crash at any point, a successful open hands out
  an epoch strictly larger than every epoch handed out before. Two processes never share an epoch.\<close>

theorem open_fences_epochs:
  assumes "identity_codec_ok C"
    and "fold (id_step T C) evs (fs0, None, []) = (fs, h, es)"
    and "identity_open T C cfg fresh first second fs = (fs', Some (Inr w))"
  shows "\<forall>e \<in> set es. e < identity_epoch w"
proof
  fix e assume "e \<in> set es"
  have "id_inv C (fs, h, es)" using id_run_inv[OF assms(1), of "(fs0, None, [])" T evs] assms(2) by (simp add: id_inv_def)
  then have "epoch_at_least C fs e" using \<open>e \<in> set es\<close> by (simp add: id_inv_def)
  then show "e < identity_epoch w" using open_epoch[OF assms(1) _ assms(3)] by blast
qed

text \<open>Property C13. Identities are never invented over existing data: when the identity file is missing and the
  root holds a non-empty segment or checkpoint, an open fails and leaves the directory as it was.\<close>

theorem open_fails_closed:
  assumes "map_of fs IDENTITY_FILE = None" "(name, bytes) \<in> set fs" "bytes \<noteq> []"
    "ends_with name ''.wal'' \<or> name = ''committed.json''"
  shows "\<exists>e. identity_open T C cfg fresh first second fs = (fs, Some (Inl e))"
proof -
  have "durable_files fs \<noteq> []" using assms(2-4) by (force simp: durable_files_def filter_empty_conv)
  then show ?thesis using assms(1)
    by (auto simp: identity_open_def identity_create_def ensure_uninitialized_root_def bind_io_def lift_io_def Let_def
        split: sum.splits)
qed

subsection \<open>Witnesses\<close>

definition demo_identity :: "nat \<Rightarrow> IdentityFile" where
  "demo_identity e = \<lparr>idf_version = IDENTITY_VERSION, idf_cluster_id = 5, idf_writer_slot = ''standalone'',
    idf_writer_id = 7, idf_epoch = e\<rparr>"

definition demo_identity_codec :: identity_codec where
  "demo_identity_codec = \<lparr>
    idc_enc = (\<lambda>i. if i = demo_identity (idf_epoch i) \<and> idf_epoch i < 256 then Some [of_nat (idf_epoch i)] else None),
    idc_dec = (\<lambda>b. case b of [x] \<Rightarrow> Some (demo_identity (unat x)) | _ \<Rightarrow> None)\<rparr>"

definition demo_config :: WalIdentityConfig where
  "demo_config = \<lparr>ic_cluster_id = None, ic_node_id = None, ic_writer_slot = None\<rparr>"

definition demo_handle :: "nat \<Rightarrow> WalIdentity" where
  "demo_handle e = \<lparr>wi_resolved = \<lparr>ri_cluster_id = 5, ri_node_id = ''standalone'',
    ri_writer_slot = ''standalone'', ri_writer_id = 7, ri_writer_epoch = e\<rparr>\<rparr>"

lemma demo_identity_codec_ok: "identity_codec_ok demo_identity_codec"
  by (auto simp: identity_codec_ok_def demo_identity_codec_def unat_of_nat split: if_splits)

lemma demo_names: "NodeId_new ''standalone'' = Inr ''standalone''" "WriterSlot_new ''standalone'' = Inr ''standalone''"
  by code_simp+

lemma demo_persist:
  assumes "e < 256" "map_of fs (identity_tmp demo_text u) = None"
  shows "persist_identity demo_text demo_identity_codec (u, io_good) (demo_identity e) fs =
    (al_put IDENTITY_FILE [of_nat e] (al_del (identity_tmp demo_text u) fs), Some (Inr ()))"
  using assms
  by (simp add: persist_identity_def demo_identity_codec_def replace_file_def io_good_def demo_identity_def)

lemma demo_read:
  assumes "e < 256" "map_of fs IDENTITY_FILE = Some [of_nat e]"
  shows "read_identity demo_text demo_identity_codec fs = Inr (demo_identity e)"
proof -
  have "unat (of_nat e :: byte) = e" using assms(1) by (simp add: unat_of_nat)
  then show ?thesis using assms(2)
    by (simp add: read_identity_def demo_identity_codec_def demo_identity_def demo_names is_nil_def
        MAX_IDENTITY_FILE_BYTES_def WriterId_derive_def demo_text_def)
qed

lemma demo_validate: "validate_configured_identity demo_config = Inr ()" "validate_identity i demo_config = Inr ()"
  by (simp_all add: validate_configured_identity_def validate_identity_def demo_config_def)

lemma demo_create:
  "identity_create demo_text demo_identity_codec demo_config 5 (1, io_good) [] =
    ([(IDENTITY_FILE, [0])], Some (Inr (demo_identity 0)))"
proof -
  have i: "\<lparr>idf_version = IDENTITY_VERSION, idf_cluster_id = 5, idf_writer_slot = ''standalone'',
      idf_writer_id = WriterId_derive demo_text 5 ''standalone'', idf_epoch = 0\<rparr> = demo_identity 0"
    by (simp add: demo_identity_def WriterId_derive_def demo_text_def)
  show ?thesis
    by (simp add: identity_create_def ensure_uninitialized_root_def durable_files_def bind_io_lift demo_names
        demo_config_def Let_def i demo_persist bind_io_def al_del_def)
qed

lemma demo_next: "checked_next 0 = Inr 1" "checked_next 1 = Inr 2"
  by (simp_all add: checked_next_def u64_bound_def)

lemma demo_epoch: "demo_identity e\<lparr>idf_epoch := e'\<rparr> = demo_identity e'" "idf_epoch (demo_identity e) = e"
  "idf_cluster_id (demo_identity e) = 5" "idf_writer_slot (demo_identity e) = ''standalone''"
  "idf_writer_id (demo_identity e) = 7"
  by (simp_all add: demo_identity_def)

lemma demo_tmp: "identity_tmp T u = IDENTITY_FILE \<longleftrightarrow> False" "IDENTITY_FILE = identity_tmp T u \<longleftrightarrow> False"
  using identity_tmp_other by metis+

lemma demo_first_open:
  "identity_open demo_text demo_identity_codec demo_config 5 (1, io_good) (2, io_good) [] =
    ([(IDENTITY_FILE, [1])], Some (Inr (demo_handle 1)))"
  using demo_persist[of 1 "[(IDENTITY_FILE, [0])]" 2]
  by (simp add: identity_open_def bind_io_lift demo_validate demo_names Let_def demo_create bind_io_def demo_next demo_epoch
      demo_tmp al_del_def demo_handle_def demo_config_def[THEN arg_cong, of ic_node_id])

lemma demo_second_open:
  "identity_open demo_text demo_identity_codec demo_config 5 (1, io_good) (2, io_good) [(IDENTITY_FILE, [1])] =
    ([(IDENTITY_FILE, [2])], Some (Inr (demo_handle 2)))"
  using demo_persist[of 2 "[(IDENTITY_FILE, [1])]" 2] demo_read[of 1 "[(IDENTITY_FILE, [1])]"]
  by (simp add: identity_open_def bind_io_lift demo_validate demo_names Let_def demo_next demo_epoch bind_io_def
      demo_tmp al_del_def demo_handle_def demo_config_def[THEN arg_cong, of ic_node_id] One_nat_def[symmetric]
      del: One_nat_def)

theorem open_fences_epochs_witness:
  "identity_open demo_text demo_identity_codec demo_config 5 (1, io_good) (2, io_good) [(IDENTITY_FILE, [1])] =
      ([(IDENTITY_FILE, [2])], Some (Inr (demo_handle 2))) \<and> 1 < identity_epoch (demo_handle 2)"
proof -
  have "fold (id_step demo_text demo_identity_codec) [OpenEvent demo_config 5 (1, io_good) (2, io_good)] ([], None, []) =
      ([(IDENTITY_FILE, [1])], Some (demo_handle 1), [1])"
    by (simp add: demo_first_open returned_def) (simp add: identity_epoch_def demo_handle_def)
  from open_fences_epochs[OF demo_identity_codec_ok this demo_second_open] demo_second_open
  show ?thesis by simp
qed

theorem open_fails_closed_witness:
  "\<exists>e. identity_open demo_text demo_identity_codec demo_config 5 (1, io_good) (2, io_good) [(''00000000000000000001.wal'', [1])] =
    ([(''00000000000000000001.wal'', [1])], Some (Inl e))"
  by (rule open_fails_closed[where name = "''00000000000000000001.wal''" and bytes = "[1]"])
    (simp_all add: IDENTITY_FILE_def ends_with_def)

end
