(* ===== verification/Wal_Lease.thy ===== *)
theory Wal_Lease
  imports Core_Types
begin

text \<open>The exclusive lease on a WAL directory (\<open>acquire_lease_blocking\<close>, \<open>unlock_lease\<close> of
  \<open>crates/teodb-storage/src/wal/state.rs\<close> and \<open>release_lease\<close> of \<open>wal/manager.rs\<close>).

  A lock belongs to a file (an inode), not to its name. The directory maps the name \<open>.lease\<close> to an inode or to
  nothing; each system call of the two operations is one step, so that processes interleave between
  them. Writing and syncing the diagnostic content of the file has no influence on the lock and is left to an oracle.\<close>

section \<open>Model\<close>

type_synonym process = nat
type_synonym inode = nat

datatype lease_pc = Out | Opened inode | Holding inode | Unlocked

record lease_dir =
  ld_entry :: "inode option"
  ld_next :: inode
  ld_lock :: "inode \<Rightarrow> process option"
  ld_pc :: "process \<Rightarrow> lease_pc"

definition lease_init :: lease_dir where
  "lease_init = \<lparr>ld_entry = None, ld_next = 0, ld_lock = (\<lambda>_. None), ld_pc = (\<lambda>_. Out)\<rparr>"

text \<open>\<open>OpenOptions\<close> with \<open>create(true)\<close>: the existing file, or a new one.\<close>

definition lease_open :: "process \<Rightarrow> lease_dir \<Rightarrow> lease_dir" where
  "lease_open p d =
    (case ld_entry d of
       Some i \<Rightarrow> d\<lparr>ld_pc := (ld_pc d)(p := Opened i)\<rparr>
     | None \<Rightarrow> d\<lparr>ld_entry := Some (ld_next d), ld_next := ld_next d + 1, ld_pc := (ld_pc d)(p := Opened (ld_next d))\<rparr>)"

text \<open>\<open>try_lock_exclusive\<close> on the opened file, then truncate, write and sync it. A failure closes the file, which
  releases the lock if it was taken.\<close>

definition lease_lock :: "process \<Rightarrow> bool \<Rightarrow> inode \<Rightarrow> lease_dir \<Rightarrow> lease_dir \<times> unit teo_result" where
  "lease_lock p write_ok i d =
    (if ld_lock d i \<noteq> None
     then (d\<lparr>ld_pc := (ld_pc d)(p := Out)\<rparr>, Inl (wal ''WAL directory is locked by another process''))
     else if write_ok
     then (d\<lparr>ld_lock := (ld_lock d)(i := Some p), ld_pc := (ld_pc d)(p := Holding i)\<rparr>, Inr ())
     else (d\<lparr>ld_pc := (ld_pc d)(p := Out)\<rparr>, Inl (wal_source ''failed to write WAL lease file'' [])))"

text \<open>The two system calls of \<open>release_lease\<close>; dropping the manager only closes the file.\<close>

definition lease_unlock :: "process \<Rightarrow> inode \<Rightarrow> lease_dir \<Rightarrow> lease_dir" where
  "lease_unlock p i d = d\<lparr>ld_lock := (ld_lock d)(i := None), ld_pc := (ld_pc d)(p := Unlocked)\<rparr>"

definition lease_remove :: "process \<Rightarrow> lease_dir \<Rightarrow> lease_dir" where
  "lease_remove p d = d\<lparr>ld_entry := None, ld_pc := (ld_pc d)(p := Out)\<rparr>"

inductive lease_step :: "bool \<Rightarrow> lease_dir \<Rightarrow> lease_dir \<Rightarrow> bool" for removing :: bool where
  open_step: "ld_pc d p = Out \<Longrightarrow> lease_step removing d (lease_open p d)"
| lock_step: "ld_pc d p = Opened i \<Longrightarrow> lease_step removing d (fst (lease_lock p write_ok i d))"
| unlock_step: "ld_pc d p = Holding i \<Longrightarrow> lease_step removing d (lease_unlock p i d)"
| remove_step: "ld_pc d p = Unlocked \<Longrightarrow> removing \<Longrightarrow> lease_step removing d (lease_remove p d)"
| drop_step: "ld_pc d p = Unlocked \<Longrightarrow> lease_step removing d (d\<lparr>ld_pc := (ld_pc d)(p := Out)\<rparr>)"

definition lease_run :: "bool \<Rightarrow> lease_dir \<Rightarrow> bool" where
  "lease_run removing d \<longleftrightarrow> (lease_step removing)\<^sup>*\<^sup>* lease_init d"

definition holds_lease :: "lease_dir \<Rightarrow> process \<Rightarrow> bool" where
  "holds_lease d p = (case ld_pc d p of Holding _ \<Rightarrow> True | _ \<Rightarrow> False)"

section \<open>Exclusion while the file stays\<close>

definition lease_inv :: "lease_dir \<Rightarrow> bool" where
  "lease_inv d \<longleftrightarrow>
    (\<forall>p i. ld_pc d p = Opened i \<or> ld_pc d p = Holding i \<longrightarrow> ld_entry d = Some i) \<and>
    (\<forall>p i. ld_pc d p = Holding i \<longrightarrow> ld_lock d i = Some p)"

lemma lease_step_inv: "lease_step False d d' \<Longrightarrow> lease_inv d \<Longrightarrow> lease_inv d'"
proof (induction rule: lease_step.induct)
  case (open_step d p)
  then show ?case by (auto simp: lease_inv_def lease_open_def split: option.splits)
next
  case (lock_step d p i write_ok)
  have inv: "ld_pc d q = Opened j \<or> ld_pc d q = Holding j \<Longrightarrow> ld_entry d = Some j" "ld_pc d q = Holding j \<Longrightarrow> ld_lock d j = Some q"
    for q j using lock_step.prems unfolding lease_inv_def by blast+
  have i: "ld_entry d = Some i" using inv(1) lock_step.hyps by blast
  show ?case
    unfolding lease_inv_def lease_lock_def using inv i by (simp, metis option.distinct(1) option.inject)
next
  case (unlock_step d p i)
  have inv: "ld_pc d q = Opened j \<or> ld_pc d q = Holding j \<Longrightarrow> ld_entry d = Some j" "ld_pc d q = Holding j \<Longrightarrow> ld_lock d j = Some q"
    for q j using unlock_step.prems unfolding lease_inv_def by blast+
  have "ld_lock d i = Some p" "ld_entry d = Some i" using inv unlock_step.hyps by blast+
  then show ?case
    unfolding lease_inv_def lease_unlock_def using inv by (simp, metis option.inject)
qed (auto simp: lease_inv_def)

lemma lease_run_inv: "lease_run False d \<Longrightarrow> lease_inv d"
  unfolding lease_run_def
proof (induction rule: rtranclp_induct)
  case base
  show ?case by (simp add: lease_inv_def lease_init_def)
next
  case (step d d')
  then show ?case by (blast intro: lease_step_inv)
qed

section \<open>Properties\<close>

text \<open>Property C28. Mutual exclusion. As long as no process removes the lease file (a process that ends by dropping its
  manager, or by dying, does not), at most one process holds the lease, in every interleaving of the system
  calls of any number of processes.\<close>

theorem lease_exclusive:
  assumes "lease_run False d" "holds_lease d p" "holds_lease d q"
  shows "p = q"
proof -
  obtain i j where i: "ld_pc d p = Holding i" "ld_pc d q = Holding j"
    using assms(2,3) by (auto simp: holds_lease_def split: lease_pc.splits)
  have "lease_inv d" by (rule lease_run_inv[OF assms(1)])
  then have "ld_entry d = Some i" "ld_entry d = Some j" "ld_lock d i = Some p" "ld_lock d j = Some q"
    using i unfolding lease_inv_def by blast+
  then show ?thesis by simp
qed

text \<open>Property C32. \<open>release_lease\<close> removes the file after it gave up the lock. If a second process locks the file between these
  two calls, its lock is on a file without a name, so that a third process creates a new file and locks that: both
  hold the lease.\<close>

theorem release_breaks_exclusion: "\<exists>d. lease_run True d \<and> holds_lease d 1 \<and> holds_lease d 2"
proof -
  define d1 where "d1 = lease_open 0 lease_init"
  define d2 where "d2 = fst (lease_lock 0 True 0 d1)"
  define d3 where "d3 = lease_unlock 0 0 d2"
  define d4 where "d4 = lease_open 1 d3"
  define d5 where "d5 = fst (lease_lock 1 True 0 d4)"
  define d6 where "d6 = lease_remove 0 d5"
  define d7 where "d7 = lease_open 2 d6"
  define d8 where "d8 = fst (lease_lock 2 True 1 d7)"
  note defs = d1_def d2_def d3_def d4_def d5_def d6_def d7_def d8_def lease_init_def lease_open_def lease_lock_def
    lease_unlock_def lease_remove_def
  note into = rtranclp.rtrancl_into_rtrancl[where r = "lease_step True"]
  have s1: "lease_step True lease_init d1" unfolding d1_def by (rule open_step) (simp add: lease_init_def)
  have s2: "lease_step True d1 d2" unfolding d2_def by (rule lock_step) (simp_all add: defs)
  have s3: "lease_step True d2 d3" unfolding d3_def by (rule unlock_step) (simp_all add: defs)
  have s4: "lease_step True d3 d4" unfolding d4_def by (rule open_step) (simp_all add: defs)
  have s5: "lease_step True d4 d5" unfolding d5_def by (rule lock_step) (simp_all add: defs)
  have s6: "lease_step True d5 d6" unfolding d6_def by (rule remove_step) (simp_all add: defs)
  have s7: "lease_step True d6 d7" unfolding d7_def by (rule open_step) (simp_all add: defs)
  have s8: "lease_step True d7 d8" unfolding d8_def by (rule lock_step) (simp_all add: defs)
  have "(lease_step True)\<^sup>*\<^sup>* lease_init d8"
    by (rule into[OF _ s8], rule into[OF _ s7], rule into[OF _ s6], rule into[OF _ s5],
      rule into[OF _ s4], rule into[OF _ s3], rule into[OF _ s2], rule into[OF _ s1], rule rtranclp.rtrancl_refl)
  moreover have "holds_lease d8 1" "holds_lease d8 2" by (simp_all add: holds_lease_def defs)
  ultimately show ?thesis unfolding lease_run_def by blast
qed

theorem lease_exclusive_witness:
  "lease_run False (fst (lease_lock 7 True 0 (lease_open 7 lease_init))) \<and>
    holds_lease (fst (lease_lock 7 True 0 (lease_open 7 lease_init))) 7 \<and> (7 :: nat) = 7"
proof -
  let ?d = "lease_open 7 lease_init" let ?e = "fst (lease_lock 7 True 0 ?d)"
  have s: "lease_step False lease_init ?d" "lease_step False ?d ?e"
    by (rule open_step, simp add: lease_init_def, rule lock_step, simp add: lease_open_def lease_init_def)
  have r: "lease_run False ?e"
    unfolding lease_run_def using s(1) by (rule converse_rtranclp_into_rtranclp) (rule r_into_rtranclp[of "lease_step False", OF s(2)])
  moreover have h: "holds_lease ?e 7" by (simp add: holds_lease_def lease_lock_def lease_open_def lease_init_def)
  ultimately show ?thesis using lease_exclusive[OF r h h] by blast
qed

end
