(* ===== verification/Wal_Writer.thy ===== *)
theory Wal_Writer
  imports Wal_Gc "HOL-Library.Sublist"
begin

text \<open>The writer task of the write-ahead log (\<open>crates/teodb-storage/src/wal/writer.rs\<close>): group commit, rotation, and
  the roll-back of a failed group.

  The open segment file is a file of the disk, which records for every file its content, the length
  that has been synced, and whether the entry in the directory has been synced (which is a separate call, on the directory). What the operating system answers during one group is a \<open>group_io\<close>: whether the segment could be
  opened, which call failed and how many bytes of the group had reached the file by then, and whether the
  truncation of the roll-back worked. A crash keeps the files whose directory entry was synced, and may
  keep others; of each it keeps at least the synced bytes. The channel is the list of commands; how many of them are queued when a group is
  formed is part of the environment, as is \<open>group_io\<close>. Answers are returned in the order of the commands.\<close>

section \<open>Model\<close>

record disk_file =
  dk_name :: string
  dk_data :: "byte list"
  dk_synced :: nat
  dk_linked :: bool

type_synonym disk = "disk_file list"

definition MAX_GROUP_FRAMES :: nat where
  "MAX_GROUP_FRAMES = 128"

datatype WriterCommand = Write "byte list" | Rotate

datatype Ack = WriteAck "unit teo_result" | RotateDone

record OpenSegment =
  og_path :: string
  og_bytes_written :: nat

record SegmentWriter =
  sw_max_segment_bytes :: nat
  sw_fsync_on_append :: bool
  sw_current :: "OpenSegment option"
  sw_next_seq :: nat
  sw_current_seq :: nat

definition SegmentWriter_spawn :: "nat \<Rightarrow> bool \<Rightarrow> nat \<Rightarrow> SegmentWriter" where
  "SegmentWriter_spawn max_segment_bytes fsync_on_append next_seq =
    \<lparr>sw_max_segment_bytes = max_segment_bytes, sw_fsync_on_append = fsync_on_append, sw_current = None,
     sw_next_seq = next_seq, sw_current_seq = 0\<rparr>"

datatype group_step = GWrite | GFlush | GSync

record group_io =
  gi_open_ok :: bool
  gi_fail :: "group_step option"
  gi_written :: nat
  gi_truncate_ok :: bool

definition disk_update :: "string \<Rightarrow> (disk_file \<Rightarrow> disk_file) \<Rightarrow> disk \<Rightarrow> disk" where
  "disk_update path f d = map (\<lambda>x. if dk_name x = path then f x else x) d"

definition disk_open :: "string \<Rightarrow> disk \<Rightarrow> disk" where
  "disk_open path d =
    (if path \<in> dk_name ` set d then d else d @ [\<lparr>dk_name = path, dk_data = [], dk_synced = 0, dk_linked = False\<rparr>])"

definition file_append :: "byte list \<Rightarrow> disk_file \<Rightarrow> disk_file" where
  "file_append bytes f = f\<lparr>dk_data := dk_data f @ bytes\<rparr>"

definition file_sync :: "disk_file \<Rightarrow> disk_file" where
  "file_sync f = f\<lparr>dk_synced := length (dk_data f)\<rparr>"

definition set_len :: "nat \<Rightarrow> disk_file \<Rightarrow> disk_file" where
  "set_len n f = f\<lparr>dk_data := take n (dk_data f), dk_synced := min n (dk_synced f)\<rparr>"

definition close_current :: "SegmentWriter \<Rightarrow> SegmentWriter" where
  "close_current w = w\<lparr>sw_current := None, sw_current_seq := 0\<rparr>"

definition open_segment :: "group_io \<Rightarrow> SegmentWriter \<times> disk \<Rightarrow> (SegmentWriter \<times> disk) \<times> unit teo_result" where
  "open_segment io = (\<lambda>(w, d).
    let seq = sw_next_seq w; w = w\<lparr>sw_next_seq := seq + 1\<rparr>; path = segment_name seq in
    if gi_open_ok io
    then ((w\<lparr>sw_current := Some \<lparr>og_path = path, og_bytes_written = 0\<rparr>, sw_current_seq := seq + 1\<rparr>,
           disk_open path d), Inr ())
    else ((w, d), Inl (wal ''failed to open segment'')))"

definition group_msg :: "group_step \<Rightarrow> string" where
  "group_msg step = (case step of GWrite \<Rightarrow> ''write failed'' | GFlush \<Rightarrow> ''flush failed'' | GSync \<Rightarrow> ''fsync failed'')"

text \<open>The writes of a group: all frames reach the file, or some call fails after a part of them.\<close>

definition write_frames ::
    "group_io \<Rightarrow> bool \<Rightarrow> OpenSegment \<Rightarrow> byte list \<Rightarrow> disk \<Rightarrow> disk \<times> unit teo_result" where
  "write_frames io fsync seg bytes d =
    (let fail = (if gi_fail io = Some GSync \<and> \<not> fsync then None else gi_fail io);
         path = og_path seg; group_start = og_bytes_written seg in
     case fail of
       None \<Rightarrow> (disk_update path ((if fsync then file_sync else id) \<circ> file_append bytes) d, Inr ())
     | Some step \<Rightarrow>
         let d = disk_update path (file_append (if step = GSync then bytes else take (gi_written io) bytes)) d;
             d = (if gi_truncate_ok io then disk_update path (set_len group_start) d else d)
         in (d, Inl (wal (group_msg step))))"

text \<open>Rotate when the group would overflow the segment, then make sure that a segment is open.\<close>

definition ready_segment ::
    "group_io \<Rightarrow> nat \<Rightarrow> SegmentWriter \<times> disk \<Rightarrow> (SegmentWriter \<times> disk) \<times> unit teo_result" where
  "ready_segment io group_len = (\<lambda>(w, d).
    let w = (case sw_current w of
               None \<Rightarrow> w
             | Some s \<Rightarrow> if og_bytes_written s + group_len > sw_max_segment_bytes w then close_current w else w)
    in if sw_current w = None then open_segment io (w, d) else ((w, d), Inr ()))"

definition write_group ::
    "group_io \<Rightarrow> byte list list \<Rightarrow> SegmentWriter \<times> disk \<Rightarrow> (SegmentWriter \<times> disk) \<times> unit teo_result" where
  "write_group io frames s =
    (let group_len = sum_list (map length frames) in
     case ready_segment io group_len s of
       ((w, d), Inl e) \<Rightarrow> ((w, d), Inl e)
     | ((w, d), Inr _) \<Rightarrow>
        (case sw_current w of
           None \<Rightarrow> ((w, d), Inl (wal ''segment missing after successful open''))
         | Some seg \<Rightarrow>
            (case write_frames io (sw_fsync_on_append w) seg (concat frames) d of
               (d, Inl e) \<Rightarrow> ((w, d), Inl e)
             | (d, Inr _) \<Rightarrow>
                 ((w\<lparr>sw_current := Some (seg\<lparr>og_bytes_written := og_bytes_written seg + group_len\<rparr>)\<rparr>, d), Inr ()))))"

text \<open>\<open>try_recv\<close> until the frames is full, a rotation is met, or nothing is queued any more. The result is the
  frames, whether a rotation follows it, and the commands left.\<close>

fun take_group ::
    "nat \<Rightarrow> byte list list \<Rightarrow> WriterCommand list \<Rightarrow> byte list list \<times> bool \<times> WriterCommand list" where
  "take_group 0 frames cmds = (frames, False, cmds)"
| "take_group (Suc queued) frames cmds =
    (if length frames < MAX_GROUP_FRAMES
     then (case cmds of
         [] \<Rightarrow> (frames, False, [])
       | Write frame # rest \<Rightarrow> take_group queued (frames @ [frame]) rest
       | Rotate # rest \<Rightarrow> (frames, True, rest))
     else (frames, False, cmds))"

lemma take_group_length: "take_group n frames cmds = (g, rot, rest) \<Longrightarrow> length rest \<le> length cmds"
proof (induction n frames cmds rule: take_group.induct)
  case (2 n frames cmds)
  then show ?case by (fastforce split: if_splits list.splits WriterCommand.splits)
qed simp

definition group_acks :: "unit teo_result \<Rightarrow> byte list list \<Rightarrow> Ack list" where
  "group_acks result frames =
    map (\<lambda>_. WriteAck (case result of Inr _ \<Rightarrow> Inr () | Inl _ \<Rightarrow> Inl (wal ''frames write failed''))) frames"

function writer_run ::
    "(nat \<Rightarrow> nat \<times> group_io) \<Rightarrow> nat \<Rightarrow> WriterCommand list \<Rightarrow> SegmentWriter \<times> disk
      \<Rightarrow> (SegmentWriter \<times> disk) \<times> Ack list" where
  "writer_run env i [] s = (s, [])"
| "writer_run env i (Rotate # cmds) s =
    map_prod id ((#) RotateDone) (writer_run env (i + 1) cmds (map_prod close_current id s))"
| "writer_run env i (Write first # cmds) s =
    (let (frames, rotate_after, rest) = take_group (fst (env i)) [first] cmds;
         (s, result) = write_group (snd (env i)) frames s;
         s = (case result of Inr _ \<Rightarrow> s | Inl _ \<Rightarrow> map_prod close_current id s);
         s = (if rotate_after then map_prod close_current id s else s)
     in map_prod id (\<lambda>acks. group_acks result frames @ (if rotate_after then [RotateDone] else []) @ acks)
          (writer_run env (i + 1) rest s))"
  by pat_completeness auto
termination
  by (relation "measure (\<lambda>(env, i, cmds, s). length cmds)")
    (auto dest!: sym[of _ "take_group _ _ _"] take_group_length)

text \<open>\<open>fsync\<close> of the directory, which happens when the identity or the checkpoint in it is replaced, never in the writer task.\<close>

definition dir_sync :: "disk \<Rightarrow> disk" where
  "dir_sync d = map (\<lambda>f. f\<lparr>dk_linked := True\<rparr>) d"

text \<open>What a reader finds after a crash: the files whose directory entry was synced, and those of the others that happen to
  survive; of each, \<open>keep\<close> bytes or the synced ones, whichever is more.\<close>

definition entry_kept :: "(string \<Rightarrow> bool) \<Rightarrow> disk_file \<Rightarrow> bool" where
  "entry_kept survives f \<longleftrightarrow> dk_linked f \<or> survives (dk_name f)"

lemma entry_kept_all [simp]: "entry_kept (\<lambda>_. True) f"
  by (simp add: entry_kept_def)

definition disk_root :: "(string \<Rightarrow> nat) \<Rightarrow> (string \<Rightarrow> bool) \<Rightarrow> disk \<Rightarrow> wal_root" where
  "disk_root keep survives d =
    map (\<lambda>f. \<lparr>wf_name = dk_name f, wf_data = take (max (dk_synced f) (keep (dk_name f))) (dk_data f), wf_mtime = 0\<rparr>)
      (filter (entry_kept survives) d)"

section \<open>The invariant of the task\<close>

text \<open>A new segment holds the frames of the acknowledged records \<open>A\<close>, followed by a part of those of a failed group \<open>B\<close>;
  \<open>q\<close> is its number.\<close>

type_synonym 'b seg_content = "nat \<times> 'b WalRecord list \<times> 'b WalRecord list"

definition seg_ok :: "'b frame_codec \<Rightarrow> bool \<Rightarrow> disk_file \<Rightarrow> 'b seg_content \<Rightarrow> bool" where
  "seg_ok c fsync f = (\<lambda>(q, A, B). dk_name f = segment_name q \<and> \<not> dk_linked f \<and>
    (\<exists>n. dk_data f = segment_of c A @ take n (segment_of c B)) \<and>
    (fsync \<longrightarrow> length (segment_of c A) \<le> dk_synced f))"

definition current_ok :: "'b frame_codec \<Rightarrow> OpenSegment \<Rightarrow> disk \<Rightarrow> 'b seg_content list \<Rightarrow> bool" where
  "current_ok c s new segs \<longleftrightarrow> (\<exists>new' f segs' q A. new = new' @ [f] \<and> segs = segs' @ [(q, A, [])] \<and>
    og_path s = dk_name f \<and> dk_data f = segment_of c A \<and> og_bytes_written s = length (dk_data f))"

definition writer_inv ::
    "'b frame_codec \<Rightarrow> nat \<Rightarrow> bool \<Rightarrow> disk \<Rightarrow> 'b seg_content list \<Rightarrow> SegmentWriter \<Rightarrow> bool" where
  "writer_inv c lo clean new segs w \<longleftrightarrow>
    list_all2 (seg_ok c (sw_fsync_on_append w)) new segs \<and>
    sorted_wrt (<) (map fst segs) \<and> (\<forall>q \<in> set (map fst segs). lo \<le> q \<and> q < sw_next_seq w) \<and> lo \<le> sw_next_seq w \<and>
    (clean \<longrightarrow> (\<forall>(q, A, B) \<in> set segs. B = [])) \<and>
    (\<forall>s. sw_current w = Some s \<longrightarrow> current_ok c s new segs)"

definition acked_of :: "'b seg_content list \<Rightarrow> 'b WalRecord list" where
  "acked_of segs = concat (map (fst \<circ> snd) segs)"

definition stored_of :: "'b seg_content list \<Rightarrow> 'b WalRecord list" where
  "stored_of segs = concat (map (\<lambda>(q, A, B). A @ B) segs)"

lemma content_simps [simp]:
  "acked_of [] = []" "acked_of (segs @ segs') = acked_of segs @ acked_of segs'" "acked_of [(q, A, B)] = A"
  "stored_of [] = []" "stored_of (segs @ segs') = stored_of segs @ stored_of segs'" "stored_of [(q, A, B)] = A @ B"
  by (simp_all add: acked_of_def stored_of_def)

definition fresh_above :: "nat \<Rightarrow> disk \<Rightarrow> bool" where
  "fresh_above lo d0 \<longleftrightarrow> (\<forall>f \<in> set d0. \<forall>q. lo \<le> q \<longrightarrow> q < u64_bound \<longrightarrow> dk_name f \<noteq> segment_name q)"

lemma segment_name_inj: "m < u64_bound \<Longrightarrow> n < u64_bound \<Longrightarrow> segment_name m = segment_name n \<longleftrightarrow> m = n"
  using parse_segment_name by (metis option.inject)

lemma close_inv: "writer_inv c lo clean new segs w \<Longrightarrow> writer_inv c lo clean new segs (close_current w)"
  by (simp add: writer_inv_def close_current_def)

lemma seg_ok_name: "list_all2 (seg_ok c b) new segs \<Longrightarrow> f \<in> set new \<Longrightarrow> \<exists>q \<in> set (map fst segs). dk_name f = segment_name q"
  by (induction rule: list_all2_induct) (auto simp: seg_ok_def)

lemma named_append: "p \<in> dk_name ` set (d @ e) \<Longrightarrow> \<exists>f. (f \<in> set d \<or> f \<in> set e) \<and> dk_name f = p"
  by auto

lemma new_name_fresh:
  assumes "writer_inv c lo clean new segs w" "fresh_above lo d0" "sw_next_seq w < u64_bound"
  shows "segment_name (sw_next_seq w) \<notin> dk_name ` set (d0 @ new)"
proof
  assume "segment_name (sw_next_seq w) \<in> dk_name ` set (d0 @ new)"
  then obtain f where f: "f \<in> set d0 \<or> f \<in> set new" "segment_name (sw_next_seq w) = dk_name f"
    using named_append by metis
  from f(1) show False
  proof
    assume "f \<in> set d0"
    moreover have "lo \<le> sw_next_seq w" using assms(1) by (simp add: writer_inv_def)
    ultimately show False using assms(2,3) f(2)[symmetric] by (simp add: fresh_above_def)
  next
    assume "f \<in> set new"
    then obtain q where "q \<in> set (map fst segs)" "dk_name f = segment_name q"
      using assms(1) seg_ok_name[of c _ new segs f] unfolding writer_inv_def by blast
    moreover from this have "q < sw_next_seq w" using assms(1) by (auto simp: writer_inv_def)
    ultimately show False using f(2) assms(3) segment_name_inj[of q "sw_next_seq w"] by auto
  qed
qed

lemma open_inv:
  assumes I: "writer_inv c lo clean new segs w" and d: "fresh_above lo d0" "sw_next_seq w < u64_bound"
    and cur: "sw_current w = None"
    and r: "open_segment io (w, d0 @ new) = ((w', d'), r)"
  shows "\<exists>new' segs'. d' = d0 @ new' \<and> writer_inv c lo clean new' segs' w' \<and> acked_of segs' = acked_of segs \<and>
    stored_of segs' = stored_of segs \<and> sw_next_seq w' = sw_next_seq w + 1 \<and>
    sw_fsync_on_append w' = sw_fsync_on_append w \<and> (r = Inr () \<longrightarrow> sw_current w' \<noteq> None)"
proof (cases "gi_open_ok io")
  case True
  let ?f = "\<lparr>dk_name = segment_name (sw_next_seq w), dk_data = [], dk_synced = 0, dk_linked = False\<rparr>"
  have "d' = d0 @ new @ [?f]" "w' = w\<lparr>sw_next_seq := sw_next_seq w + 1,
      sw_current := Some \<lparr>og_path = segment_name (sw_next_seq w), og_bytes_written = 0\<rparr>, sw_current_seq := sw_next_seq w + 1\<rparr>"
    using r True new_name_fresh[OF I d] by (auto simp: open_segment_def disk_open_def Let_def)
  moreover from this I have "writer_inv c lo clean (new @ [?f]) (segs @ [(sw_next_seq w, [], [])]) w'"
    by (auto simp: writer_inv_def seg_ok_def current_ok_def sorted_wrt_append list_all2_appendI)
  ultimately show ?thesis by (intro exI[of _ "new @ [?f]"] exI[of _ "segs @ [(sw_next_seq w, [], [])]"]) simp
next
  case False
  then have "d' = d0 @ new" "w' = w\<lparr>sw_next_seq := sw_next_seq w + 1\<rparr>" "r \<noteq> Inr ()"
    using r by (auto simp: open_segment_def Let_def)
  moreover from this I cur have "writer_inv c lo clean new segs w'" by (auto simp: writer_inv_def)
  ultimately show ?thesis by (intro exI[of _ new] exI[of _ segs]) simp
qed

lemma ready_inv:
  assumes I: "writer_inv c lo clean new segs w" and d: "fresh_above lo d0" "sw_next_seq w < u64_bound"
    and r: "ready_segment io group_len (w, d0 @ new) = ((w', d'), r)"
  shows "\<exists>new' segs'. d' = d0 @ new' \<and> writer_inv c lo clean new' segs' w' \<and> acked_of segs' = acked_of segs \<and>
    stored_of segs' = stored_of segs \<and> sw_next_seq w \<le> sw_next_seq w' \<and> sw_next_seq w' \<le> sw_next_seq w + 1 \<and>
    sw_fsync_on_append w' = sw_fsync_on_append w \<and> (r = Inr () \<longrightarrow> sw_current w' \<noteq> None)"
proof -
  define v where "v = (case sw_current w of None \<Rightarrow> w
    | Some s \<Rightarrow> if og_bytes_written s + group_len > sw_max_segment_bytes w then close_current w else w)"
  have v: "v = w \<or> v = close_current w"
    "(if sw_current v = None then open_segment io (v, d0 @ new) else ((v, d0 @ new), Inr ())) = ((w', d'), r)"
    using r unfolding ready_segment_def Let_def prod.case v_def[symmetric] by (simp_all add: v_def split: option.split)
  have Iv: "writer_inv c lo clean new segs v" using v(1) I close_inv[OF I] by auto
  have same: "sw_next_seq v = sw_next_seq w" "sw_fsync_on_append v = sw_fsync_on_append w"
    using v(1) by (auto simp: close_current_def)
  show ?thesis
  proof (cases "sw_current v = None")
    case True
    have o: "open_segment io (v, d0 @ new) = ((w', d'), r)" using v(2) True by simp
    have b: "sw_next_seq v < u64_bound" using d(2) same by simp
    obtain new' segs' where "d' = d0 @ new'" "writer_inv c lo clean new' segs' w'" "acked_of segs' = acked_of segs"
      "stored_of segs' = stored_of segs" "sw_next_seq w' = sw_next_seq v + 1"
      "sw_fsync_on_append w' = sw_fsync_on_append v" "r = Inr () \<longrightarrow> sw_current w' \<noteq> None"
      using open_inv[OF Iv d(1) b True o] by blast
    then show ?thesis using same by (intro exI[of _ new'] exI[of _ segs']) simp
  next
    case False
    then have "w' = v" "d' = d0 @ new" using v(2) by auto
    then show ?thesis using Iv same False by (intro exI[of _ new] exI[of _ segs]) simp
  qed
qed

lemma disk_update_append: "disk_update p f (d @ e) = disk_update p f d @ disk_update p f e"
  by (simp add: disk_update_def)

lemma disk_update_other: "p \<notin> dk_name ` set d \<Longrightarrow> disk_update p f d = d"
  by (induction d) (auto simp: disk_update_def)

lemma disk_update_last:
  assumes "p \<notin> dk_name ` set d"
  shows "disk_update p f (d @ [x]) = d @ [if dk_name x = p then f x else x]"
  using disk_update_other[OF assms] by (simp add: disk_update_append) (simp add: disk_update_def)

lemma file_ops_name [simp]:
  "dk_name (file_append b f) = dk_name f" "dk_name (file_sync f) = dk_name f" "dk_name (set_len n f) = dk_name f"
  "dk_linked (file_append b f) = dk_linked f" "dk_linked (file_sync f) = dk_linked f" "dk_linked (set_len n f) = dk_linked f"
  by (simp_all add: file_append_def file_sync_def set_len_def)

text \<open>The writes of a group change the open segment only: by the whole group on success, else by a part of it, or not at all
  after the roll-back.\<close>

lemma write_frames_last:
  assumes "p \<notin> dk_name ` set d" "dk_name f = p" "og_path s = p" "og_bytes_written s = length (dk_data f)"
    and "write_frames io fsync s bytes (d @ [f]) = (d', r)"
  shows "\<exists>f'. d' = d @ [f'] \<and> dk_name f' = p \<and> dk_linked f' = dk_linked f \<and>
    (r = Inr () \<and> dk_data f' = dk_data f @ bytes \<and> (fsync \<longrightarrow> dk_synced f' = length (dk_data f')) \<or>
     r \<noteq> Inr () \<and> (dk_synced f' = min (dk_synced f) (length (dk_data f)) \<and> dk_data f' = dk_data f \<or>
       \<not> gi_truncate_ok io \<and> dk_synced f' = dk_synced f \<and> (\<exists>n. dk_data f' = dk_data f @ take n bytes)))"
proof (cases "if gi_fail io = Some GSync \<and> \<not> fsync then None else gi_fail io")
  case None
  then have "d' = d @ [(if fsync then file_sync else id) (file_append bytes f)]" "r = Inr ()"
    using assms(2-5) disk_update_last[OF assms(1)] by (simp_all add: write_frames_def Let_def)
  then show ?thesis using assms(2) by (auto simp: file_append_def file_sync_def)
next
  case (Some step)
  define g where "g = file_append (if step = GSync then bytes else take (gi_written io) bytes) f"
  have g: "dk_name g = p" "dk_linked g = dk_linked f" "\<exists>n. dk_data g = dk_data f @ take n bytes" "dk_synced g = dk_synced f"
    using assms(2) by (auto simp: g_def file_append_def intro: exI[of _ "length bytes"])
  have d': "d' = d @ [if gi_truncate_ok io then set_len (length (dk_data f)) g else g]" "r \<noteq> Inr ()"
    using assms(2-5) Some disk_update_last[OF assms(1)] g(1)
    by (auto simp: write_frames_def Let_def g_def[symmetric])
  show ?thesis
  proof (cases "gi_truncate_ok io")
    case True
    then show ?thesis using d' g by (auto simp: set_len_def)
  next
    case False
    then show ?thesis using d' g by auto
  qed
qed

lemma group_inv:
  assumes I: "writer_inv c lo clean new segs w" and d: "fresh_above lo d0" "sw_next_seq w < u64_bound" "sw_next_seq w + 1 < u64_bound"
    and clean: "clean \<Longrightarrow> gi_truncate_ok io"
    and r: "write_group io (map (frame_bytes c) G) (w, d0 @ new) = ((w', d'), r)"
    and v: "v = (case r of Inr _ \<Rightarrow> w' | Inl _ \<Rightarrow> close_current w')"
  shows "\<exists>new' segs'. d' = d0 @ new' \<and> writer_inv c lo clean new' segs' v \<and>
    acked_of segs' = acked_of segs @ (if r = Inr () then G else []) \<and>
    (stored_of segs' = stored_of segs \<and> r \<noteq> Inr () \<or> stored_of segs' = stored_of segs @ G) \<and>
    sw_next_seq v \<le> sw_next_seq w + 1 \<and> sw_fsync_on_append v = sw_fsync_on_append w"
proof -
  let ?n = "sum_list (map length (map (frame_bytes c) G))"
  have bytes: "concat (map (frame_bytes c) G) = segment_of c G" "?n = length (segment_of c G)"
    by (simp_all add: segment_of_def length_concat)
  obtain w1 d1 r1 where r1: "ready_segment io ?n (w, d0 @ new) = ((w1, d1), r1)" by (metis surj_pair)
  obtain new1 segs1 where s1: "d1 = d0 @ new1" "writer_inv c lo clean new1 segs1 w1" "acked_of segs1 = acked_of segs"
    "stored_of segs1 = stored_of segs" "sw_next_seq w1 \<le> sw_next_seq w + 1"
    "sw_fsync_on_append w1 = sw_fsync_on_append w" "r1 = Inr () \<longrightarrow> sw_current w1 \<noteq> None"
    using ready_inv[OF I d(1,2) r1] by blast
  show ?thesis
  proof (cases r1)
    case (Inl e)
    then have "w' = w1" "d' = d1" "r = Inl e" using r r1 by (simp_all add: write_group_def Let_def)
    then show ?thesis using s1 v close_inv[OF s1(2)]
      by (intro exI[of _ new1] exI[of _ segs1]) (simp add: close_current_def)
  next
    case (Inr u)
    then obtain s where s: "sw_current w1 = Some s" using s1(7) by auto
    then obtain ns f ss q A where cur: "new1 = ns @ [f]" "segs1 = ss @ [(q, A, [])]" "og_path s = dk_name f"
      "dk_data f = segment_of c A" "og_bytes_written s = length (dk_data f)"
      using s1(2) by (auto simp: writer_inv_def current_ok_def)
    have all: "list_all2 (seg_ok c (sw_fsync_on_append w1)) ns ss" "seg_ok c (sw_fsync_on_append w1) f (q, A, [])"
      "sorted_wrt (<) (map fst ss @ [q])" "\<forall>x \<in> set (map fst ss @ [q]). lo \<le> x \<and> x < sw_next_seq w1" "lo \<le> sw_next_seq w1"
      "clean \<longrightarrow> (\<forall>(q, A, B) \<in> set ss. B = [])"
      using s1(2) unfolding writer_inv_def cur by (auto simp: list_all2_append2 list_all2_Cons2 list_all2_lengthD)
    have q: "dk_name f = segment_name q" "q < u64_bound"
      using all(2,4) s1(5) d(3) by (auto simp: seg_ok_def)
    have fresh: "dk_name f \<notin> dk_name ` set (d0 @ ns)"
    proof
      assume "dk_name f \<in> dk_name ` set (d0 @ ns)"
      then obtain g where g: "g \<in> set d0 \<or> g \<in> set ns" "dk_name g = segment_name q"
        using q(1) named_append by metis
      have "g \<notin> set d0" using d(1) g(2) all(4) q(2) by (auto simp: fresh_above_def)
      then obtain q' where "q' \<in> set (map fst ss)" "dk_name g = segment_name q'"
        using g seg_ok_name[OF all(1)] by blast
      moreover from this have "q' < q" using all(3) by (auto simp: sorted_wrt_append)
      ultimately show False using g(2) q(2) segment_name_inj[of q' q] by simp
    qed
    obtain d2 r2 where r2: "write_frames io (sw_fsync_on_append w1) s (segment_of c G) ((d0 @ ns) @ [f]) = (d2, r2)"
      by (metis surj_pair)
    obtain f' where f': "d2 = (d0 @ ns) @ [f']" "dk_name f' = dk_name f \<and> dk_linked f' = dk_linked f"
      "r2 = Inr () \<and> dk_data f' = dk_data f @ segment_of c G \<and> (sw_fsync_on_append w1 \<longrightarrow> dk_synced f' = length (dk_data f')) \<or>
       r2 \<noteq> Inr () \<and> (dk_synced f' = min (dk_synced f) (length (dk_data f)) \<and> dk_data f' = dk_data f \<or>
       \<not> gi_truncate_ok io \<and> dk_synced f' = dk_synced f \<and> (\<exists>n. dk_data f' = dk_data f @ take n (segment_of c G)))"
      using write_frames_last[OF fresh refl cur(3,5) r2] by blast
    have res: "d' = d2" "r = r2" "w' = (case r2 of Inl _ \<Rightarrow> w1 | Inr _ \<Rightarrow>
        w1\<lparr>sw_current := Some (s\<lparr>og_bytes_written := og_bytes_written s + length (segment_of c G)\<rparr>)\<rparr>)"
      using r r1 r2 Inr s unfolding write_group_def Let_def s1(1) cur(1) bytes
      by (auto split: sum.splits)
    have fin: "writer_inv c lo clean (ns @ [f']) (ss @ [(q, A', B')]) v"
      if "seg_ok c (sw_fsync_on_append w1) f' (q, A', B')" "clean \<longrightarrow> B' = []" "sw_next_seq v = sw_next_seq w1"
        "sw_fsync_on_append v = sw_fsync_on_append w1"
        "sw_current v = None \<or> (\<exists>s'. sw_current v = Some s' \<and> current_ok c s' (ns @ [f']) (ss @ [(q, A', B')]))" for A' B'
      using that all unfolding writer_inv_def by (auto intro: list_all2_appendI)
    from f'(3) show ?thesis
    proof
      assume ok: "r2 = Inr () \<and> dk_data f' = dk_data f @ segment_of c G \<and> (sw_fsync_on_append w1 \<longrightarrow> dk_synced f' = length (dk_data f'))"
      have vs: "v = w1\<lparr>sw_current := Some (s\<lparr>og_bytes_written := og_bytes_written s + length (segment_of c G)\<rparr>)\<rparr>"
        using v res ok by simp
      have "writer_inv c lo clean (ns @ [f']) (ss @ [(q, A @ G, [])]) v"
        by (rule fin) (use ok f'(2) cur(3-5) q(1) all(2) in \<open>auto simp: vs seg_ok_def current_ok_def\<close>)
      then show ?thesis using res ok f'(1) s1 cur(2) vs
        by (intro exI[of _ "ns @ [f']"] exI[of _ "ss @ [(q, A @ G, [])]"]) simp
    next
      assume bad: "r2 \<noteq> Inr () \<and> (dk_synced f' = min (dk_synced f) (length (dk_data f)) \<and> dk_data f' = dk_data f \<or>
        \<not> gi_truncate_ok io \<and> dk_synced f' = dk_synced f \<and> (\<exists>n. dk_data f' = dk_data f @ take n (segment_of c G)))"
      have vs: "v = close_current w1" using v res bad by (auto split: sum.splits)
      show ?thesis
      proof (cases "dk_synced f' = min (dk_synced f) (length (dk_data f)) \<and> dk_data f' = dk_data f")
        case True
        have "writer_inv c lo clean (ns @ [f']) (ss @ [(q, A, [])]) v"
          by (rule fin) (use True f'(2) cur(4) all(2) in \<open>auto simp: vs seg_ok_def close_current_def\<close>)
        then show ?thesis using res bad f'(1) s1 cur(2) vs
          by (intro exI[of _ "ns @ [f']"] exI[of _ "ss @ [(q, A, [])]"]) (simp add: close_current_def)
      next
        case False
        have "writer_inv c lo clean (ns @ [f']) (ss @ [(q, A, G)]) v"
          by (rule fin) (use bad False f'(2) cur(4) all(2) clean in \<open>auto simp: vs seg_ok_def close_current_def\<close>)
        then show ?thesis using res bad f'(1) s1 cur(2) vs
          by (intro exI[of _ "ns @ [f']"] exI[of _ "ss @ [(q, A, G)]"]) (simp add: close_current_def)
      qed
    qed
  qed
qed

section \<open>Runs\<close>

text \<open>Requests are records to append, or None for a rotation.\<close>

definition commands_of :: "'b frame_codec \<Rightarrow> 'b WalRecord option list \<Rightarrow> WriterCommand list" where
  "commands_of c reqs = map (\<lambda>r. case r of None \<Rightarrow> Rotate | Some r \<Rightarrow> Write (frame_bytes c r)) reqs"

fun submitted :: "'b WalRecord option list \<Rightarrow> 'b WalRecord list" where
  "submitted [] = []"
| "submitted (None # reqs) = submitted reqs"
| "submitted (Some r # reqs) = r # submitted reqs"

definition acked_one :: "'b WalRecord option \<Rightarrow> Ack \<Rightarrow> 'b WalRecord list" where
  "acked_one req ack = (case (req, ack) of (Some r, WriteAck (Inr _)) \<Rightarrow> [r] | _ \<Rightarrow> [])"

fun acked :: "'b WalRecord option list \<Rightarrow> Ack list \<Rightarrow> 'b WalRecord list" where
  "acked (req # reqs) (ack # acks) = acked_one req ack @ acked reqs acks"
| "acked _ _ = []"

lemma submitted_append [simp]: "submitted (xs @ ys) = submitted xs @ submitted ys"
  by (induction xs rule: submitted.induct) auto

lemma submitted_Some [simp]: "submitted (map Some xs) = xs"
  by (induction xs) auto

lemma acked_append: "length xs = length as \<Longrightarrow> acked (xs @ ys) (as @ bs) = acked xs as @ acked ys bs"
  by (induction xs as rule: list_induct2) auto

lemma acked_group: "acked (map Some G) (group_acks r (map f G)) = (if is_ok r then G else [])"
  by (cases r) (induction G; simp add: group_acks_def acked_one_def)+

lemma acked_subseq: "subseq (acked reqs acks) (submitted reqs)"
proof (induction reqs acks rule: acked.induct)
  case (1 req reqs ack acks)
  then show ?case by (cases req) (auto simp: acked_one_def split: Ack.splits sum.splits)
qed auto

lemma take_group_spec:
  "take_group n (map (frame_bytes c) G0) (commands_of c reqs) = (g, rot, rest) \<Longrightarrow>
    \<exists>G reqs'. g = map (frame_bytes c) (G0 @ G) \<and> rest = commands_of c reqs' \<and>
      reqs = map Some G @ (if rot then [None] else []) @ reqs'"
proof (induction n arbitrary: G0 reqs)
  case 0
  then show ?case by (intro exI[of _ "[]"] exI[of _ reqs]) simp
next
  case (Suc n)
  show ?case
  proof (cases "length G0 < MAX_GROUP_FRAMES \<and> reqs \<noteq> []")
    case False
    then have "g = map (frame_bytes c) G0 \<and> \<not> rot \<and> rest = commands_of c reqs"
      using Suc.prems by (cases reqs; cases "length G0 < MAX_GROUP_FRAMES") (auto simp: commands_of_def)
    then show ?thesis by (intro exI[of _ "[]"] exI[of _ reqs]) simp
  next
    case True
    then obtain r reqs1 where reqs: "reqs = r # reqs1" by (cases reqs) auto
    show ?thesis
    proof (cases r)
      case None
      then have "g = map (frame_bytes c) G0 \<and> rot \<and> rest = commands_of c reqs1"
        using Suc.prems True by (simp add: reqs commands_of_def)
      then show ?thesis by (intro exI[of _ "[]"] exI[of _ reqs1]) (simp add: reqs None)
    next
      case (Some x)
      then have "take_group n (map (frame_bytes c) (G0 @ [x])) (commands_of c reqs1) = (g, rot, rest)"
        using Suc.prems True by (simp add: reqs commands_of_def)
      from Suc.IH[OF this] obtain G reqs' where
        "g = map (frame_bytes c) ((G0 @ [x]) @ G) \<and> rest = commands_of c reqs' \<and>
          reqs1 = map Some G @ (if rot then [None] else []) @ reqs'" by blast
      then show ?thesis by (intro exI[of _ "x # G"] exI[of _ reqs']) (simp add: reqs Some)
    qed
  qed
qed

lemma run_inv:
  assumes "writer_inv c lo clean new segs w" "fresh_above lo d0" "sw_next_seq w + length reqs < u64_bound"
    "\<And>i. clean \<Longrightarrow> gi_truncate_ok (snd (env i))"
    "writer_run env i (commands_of c reqs) (w, d0 @ new) = ((w', d'), acks)"
  shows "\<exists>new' segs' t. d' = d0 @ new' \<and> writer_inv c lo clean new' segs' w' \<and>
    acked_of segs' = acked_of segs @ acked reqs acks \<and> stored_of segs' = stored_of segs @ t \<and>
    subseq t (submitted reqs) \<and> sw_fsync_on_append w' = sw_fsync_on_append w \<and> length acks = length reqs \<and>
    sw_next_seq w' \<le> sw_next_seq w + length reqs"
  using assms(1,3,5)
proof (induction "length reqs" arbitrary: i reqs w new segs acks rule: less_induct)
  case less
  note I = less.prems(1) and b = less.prems(2) and run = less.prems(3)
  show ?case
  proof (cases reqs)
    case Nil
    then show ?thesis using I run by (intro exI[of _ new] exI[of _ segs] exI[of _ "[]"]) (simp add: commands_of_def)
  next
    case (Cons r reqs1)
    show ?thesis
    proof (cases r)
      case None
      obtain w1 d1 acks1 where run1: "writer_run env (i + 1) (commands_of c reqs1) (close_current w, d0 @ new) = ((w1, d1), acks1)"
        by (metis surj_pair)
      have out: "w1 = w'" "d1 = d'" "acks = RotateDone # acks1"
        using run run1 by (simp_all add: Cons None commands_of_def)
      have "sw_next_seq (close_current w) + length reqs1 < u64_bound"
        using b by (simp add: Cons close_current_def)
      from less.hyps[OF _ close_inv[OF I] this run1[unfolded out(1,2)]]
      obtain new' segs' t where "d' = d0 @ new'" "writer_inv c lo clean new' segs' w'"
        "acked_of segs' = acked_of segs @ acked reqs1 acks1" "stored_of segs' = stored_of segs @ t"
        "subseq t (submitted reqs1)" "sw_fsync_on_append w' = sw_fsync_on_append (close_current w)" "length acks1 = length reqs1"
        "sw_next_seq w' \<le> sw_next_seq (close_current w) + length reqs1"
        by (auto simp: Cons)
      then show ?thesis by (intro exI[of _ new'] exI[of _ segs'] exI[of _ t])
          (simp add: Cons None out(3) acked_one_def close_current_def)
    next
      case (Some x)
      obtain g rot rest where tg: "take_group (fst (env i)) [frame_bytes c x] (commands_of c reqs1) = (g, rot, rest)"
        by (metis surj_pair)
      then have "take_group (fst (env i)) (map (frame_bytes c) [x]) (commands_of c reqs1) = (g, rot, rest)" by simp
      from take_group_spec[OF this] obtain G reqs2 where G: "g = map (frame_bytes c) ([x] @ G)" "rest = commands_of c reqs2"
        "reqs1 = map Some G @ (if rot then [None] else []) @ reqs2" by blast
      obtain w1 d1 r1 where wg: "write_group (snd (env i)) g (w, d0 @ new) = ((w1, d1), r1)" by (metis surj_pair)
      define v where "v = (case r1 of Inr _ \<Rightarrow> w1 | Inl _ \<Rightarrow> close_current w1)"
      define v' where "v' = (if rot then close_current v else v)"
      obtain acks2 where run2: "writer_run env (i + 1) (commands_of c reqs2) (v', d1) = ((w', d'), acks2)"
        "acks = group_acks r1 g @ (if rot then [RotateDone] else []) @ acks2"
        using run tg wg unfolding Cons Some commands_of_def list.map option.case
        by (cases "writer_run env (i + 1) (commands_of c reqs2) (v', d1)")
          (auto simp: G(2) commands_of_def v_def v'_def split: sum.splits if_splits)
      have bs: "sw_next_seq w < u64_bound" "sw_next_seq w + 1 < u64_bound" using b by (simp_all add: Cons)
      obtain new1 segs1 where s1: "d1 = d0 @ new1" "writer_inv c lo clean new1 segs1 v"
        "acked_of segs1 = acked_of segs @ (if r1 = Inr () then [x] @ G else [])"
        "stored_of segs1 = stored_of segs \<and> r1 \<noteq> Inr () \<or> stored_of segs1 = stored_of segs @ [x] @ G"
        "sw_next_seq v \<le> sw_next_seq w + 1" "sw_fsync_on_append v = sw_fsync_on_append w"
        using group_inv[OF I assms(2) bs assms(4) wg[unfolded G(1)] v_def] by blast
      have I': "writer_inv c lo clean new1 segs1 v'" using s1(2) close_inv[OF s1(2)] by (simp add: v'_def)
      have v': "sw_next_seq v' = sw_next_seq v" "sw_fsync_on_append v' = sw_fsync_on_append w"
        using s1(6) by (simp_all add: v'_def close_current_def)
      have "length reqs2 < length reqs" "sw_next_seq v' + length reqs2 < u64_bound"
        using b s1(5) v' by (auto simp: Cons G(3))
      from less.hyps[OF this(1) I' this(2) run2(1)[unfolded s1(1)]]
      obtain new' segs' t where IH: "d' = d0 @ new'" "writer_inv c lo clean new' segs' w'"
        "acked_of segs' = acked_of segs1 @ acked reqs2 acks2" "stored_of segs' = stored_of segs1 @ t"
        "subseq t (submitted reqs2)" "sw_fsync_on_append w' = sw_fsync_on_append v'" "length acks2 = length reqs2"
        "sw_next_seq w' \<le> sw_next_seq v' + length reqs2"
        by blast
      have rq: "reqs = map Some ([x] @ G) @ (if rot then [None] else []) @ reqs2" by (simp add: Cons Some G(3))
      have ak: "acked reqs acks = (if r1 = Inr () then [x] @ G else []) @ acked reqs2 acks2"
        unfolding rq run2(2) G(1)
        using acked_group[of "[x] @ G" r1 "frame_bytes c"]
        by (subst acked_append, simp add: group_acks_def, subst acked_append, simp)
          (auto simp: acked_one_def is_ok_iff)
      obtain t1 where t1: "stored_of segs1 = stored_of segs @ t1" "subseq t1 ([x] @ G)"
        using s1(4) by (metis append_Nil2 list_emb_Nil subseq_order.order_refl)
      have "subseq (t1 @ t) (submitted reqs)"
        using list_emb_append_mono[OF t1(2) IH(5)] by (simp add: rq submitted_append)
      then show ?thesis
        using IH s1(3,5) t1(1) ak v' by (intro exI[of _ new'] exI[of _ segs'] exI[of _ "t1 @ t"])
          (simp add: rq run2(2) G(1) group_acks_def)
    qed
  qed
qed


section \<open>The log after a crash\<close>

lemma seg_records_disk:
  assumes "distinct (map dk_name d)" "f \<in> set d" "entry_kept survives f"
  shows "seg_records c (disk_root keep survives d) (dk_name f) =
    records_from c (take (max (dk_synced f) (keep (dk_name f))) (dk_data f)) 0"
proof -
  have "find_file (disk_root keep survives d) (dk_name f) = Some \<lparr>wf_name = dk_name f,
      wf_data = take (max (dk_synced f) (keep (dk_name f))) (dk_data f), wf_mtime = 0\<rparr>"
    using assms by (induction d) (auto simp: disk_root_def)
  then show ?thesis by (simp add: seg_records_def data_of_def)
qed

text \<open>A new segment after a crash holds all of \<open>A\<close> and a prefix of \<open>B\<close>, without corruption.\<close>

lemma seg_ok_records:
  assumes "seg_ok c fsync f (q, A, B)" "list_all (writable c) (A @ B)"
    and keep: "fsync \<or> length (dk_data f) \<le> keep (dk_name f)"
  shows "\<exists>k. fst (records_from c (take (max (dk_synced f) (keep (dk_name f))) (dk_data f)) 0) = with_offsets c 0 (A @ take k B) \<and>
    snd (records_from c (take (max (dk_synced f) (keep (dk_name f))) (dk_data f)) 0) = None"
proof -
  let ?m = "max (dk_synced f) (keep (dk_name f))"
  obtain n where n: "dk_data f = segment_of c A @ take n (segment_of c B)" "fsync \<longrightarrow> length (segment_of c A) \<le> dk_synced f"
    using assms(1) by (auto simp: seg_ok_def)
  let ?n = "min ?m (length (segment_of c A) + n)"
  have data: "take ?m (dk_data f) = take ?n (segment_of c (A @ B) @ replicate 0 0)"
    using take_take[of ?m "length (segment_of c A) + n" "segment_of c (A @ B)"] by (simp add: n(1))
  obtain k where k: "k \<le> length (A @ B)"
    "records_from c (take ?n (segment_of c (A @ B) @ replicate 0 0)) 0 = (with_offsets c 0 (take k (A @ B)), None)"
    "\<forall>j \<le> length (A @ B). length (segment_of c (take j (A @ B))) \<le> ?n \<longrightarrow> j \<le> k"
    using records_from_torn[OF assms(2)] by blast
  have "length (segment_of c A) \<le> ?n" using n keep by (auto simp: le_max_iff_disj)
  then have "length A \<le> k" using k(3)[rule_format, of "length A"] by simp
  then show ?thesis unfolding data k(2) by (intro exI[of _ "k - length A"]) simp
qed

lemma sort_append_above:
  "sorted ys \<Longrightarrow> (\<And>x y. x \<in> set xs \<Longrightarrow> y \<in> set ys \<Longrightarrow> x \<le> (y :: string)) \<Longrightarrow> sort (xs @ ys) = sort xs @ ys"
  by (rule properties_for_sort) (auto simp: sorted_append)

lemma new_names:
  assumes "list_all2 (seg_ok c b) new segs" "sorted_wrt (<) (map fst segs)" "\<forall>q \<in> set (map fst segs). q < u64_bound"
  shows "map dk_name new = map segment_name (map fst segs)" "sorted (map dk_name new)" "distinct (map dk_name new)"
proof -
  show eq: "map dk_name new = map segment_name (map fst segs)"
    using assms(1) by (induction rule: list_all2_induct) (auto simp: seg_ok_def)
  have "sorted_wrt (<) (map segment_name qs)" if "sorted_wrt (<) qs" "\<forall>q \<in> set qs. q < u64_bound" for qs
    using that by (induction qs) (auto simp: segment_name_less)
  then have "sorted_wrt (<) (map dk_name new)" using assms(2,3) unfolding eq by blast
  then show "sorted (map dk_name new)" "distinct (map dk_name new)" using strict_sorted_iff by auto
qed

text \<open>The directory before the run: distinct names, and segments with numbers below the next one.\<close>

definition disk_wf :: "nat \<Rightarrow> disk \<Rightarrow> bool" where
  "disk_wf lo d \<longleftrightarrow> distinct (map dk_name d) \<and>
    (\<forall>f \<in> set d. ends_with (dk_name f) ''.wal'' \<longrightarrow> (\<exists>q < lo. dk_name f = segment_name q))"

lemma disk_wf_fresh:
  assumes "disk_wf lo d"
  shows "fresh_above lo d"
  unfolding fresh_above_def
proof (intro ballI allI impI notI)
  fix f q assume f: "f \<in> set d" "lo \<le> q" "q < u64_bound" "dk_name f = segment_name q"
  then obtain p where "p < lo" "dk_name f = segment_name p"
    using assms by (auto simp: disk_wf_def)
  then show False using f segment_name_inj[of p q] by simp
qed

lemma paths_disk: "segment_paths (disk_root keep survives d) =
    sort (map dk_name (filter (\<lambda>f. entry_kept survives f \<and> ends_with (dk_name f) ''.wal'') d))"
  by (simp add: segment_paths_def disk_root_def filter_map comp_def conj_commute)

lemma disk_log:
  assumes wf: "disk_wf lo d0" and I: "writer_inv c lo clean new segs w" and hi: "sw_next_seq w < u64_bound"
    and W: "list_all (writable c) (stored_of segs)"
    and sv: "\<And>f. f \<in> set new \<Longrightarrow> entry_kept survives f"
    and keep: "sw_fsync_on_append w \<or> (\<forall>f \<in> set new. length (dk_data f) \<le> keep (dk_name f))"
  shows "\<exists>ks. length ks = length segs \<and>
    log_records c (disk_root keep survives (d0 @ new)) = log_records c (disk_root keep survives d0) @
      concat (map2 (\<lambda>k (q, A, B). A @ take k B) ks segs) \<and>
    (\<forall>p \<in> set (segment_paths (disk_root keep survives (d0 @ new))).
      seg_corrupt c (disk_root keep survives (d0 @ new)) p \<longrightarrow>
      p \<in> set (segment_paths (disk_root keep survives d0)) \<and> seg_corrupt c (disk_root keep survives d0) p)"
proof -
  have al: "list_all2 (seg_ok c (sw_fsync_on_append w)) new segs" and so: "sorted_wrt (<) (map fst segs)"
    and lo: "\<forall>q \<in> set (map fst segs). lo \<le> q \<and> q < u64_bound"
    using I hi unfolding writer_inv_def by auto
  have nm: "map dk_name new = map segment_name (map fst segs)" "sorted (map dk_name new)" "distinct (map dk_name new)"
    using new_names[OF al so] lo by auto
  let ?R = "disk_root keep survives (d0 @ new)" and ?Old = "disk_root keep survives d0"
  let ?olds = "filter (\<lambda>f. entry_kept survives f \<and> ends_with (dk_name f) ''.wal'') d0"
  have old_below: "x \<le> y" if x: "x \<in> set (map dk_name ?olds)" and y: "y \<in> set (map dk_name new)" for x y
  proof -
    obtain p where "p < lo" "x = segment_name p" using x wf by (auto simp: disk_wf_def)
    moreover obtain q where "y = segment_name q" "lo \<le> q" "q < u64_bound" using y lo unfolding nm(1) by auto
    ultimately show ?thesis by (simp add: segment_name_le)
  qed
  have name: "\<exists>q. dk_name f = segment_name q \<and> lo \<le> q \<and> q < u64_bound" if "f \<in> set new" for f
    using seg_ok_name[OF al that] lo by blast
  have fl: "filter (\<lambda>f. entry_kept survives f \<and> ends_with (dk_name f) ''.wal'') new = new"
  proof (rule filter_True, rule ballI)
    fix f assume f: "f \<in> set new"
    obtain q where "dk_name f = segment_name q" using name[OF f] by blast
    then show "entry_kept survives f \<and> ends_with (dk_name f) ''.wal''" using sv[OF f] by simp
  qed
  have "sort (map dk_name ?olds @ map dk_name new) = sort (map dk_name ?olds) @ map dk_name new"
    by (rule sort_append_above[OF nm(2)]) (rule old_below)
  then have paths: "segment_paths ?R = segment_paths ?Old @ map dk_name new"
    unfolding paths_disk filter_append fl map_append .
  have "dk_name g \<noteq> dk_name f" if "f \<in> set new" "g \<in> set d0" for f g
    using name[OF that(1)] disk_wf_fresh[OF wf] that(2) unfolding fresh_above_def by metis
  then have dist: "distinct (map dk_name (d0 @ new))"
    using wf nm(3) by (auto simp: disk_wf_def)
  have old: "seg_records c ?R p = seg_records c ?Old p" if p: "p \<in> set (segment_paths ?Old)" for p
  proof -
    obtain f where "f \<in> set d0" "entry_kept survives f" "p = dk_name f" using p by (auto simp: paths_disk)
    then show ?thesis using seg_records_disk[of "d0 @ new" f survives c keep] seg_records_disk[of d0 f survives c keep] dist by simp
  qed
  have "\<exists>k. seg_records c ?R (dk_name f) = (with_offsets c 0 (A @ take k B), None)"
    if "f \<in> set new" "seg_ok c (sw_fsync_on_append w) f (q, A, B)" "list_all (writable c) (A @ B)" for f q A B
  proof -
    have "sw_fsync_on_append w \<or> length (dk_data f) \<le> keep (dk_name f)" using keep that(1) by blast
    from seg_ok_records[where keep = keep, OF that(2,3) this] show ?thesis
      using seg_records_disk[where survives = survives and keep = keep and c = c, OF dist, of f] sv[OF that(1)] that(1)
      by (auto simp: prod_eq_iff)
  qed
  note one = this
  have "\<exists>ks. length ks = length ss \<and>
      map (seg_records c ?R \<circ> dk_name) ns = map2 (\<lambda>k (q, A, B). (with_offsets c 0 (A @ take k B), None)) ks ss"
    if "list_all2 (seg_ok c (sw_fsync_on_append w)) ns ss" "set ns \<subseteq> set new" "list_all (writable c) (stored_of ss)" for ns ss
    using that
  proof (induction rule: list_all2_induct)
    case (Cons f ns x ss)
    obtain q A B where x: "x = (q, A, B)" by (cases x)
    have w: "list_all (writable c) (A @ B)" "list_all (writable c) (stored_of ss)"
      using Cons.prems(2) by (auto simp: x stored_of_def)
    have f: "f \<in> set new" "set ns \<subseteq> set new" using Cons.prems(1) by auto
    obtain k where "seg_records c ?R (dk_name f) = (with_offsets c 0 (A @ take k B), None)"
      using one[OF f(1) Cons.hyps(1)[unfolded x] w(1)] by blast
    moreover obtain ks where "length ks = length ss"
      "map (seg_records c ?R \<circ> dk_name) ns = map2 (\<lambda>k (q, A, B). (with_offsets c 0 (A @ take k B), None)) ks ss"
      using Cons.IH[OF f(2) w(2)] by blast
    ultimately show ?case by (intro exI[of _ "k # ks"]) (simp add: x comp_def)
  qed simp
  from this[OF al order_refl W] obtain ks where ks: "length ks = length segs"
    "map (seg_records c ?R \<circ> dk_name) new = map2 (\<lambda>k (q, A, B). (with_offsets c 0 (A @ take k B), None)) ks segs" by blast
  have "map (\<lambda>p. map snd (fst (seg_records c ?R p))) (map dk_name new) = map (map snd \<circ> fst) (map (seg_records c ?R \<circ> dk_name) new)"
    by simp
  also have "\<dots> = map2 (\<lambda>k (q, A, B). A @ take k B) ks segs"
    unfolding ks(2) by (simp add: comp_def case_prod_beta)
  finally have "log_records c ?R = log_records c ?Old @ concat (map2 (\<lambda>k (q, A, B). A @ take k B) ks segs)"
    unfolding log_records_def paths using old by (simp cong: map_cong)
  moreover have "p \<in> set (segment_paths ?Old) \<and> seg_corrupt c ?Old p" if p: "p \<in> set (segment_paths ?R)" "seg_corrupt c ?R p" for p
  proof (cases "p \<in> set (segment_paths ?Old)")
    case True
    then show ?thesis using p(2) old[OF True] by simp
  next
    case False
    then have "seg_records c ?R p \<in> set (map (seg_records c ?R \<circ> dk_name) new)" using p(1) by (auto simp: paths)
    then have "snd (seg_records c ?R p) = None" unfolding ks(2) by (auto simp: set_zip)
    then show ?thesis using p(2) by simp
  qed
  ultimately show ?thesis using ks(1) by blast
qed

lemma kept_subseq:
  "length ks = length segs \<Longrightarrow> subseq (acked_of segs) (concat (map2 (\<lambda>k (q, A, B). A @ take k B) ks segs)) \<and>
    subseq (concat (map2 (\<lambda>k (q, A, B). A @ take k B) ks segs)) (stored_of segs)"
proof (induction ks segs rule: list_induct2)
  case (Cons k ks x segs)
  obtain q A B where x: "x = (q, A, B)" by (cases x)
  have "subseq (take k B) B" by (metis append_take_drop_id subseq_order.order_refl subseq_append' list_emb_append2 list_emb_prefix)
  then have "subseq ((A @ take k B) @ concat (map2 (\<lambda>k (q, A, B). A @ take k B) ks segs)) ((A @ B) @ stored_of segs)"
    using Cons.IH by (intro list_emb_append_mono) auto
  moreover have "subseq (A @ acked_of segs) ((A @ take k B) @ concat (map2 (\<lambda>k (q, A, B). A @ take k B) ks segs))"
    using Cons.IH by (intro list_emb_append_mono) auto
  ultimately show ?case by (simp add: x acked_of_def stored_of_def)
qed simp

lemma clean_stored: "(\<forall>(q, A, B) \<in> set segs. B = []) \<Longrightarrow> stored_of segs = acked_of segs"
  unfolding stored_of_def acked_of_def by (induction segs) auto

lemma spawn_inv: "sw_current w = None \<Longrightarrow> writer_inv c (sw_next_seq w) clean [] [] w"
  by (simp add: writer_inv_def)

lemma first_corruption_sub:
  assumes "\<And>p. p \<in> set ps \<Longrightarrow> seg_corrupt c root p \<Longrightarrow> p \<in> set ps0 \<and> seg_corrupt c root0 p"
  shows "first_corruption c root0 ps0 = None \<Longrightarrow> first_corruption c root ps = None"
  using assms unfolding first_corruption_None by blast

lemma run_log:
  assumes W: "list_all (writable c) (submitted reqs)" and wf: "disk_wf (sw_next_seq w) d0" "sw_current w = None"
    and hi: "sw_next_seq w + length reqs < u64_bound"
    and clean: "\<And>i. clean \<Longrightarrow> gi_truncate_ok (snd (env i))"
    and run: "writer_run env 0 (commands_of c reqs) (w, d0) = ((w', d'), acks)"
    and sv: "\<And>f. f \<in> set d' \<Longrightarrow> entry_kept survives f"
    and keep: "sw_fsync_on_append w \<or> (\<forall>f \<in> set d'. length (dk_data f) \<le> keep (dk_name f))"
  shows "\<exists>rs. log_records c (disk_root keep survives d') = log_records c (disk_root keep survives d0) @ rs \<and>
    subseq (acked reqs acks) rs \<and> subseq rs (submitted reqs) \<and> (clean \<longrightarrow> rs = acked reqs acks) \<and>
    (first_corruption c (disk_root keep survives d0) (segment_paths (disk_root keep survives d0)) = None \<longrightarrow>
      first_corruption c (disk_root keep survives d') (segment_paths (disk_root keep survives d')) = None) \<and>
    distinct (map wf_name (disk_root keep survives d'))"
proof -
  have run': "writer_run env 0 (commands_of c reqs) (w, d0 @ []) = ((w', d'), acks)" using run by simp
  obtain new segs t where s: "d' = d0 @ new" "writer_inv c (sw_next_seq w) clean new segs w'"
    "acked_of segs = acked reqs acks" "stored_of segs = t" "subseq t (submitted reqs)"
    "sw_fsync_on_append w' = sw_fsync_on_append w" "sw_next_seq w' \<le> sw_next_seq w + length reqs"
    using run_inv[where clean = clean, OF spawn_inv[OF wf(2)] disk_wf_fresh[OF wf(1)] hi clean run'] by auto
  have hi': "sw_next_seq w' < u64_bound" using s(7) hi by simp
  have W': "list_all (writable c) (stored_of segs)"
    using W list_emb_set[OF s(5)] by (auto simp: s(4) list_all_iff)
  have keep': "sw_fsync_on_append w' \<or> (\<forall>f \<in> set new. length (dk_data f) \<le> keep (dk_name f))"
    using keep s(1,6) by auto
  let ?R = "disk_root keep survives d'" and ?Old = "disk_root keep survives d0"
  obtain ks where ks: "length ks = length segs"
    "log_records c ?R = log_records c ?Old @ concat (map2 (\<lambda>k (q, A, B). A @ take k B) ks segs)"
    "\<forall>p \<in> set (segment_paths ?R). seg_corrupt c ?R p \<longrightarrow> p \<in> set (segment_paths ?Old) \<and> seg_corrupt c ?Old p"
    using disk_log[OF wf(1) s(2) hi' W' _ keep', of survives] sv unfolding s(1) by auto
  let ?rs = "concat (map2 (\<lambda>k (q, A, B). A @ take k B) ks segs)"
  have sub: "subseq (acked_of segs) ?rs" "subseq ?rs (stored_of segs)" using kept_subseq[OF ks(1)] by auto
  have "?rs = acked reqs acks" if clean
  proof -
    have "stored_of segs = acked_of segs" using s(2) that clean_stored unfolding writer_inv_def by blast
    then show ?thesis using sub s(3) subseq_order.antisym by metis
  qed
  moreover have "distinct (map dk_name d')"
  proof -
    have "list_all2 (seg_ok c (sw_fsync_on_append w')) new segs" "sorted_wrt (<) (map fst segs)"
      "\<forall>q \<in> set (map fst segs). sw_next_seq w \<le> q \<and> q < u64_bound" using s(2) hi' unfolding writer_inv_def by auto
    note nm = new_names(3)[OF this(1,2)] seg_ok_name[OF this(1)] this(3)
    have "dk_name g \<noteq> dk_name f" if "f \<in> set new" "g \<in> set d0" for f g
      using nm(2)[OF that(1)] nm(3) disk_wf_fresh[OF wf(1)] that(2) unfolding fresh_above_def by metis
    then show ?thesis using wf(1) nm(1,3) s(1) by (auto simp: disk_wf_def)
  qed
  then have "distinct (map wf_name ?R)" by (simp add: disk_root_def comp_def distinct_map_filter)
  ultimately show ?thesis
    using ks(2) sub s(3-5) first_corruption_sub[of "segment_paths ?R" c ?R "segment_paths ?Old" ?Old] ks(3)
    by (intro exI[of _ ?rs]) (auto intro: subseq_order.trans)
qed

lemma disk_root_append: "disk_root keep survives (d @ e) = disk_root keep survives d @ disk_root keep survives e"
  by (simp add: disk_root_def)

text \<open>The writer never syncs the directory.\<close>

lemma unsynced_lost: "list_all2 (seg_ok c fsync) new segs \<Longrightarrow> disk_root keep (\<lambda>_. False) new = []"
  by (induction rule: list_all2_induct) (auto simp: disk_root_def seg_ok_def entry_kept_def)

lemma dir_sync_root: "disk_root keep survives (dir_sync d) = disk_root keep (\<lambda>_. True) d"
  by (induction d) (simp_all add: disk_root_def dir_sync_def entry_kept_def)

section \<open>Properties\<close>

text \<open>Property C25. Acknowledged appends are durable. Let a newly started writer task process any requests whose records are \<open>writable\<close> (within the
  limits of a frame) and whose segments have 64-bit numbers above those in the directory, with any grouping and any I/O
  failures, with \<open>fsync_on_append\<close> set, and let the machine crash afterwards: every file keeps at least its
  synced bytes, and the directory entry of every segment was synced or survives nevertheless. Then a replay in fail mode of a directory that was intact
  before returns the live records of the old log continued by \<open>rs\<close>, where \<open>rs\<close> contains every acknowledged
  record, in order, and only submitted records.\<close>

theorem append_durable:
  assumes "list_all (writable c) (submitted reqs)" "disk_wf (sw_next_seq w) d0" "sw_current w = None"
    and "sw_next_seq w + length reqs < u64_bound" "sw_fsync_on_append w"
    and "writer_run env 0 (commands_of c reqs) (w, d0) = ((w', d'), acks)"
    and survive: "\<And>f. f \<in> set d' \<Longrightarrow> entry_kept survives f"
    and intact: "first_corruption c (disk_root keep survives d0) (segment_paths (disk_root keep survives d0)) = None"
  shows "\<exists>rs. replay c committed Fail (disk_root keep survives d') =
      Inr (sort_key canonical_key (live_records committed (log_records c (disk_root keep survives d0) @ rs))) \<and>
    subseq (acked reqs acks) rs \<and> subseq rs (submitted reqs)"
proof -
  obtain rs where rs: "log_records c (disk_root keep survives d') = log_records c (disk_root keep survives d0) @ rs"
    "subseq (acked reqs acks) rs" "subseq rs (submitted reqs)"
    "first_corruption c (disk_root keep survives d') (segment_paths (disk_root keep survives d')) = None"
    "distinct (map wf_name (disk_root keep survives d'))"
    using run_log[where clean = False and survives = survives, OF assms(1-4) _ assms(6)] survive assms(5) intact by blast
  then show ?thesis using replay_spec[OF rs(5), of c committed Fail] by (intro exI[of _ rs]) simp
qed

text \<open>Property C29. A failed append is never replayed. Under the same conditions on the requests, if the truncation of every roll-back succeeds, the log that a
  reader of the directory finds after the run is the old log continued by exactly the acknowledged records, in order,
  whatever else failed and whether or not the writer syncs.\<close>

theorem failed_append_invisible:
  assumes "list_all (writable c) (submitted reqs)" "disk_wf (sw_next_seq w) d0" "sw_current w = None"
    and "sw_next_seq w + length reqs < u64_bound" and trunc: "\<And>i. gi_truncate_ok (snd (env i))"
    and "writer_run env 0 (commands_of c reqs) (w, d0) = ((w', d'), acks)"
    and all: "\<And>f. f \<in> set d' \<Longrightarrow> length (dk_data f) \<le> keep (dk_name f)"
  shows "log_records c (disk_root keep (\<lambda>_. True) d') = log_records c (disk_root keep (\<lambda>_. True) d0) @ acked reqs acks"
  using run_log[where clean = True and survives = "\<lambda>_. True", OF assms(1-4) trunc assms(6)] all by auto

text \<open>Property C31. Acknowledged appends hang on a directory entry that nobody synced. Let a newly started writer task process any requests, under the
  same conditions on records and segment numbers, with any grouping and any I/O failures, with \<open>fsync_on_append\<close> set. After a crash that loses the directory entries that were not synced, the log
  is what it was before the run: every append acknowledged in the run is lost. A single sync of the directory before
  that crash would have kept all of them; outside the writer task one happens when a checkpoint or the identity is next replaced.\<close>

theorem new_segment_entry_not_synced:
  assumes "list_all (writable c) (submitted reqs)" "disk_wf (sw_next_seq w) d0" "sw_current w = None"
    and "sw_next_seq w + length reqs < u64_bound" "sw_fsync_on_append w"
    and "writer_run env 0 (commands_of c reqs) (w, d0) = ((w', d'), acks)"
  shows "log_records c (disk_root keep (\<lambda>_. False) d') = log_records c (disk_root keep (\<lambda>_. False) d0) \<and>
    (\<exists>rs. log_records c (disk_root keep (\<lambda>_. False) (dir_sync d')) = log_records c (disk_root keep (\<lambda>_. False) (dir_sync d0)) @ rs \<and>
      subseq (acked reqs acks) rs)"
proof -
  have run': "writer_run env 0 (commands_of c reqs) (w, d0 @ []) = ((w', d'), acks)" using assms(6) by simp
  obtain new segs where s: "d' = d0 @ new" "writer_inv c (sw_next_seq w) False new segs w'"
    using run_inv[where clean = False, OF spawn_inv[OF assms(3)] disk_wf_fresh[OF assms(2)] assms(4) _ run'] by auto
  have "list_all2 (seg_ok c (sw_fsync_on_append w')) new segs" using s(2) by (simp add: writer_inv_def)
  then have "disk_root keep (\<lambda>_. False) d' = disk_root keep (\<lambda>_. False) d0"
    unfolding s(1) using unsynced_lost by (simp add: disk_root_append)
  moreover have "\<exists>rs. log_records c (disk_root keep (\<lambda>_. True) d') = log_records c (disk_root keep (\<lambda>_. True) d0) @ rs \<and> subseq (acked reqs acks) rs"
    using run_log[where clean = False and survives = "\<lambda>_. True", OF assms(1-4) _ assms(6)] assms(5) by (auto simp: entry_kept_def)
  ultimately show ?thesis by (simp add: dir_sync_root)
qed

section \<open>Witnesses\<close>

definition demo_env :: "nat \<Rightarrow> nat \<times> group_io" where
  "demo_env = (\<lambda>_. (0, \<lparr>gi_open_ok = True, gi_fail = None, gi_written = 0, gi_truncate_ok = True\<rparr>))"

definition demo_writer :: SegmentWriter where
  "demo_writer = SegmentWriter_spawn 1000 True 1"

lemma demo_writer_run:
  "writer_run demo_env 0 (commands_of demo_codec [Some demo_record]) (demo_writer, []) =
    ((demo_writer\<lparr>sw_current := Some \<lparr>og_path = segment_name 1, og_bytes_written = 16\<rparr>, sw_next_seq := 2, sw_current_seq := 2\<rparr>,
      [\<lparr>dk_name = segment_name 1, dk_data = frame_bytes demo_codec demo_record, dk_synced = 16, dk_linked = False\<rparr>]), [WriteAck (Inr ())])"
proof -
  have "length (frame_bytes demo_codec demo_record) = 16" by (simp add: frame_bytes_def demo_encode)
  then show ?thesis
    by (simp add: commands_of_def demo_env_def demo_writer_def SegmentWriter_spawn_def write_group_def ready_segment_def
        open_segment_def disk_open_def write_frames_def disk_update_def file_append_def file_sync_def group_acks_def Let_def)
qed

lemma demo_disk_empty: "disk_root keep survives [] = []" "segment_paths [] = []" "log_records c [] = []"
  by (simp_all add: disk_root_def segment_paths_def log_records_def)

theorem append_durable_witness:
  "\<exists>rs. replay demo_codec (\<lambda>_. None) Fail (disk_root (\<lambda>_. 0) (\<lambda>_. True)
      [\<lparr>dk_name = segment_name 1, dk_data = frame_bytes demo_codec demo_record, dk_synced = 16, dk_linked = False\<rparr>]) =
      Inr (sort_key canonical_key (live_records (\<lambda>_. None) rs)) \<and> subseq [demo_record] rs \<and> subseq rs [demo_record]"
proof -
  have "list_all (writable demo_codec) (submitted [Some demo_record])" using demo_writable by simp
  moreover have "disk_wf (sw_next_seq demo_writer) []" by (simp add: disk_wf_def)
  moreover have "sw_current demo_writer = None" "sw_next_seq demo_writer + length [Some demo_record] < u64_bound"
    "sw_fsync_on_append demo_writer"
    by (simp_all add: demo_writer_def SegmentWriter_spawn_def u64_bound_def)
  ultimately show ?thesis
    using append_durable[OF _ _ _ _ _ demo_writer_run, where keep = "\<lambda>_. 0" and survives = "\<lambda>_. True" and committed = "\<lambda>_. None"]
    by (simp add: demo_disk_empty acked_one_def)
qed

theorem failed_append_invisible_witness:
  "log_records demo_codec (disk_root (\<lambda>_. 16) (\<lambda>_. True)
      [\<lparr>dk_name = segment_name 1, dk_data = frame_bytes demo_codec demo_record, dk_synced = 16, dk_linked = False\<rparr>]) = [demo_record]"
proof -
  have "list_all (writable demo_codec) (submitted [Some demo_record])" using demo_writable by simp
  moreover have "disk_wf (sw_next_seq demo_writer) []" by (simp add: disk_wf_def)
  moreover have "sw_current demo_writer = None" "sw_next_seq demo_writer + length [Some demo_record] < u64_bound"
    by (simp_all add: demo_writer_def SegmentWriter_spawn_def u64_bound_def)
  moreover have "length (frame_bytes demo_codec demo_record) = 16" by (simp add: frame_bytes_def demo_encode)
  ultimately show ?thesis
    using failed_append_invisible[OF _ _ _ _ _ demo_writer_run, where keep = "\<lambda>_. 16"]
    by (simp add: demo_disk_empty acked_one_def demo_env_def)
qed

theorem new_segment_entry_not_synced_witness:
  "acked [Some demo_record] (snd (writer_run demo_env 0 (commands_of demo_codec [Some demo_record]) (demo_writer, []))) = [demo_record] \<and>
    log_records demo_codec (disk_root (\<lambda>_. 0) (\<lambda>_. False)
      (snd (fst (writer_run demo_env 0 (commands_of demo_codec [Some demo_record]) (demo_writer, []))))) = []"
proof -
  have "list_all (writable demo_codec) (submitted [Some demo_record])" using demo_writable by simp
  moreover have "disk_wf (sw_next_seq demo_writer) []" by (simp add: disk_wf_def)
  moreover have "sw_current demo_writer = None" "sw_next_seq demo_writer + length [Some demo_record] < u64_bound"
    "sw_fsync_on_append demo_writer"
    by (simp_all add: demo_writer_def SegmentWriter_spawn_def u64_bound_def)
  ultimately show ?thesis
    using new_segment_entry_not_synced[OF _ _ _ _ _ demo_writer_run, where keep = "\<lambda>_. 0"]
    unfolding demo_writer_run by (simp add: demo_disk_empty acked_one_def)
qed

end
