(* ===== verification/Location.thy ===== *)
theory Location
  imports Core_Types
begin

text \<open>Object locations (\<open>crates/teodb-core/src/location.rs\<close>): storage schemes, rendering a location as a URI
  and parsing a URI back, with the key normalisation the rest of the system relies on.\<close>

section \<open>Model\<close>

datatype StorageScheme = S3 | Gcs | AzureBlob | Local

definition opt_str :: "string option \<Rightarrow> string" where
  "opt_str s = (case s of None \<Rightarrow> [] | Some t \<Rightarrow> t)"

fun uri_prefix :: "StorageScheme \<Rightarrow> string option \<Rightarrow> string" where
  "uri_prefix S3 bucket = ''s3://'' @ opt_str bucket @ ''/''"
| "uri_prefix Gcs bucket = ''gs://'' @ opt_str bucket @ ''/''"
| "uri_prefix AzureBlob bucket = ''abfs://'' @ opt_str bucket @ ''/''"
| "uri_prefix Local bucket = ''file://''"

fun url_prefix :: "StorageScheme \<Rightarrow> string option \<Rightarrow> string" where
  "url_prefix S3 bucket = ''s3://'' @ opt_str bucket"
| "url_prefix Gcs bucket = ''gs://'' @ opt_str bucket"
| "url_prefix AzureBlob bucket = ''abfs://'' @ opt_str bucket"
| "url_prefix Local bucket = ''file://localhost''"

record ObjectLocation =
  ol_scheme :: StorageScheme
  ol_bucket :: "string option"
  ol_key :: string

datatype LocationError = Malformed string | UnsupportedScheme string | MissingBucket

definition to_uri :: "ObjectLocation \<Rightarrow> string" where
  "to_uri l = uri_prefix (ol_scheme l) (ol_bucket l) @ ol_key l"

definition split_scheme :: "string \<Rightarrow> LocationError + StorageScheme \<times> string" where
  "split_scheme uri =
    (case strip_prefix ''s3://'' uri of Some rest \<Rightarrow> Inr (S3, rest) | None \<Rightarrow>
     case strip_prefix ''gs://'' uri of Some rest \<Rightarrow> Inr (Gcs, rest) | None \<Rightarrow>
     case strip_prefix ''abfs://'' uri of Some rest \<Rightarrow> Inr (AzureBlob, rest) | None \<Rightarrow>
     case strip_prefix ''file://'' uri of Some rest \<Rightarrow> Inr (Local, rest) | None \<Rightarrow>
       let scheme_end = (case find_sub ''://'' uri of None \<Rightarrow> 0 | Some i \<Rightarrow> i)
       in Inl (UnsupportedScheme (take scheme_end uri)))"

definition normalize_key :: "string \<Rightarrow> LocationError + string" where
  "normalize_key raw =
    (let stripped = (case strip_prefix ''/'' raw of None \<Rightarrow> raw | Some s \<Rightarrow> s)
     in if list_ex (\<lambda>segment. segment = ''..'') (split_on (CHR ''/'') stripped)
        then Inl (Malformed ''path contains '..' segment'')
        else Inr (join_with (CHR ''/'') (filter (\<lambda>s. s \<noteq> []) (split_on (CHR ''/'') stripped))))"

definition parse_location :: "string \<Rightarrow> LocationError + ObjectLocation" where
  "parse_location uri =
    bind_r (split_scheme uri) (\<lambda>(scheme, rest).
      if scheme = Local
      then bind_r (normalize_key rest) (\<lambda>key. Inr \<lparr>ol_scheme = scheme, ol_bucket = None, ol_key = key\<rparr>)
      else if CHR ''/'' \<notin> set rest then Inl (Malformed (''no key after bucket in: '' @ uri))
      else
        let bucket = takeWhile (\<lambda>c. c \<noteq> CHR ''/'') rest; key_part = tl (dropWhile (\<lambda>c. c \<noteq> CHR ''/'') rest)
        in if bucket = [] then Inl MissingBucket
           else bind_r (normalize_key key_part) (\<lambda>key.
             Inr \<lparr>ol_scheme = scheme, ol_bucket = Some bucket, ol_key = key\<rparr>))"

section \<open>Normal locations\<close>

text \<open>A key is normal when it is empty or its segments are all proper: no empty segment (so no leading,
  trailing or double slash) and no \<open>..\<close>.\<close>

definition key_normal :: "string \<Rightarrow> bool" where
  "key_normal key \<longleftrightarrow> key = [] \<or> list_all (\<lambda>s. s \<noteq> [] \<and> s \<noteq> ''..'') (split_on (CHR ''/'') key)"

definition location_wf :: "ObjectLocation \<Rightarrow> bool" where
  "location_wf l \<longleftrightarrow> key_normal (ol_key l) \<and>
    (case ol_bucket l of
       None \<Rightarrow> ol_scheme l = Local
     | Some b \<Rightarrow> ol_scheme l \<noteq> Local \<and> b \<noteq> [] \<and> CHR ''/'' \<notin> set b)"

lemma normalize_key_normal:
  assumes "normalize_key raw = Inr key"
  shows "key_normal key"
proof -
  obtain s where s: "\<not> list_ex (\<lambda>x. x = ''..'') (split_on (CHR ''/'') s)"
    "key = join_with (CHR ''/'') (filter (\<lambda>x. x \<noteq> []) (split_on (CHR ''/'') s))"
    using assms by (auto simp: normalize_key_def Let_def split: if_splits)
  let ?ws = "filter (\<lambda>x. x \<noteq> []) (split_on (CHR ''/'') s)"
  show ?thesis
  proof (cases "?ws = []")
    case False
    then have "split_on (CHR ''/'') key = ?ws"
      unfolding s(2) by (intro split_on_join) (auto dest: split_on_no_sep)
    then show ?thesis using s(1) by (auto simp: key_normal_def list_all_iff list_ex_iff)
  qed (simp add: s(2) key_normal_def)
qed

lemma normalize_normal_key:
  assumes "key_normal key"
  shows "normalize_key key = Inr key"
proof (cases "key = []")
  case False
  then have seg: "\<forall>s \<in> set (split_on (CHR ''/'') key). s \<noteq> [] \<and> s \<noteq> ''..''"
    using assms by (simp add: key_normal_def list_all_iff)
  have "strip_prefix ''/'' key = None"
  proof (rule ccontr)
    assume "strip_prefix ''/'' key \<noteq> None"
    then obtain t where "key = CHR ''/'' # t" by (auto simp: strip_prefix_Some)
    then show False using seg by auto
  qed
  moreover have "filter (\<lambda>s. s \<noteq> []) (split_on (CHR ''/'') key) = split_on (CHR ''/'') key"
    using seg by (simp add: filter_id_conv)
  ultimately show ?thesis using seg
    by (auto simp: normalize_key_def Let_def list_ex_iff join_split_on)
qed (simp add: normalize_key_def strip_prefix_def starts_with_def)

lemma split_scheme_prefix:
  "split_scheme (''s3://'' @ rest) = Inr (S3, rest)"
  "split_scheme (''gs://'' @ rest) = Inr (Gcs, rest)"
  "split_scheme (''abfs://'' @ rest) = Inr (AzureBlob, rest)"
  "split_scheme (''file://'' @ rest) = Inr (Local, rest)"
  by (simp_all add: split_scheme_def strip_prefix_def starts_with_def)

lemma bucket_split:
  assumes "CHR ''/'' \<notin> set b"
  shows "takeWhile (\<lambda>c. c \<noteq> CHR ''/'') (b @ CHR ''/'' # key) = b"
    "dropWhile (\<lambda>c. c \<noteq> CHR ''/'') (b @ CHR ''/'' # key) = CHR ''/'' # key"
proof -
  have "\<forall>c \<in> set b. c \<noteq> CHR ''/''" using assms by auto
  then show "takeWhile (\<lambda>c. c \<noteq> CHR ''/'') (b @ CHR ''/'' # key) = b"
    "dropWhile (\<lambda>c. c \<noteq> CHR ''/'') (b @ CHR ''/'' # key) = CHR ''/'' # key"
    by (simp_all add: takeWhile_append2 dropWhile_append2)
qed

lemma parse_bucket_uri:
  assumes "split_scheme uri = Inr (scheme, b @ CHR ''/'' # key)" "scheme \<noteq> Local"
    "b \<noteq> []" "CHR ''/'' \<notin> set b" "key_normal key"
  shows "parse_location uri = Inr \<lparr>ol_scheme = scheme, ol_bucket = Some b, ol_key = key\<rparr>"
  using assms by (simp add: parse_location_def bucket_split normalize_normal_key)

lemma parse_to_uri:
  assumes wf: "location_wf l"
  shows "parse_location (to_uri l) = Inr l"
proof (cases "ol_bucket l")
  case None
  then have "ol_scheme l = Local" "key_normal (ol_key l)" using wf by (auto simp: location_wf_def)
  moreover from this have "split_scheme (to_uri l) = Inr (Local, ol_key l)"
    using split_scheme_prefix(4)[of "ol_key l"] by (simp add: to_uri_def)
  ultimately show ?thesis using None
    by (cases l) (simp add: parse_location_def normalize_normal_key)
next
  case (Some b)
  then have b: "ol_scheme l \<noteq> Local" "b \<noteq> []" "CHR ''/'' \<notin> set b" "key_normal (ol_key l)"
    using wf by (auto simp: location_wf_def)
  have "split_scheme (to_uri l) = Inr (ol_scheme l, b @ CHR ''/'' # ol_key l)"
    using Some b(1) split_scheme_prefix[of "b @ CHR ''/'' # ol_key l"]
    by (cases "ol_scheme l") (simp_all add: to_uri_def opt_str_def)
  from parse_bucket_uri[OF this b] show ?thesis using Some by (cases l) simp
qed

section \<open>Properties\<close>

text \<open>Property C20. Rendering and parsing are inverse on the locations the system works with: a successful
  parse always yields a normal location (a bucket exactly for the remote schemes, a key without
  empty or \<open>..\<close> segments), and parsing the URI of a normal location gives the location back.\<close>

theorem location_roundtrip:
  "(parse_location uri = Inr l \<longrightarrow> location_wf l) \<and> (location_wf l \<longrightarrow> parse_location (to_uri l) = Inr l)"
proof (intro conjI impI)
  assume "parse_location uri = Inr l"
  then show "location_wf l"
    by (auto simp: parse_location_def location_wf_def Let_def split: if_splits
        dest: normalize_key_normal set_takeWhileD)
qed (rule parse_to_uri)

theorem location_roundtrip_witness:
  "parse_location ''s3://lake//db/t/'' = Inr \<lparr>ol_scheme = S3, ol_bucket = Some ''lake'', ol_key = ''db/t''\<rparr> \<and>
    parse_location (to_uri \<lparr>ol_scheme = S3, ol_bucket = Some ''lake'', ol_key = ''db/t''\<rparr>) =
      Inr \<lparr>ol_scheme = S3, ol_bucket = Some ''lake'', ol_key = ''db/t''\<rparr>"
proof -
  have p: "parse_location ''s3://lake//db/t/'' = Inr \<lparr>ol_scheme = S3, ol_bucket = Some ''lake'', ol_key = ''db/t''\<rparr>"
    by code_simp
  then have "location_wf \<lparr>ol_scheme = S3, ol_bucket = Some ''lake'', ol_key = ''db/t''\<rparr>"
    using location_roundtrip[of "''s3://lake//db/t/''"] by blast
  then show ?thesis using p location_roundtrip by blast
qed

end
