(* ===== verification/Table_Model.thy ===== *)
theory Table_Model
  imports Location Write_Protocol
begin

text \<open>The table data model of the core crate: typed scalars and their partial order (\<open>scalar.rs\<close>), schemas and
  partition specifications (\<open>schema.rs\<close>), data files, snapshots and table metadata (\<open>file.rs\<close>) and the
  request and status types of the catalog boundary (\<open>traits/catalog.rs\<close>).

  Floating-point values are kept as their IEEE 754 bit patterns; \<open>float_key\<close> maps a pattern that is not a
  NaN to an integer that orders like the number it denotes. Hash maps are association lists without
  repeated keys.\<close>

section \<open>Scalars\<close>

datatype TeoScalar =
    SNull
  | SBoolean bool
  | SInt8 int | SInt16 int | SInt32 int | SInt64 int
  | SUInt8 nat | SUInt16 nat | SUInt32 nat | SUInt64 nat
  | SFloat32 "32 word" | SFloat64 "64 word"
  | SDecimal128 int nat int
  | SDate32 int
  | STimestampMicros int "string option"
  | STime64Micros int
  | SUtf8 string
  | SBinary "byte list"
  | SFixedSizeBinary "byte list"

definition is_null :: "TeoScalar \<Rightarrow> bool" where
  "is_null s \<longleftrightarrow> s = SNull"

datatype Ordering = Less | Equal | Greater

definition cmp :: "'a :: linorder \<Rightarrow> 'a \<Rightarrow> Ordering" where
  "cmp a b = (if a < b then Less else if a = b then Equal else Greater)"

text \<open>\<open>float_key msb max_exp bits\<close>: None for a NaN, else the signed magnitude. Both zeros have key 0.\<close>

definition float_key :: "nat \<Rightarrow> nat \<Rightarrow> nat \<Rightarrow> int option" where
  "float_key msb max_exp bits =
    (let m = bits mod msb in if m > max_exp then None else Some (if bits \<ge> msb then - int m else int m))"

definition f32_key :: "32 word \<Rightarrow> int option" where
  "f32_key w = float_key 2147483648 2139095040 (unat w)"

definition f64_key :: "64 word \<Rightarrow> int option" where
  "f64_key w = float_key 9223372036854775808 9218868437227405312 (unat w)"

definition partial_cmp_key :: "int option \<Rightarrow> int option \<Rightarrow> Ordering option" where
  "partial_cmp_key a b = (case (a, b) of (Some x, Some y) \<Rightarrow> Some (cmp x y) | _ \<Rightarrow> None)"

definition scalar_partial_cmp :: "TeoScalar \<Rightarrow> TeoScalar \<Rightarrow> Ordering option" where
  "scalar_partial_cmp a b =
    (case a of
       SNull \<Rightarrow> (case b of SNull \<Rightarrow> Some Equal | _ \<Rightarrow> None)
     | SBoolean x \<Rightarrow> (case b of SBoolean y \<Rightarrow> Some (cmp x y) | _ \<Rightarrow> None)
     | SInt8 x \<Rightarrow> (case b of SInt8 y \<Rightarrow> Some (cmp x y) | _ \<Rightarrow> None)
     | SInt16 x \<Rightarrow> (case b of SInt16 y \<Rightarrow> Some (cmp x y) | _ \<Rightarrow> None)
     | SInt32 x \<Rightarrow> (case b of SInt32 y \<Rightarrow> Some (cmp x y) | _ \<Rightarrow> None)
     | SInt64 x \<Rightarrow> (case b of SInt64 y \<Rightarrow> Some (cmp x y) | _ \<Rightarrow> None)
     | SUInt8 x \<Rightarrow> (case b of SUInt8 y \<Rightarrow> Some (cmp x y) | _ \<Rightarrow> None)
     | SUInt16 x \<Rightarrow> (case b of SUInt16 y \<Rightarrow> Some (cmp x y) | _ \<Rightarrow> None)
     | SUInt32 x \<Rightarrow> (case b of SUInt32 y \<Rightarrow> Some (cmp x y) | _ \<Rightarrow> None)
     | SUInt64 x \<Rightarrow> (case b of SUInt64 y \<Rightarrow> Some (cmp x y) | _ \<Rightarrow> None)
     | SFloat32 x \<Rightarrow> (case b of SFloat32 y \<Rightarrow> partial_cmp_key (f32_key x) (f32_key y) | _ \<Rightarrow> None)
     | SFloat64 x \<Rightarrow> (case b of SFloat64 y \<Rightarrow> partial_cmp_key (f64_key x) (f64_key y) | _ \<Rightarrow> None)
     | SDecimal128 x xp xs \<Rightarrow>
         (case b of SDecimal128 y yp ys \<Rightarrow> if xp = yp \<and> xs = ys then Some (cmp x y) else None | _ \<Rightarrow> None)
     | SDate32 x \<Rightarrow> (case b of SDate32 y \<Rightarrow> Some (cmp x y) | _ \<Rightarrow> None)
     | STimestampMicros x xtz \<Rightarrow>
         (case b of STimestampMicros y ytz \<Rightarrow> if xtz = ytz then Some (cmp x y) else None | _ \<Rightarrow> None)
     | STime64Micros x \<Rightarrow> (case b of STime64Micros y \<Rightarrow> Some (cmp x y) | _ \<Rightarrow> None)
     | SUtf8 x \<Rightarrow> (case b of SUtf8 y \<Rightarrow> Some (cmp x y) | _ \<Rightarrow> None)
     | SBinary x \<Rightarrow> (case b of SBinary y \<Rightarrow> Some (cmp x y) | _ \<Rightarrow> None)
     | SFixedSizeBinary x \<Rightarrow>
         (case b of SFixedSizeBinary y \<Rightarrow> if length x = length y then Some (cmp x y) else None | _ \<Rightarrow> None))"

text \<open>The derived equality: component-wise, with IEEE equality on floats (a NaN equals nothing).\<close>

definition key_eq :: "int option \<Rightarrow> int option \<Rightarrow> bool" where
  "key_eq a b \<longleftrightarrow> a \<noteq> None \<and> a = b"

definition scalar_eq :: "TeoScalar \<Rightarrow> TeoScalar \<Rightarrow> bool" where
  "scalar_eq a b \<longleftrightarrow>
    (case a of
       SFloat32 x \<Rightarrow> (case b of SFloat32 y \<Rightarrow> key_eq (f32_key x) (f32_key y) | _ \<Rightarrow> False)
     | SFloat64 x \<Rightarrow> (case b of SFloat64 y \<Rightarrow> key_eq (f64_key x) (f64_key y) | _ \<Rightarrow> False)
     | _ \<Rightarrow> a = b)"

fun has_nan :: "TeoScalar \<Rightarrow> bool" where
  "has_nan (SFloat32 a) = (f32_key a = None)"
| "has_nan (SFloat64 a) = (f64_key a = None)"
| "has_nan _ = False"

section \<open>Schemas\<close>

datatype TeoDataType =
    DBoolean | DInt8 | DInt16 | DInt32 | DInt64 | DUInt8 | DUInt16 | DUInt32 | DUInt64
  | DFloat32 | DFloat64 | DDecimal128 nat int | DDate32 | DTimestampMicros "string option"
  | DTime64Micros | DUtf8 | DBinary | DFixedSizeBinary int

record ColumnMeta =
  cm_id :: int
  cm_name :: string
  cm_data_type :: TeoDataType
  cm_nullable :: bool
  cm_doc :: "string option"

record SchemaDefinition =
  sd_schema_id :: int
  sd_columns :: "ColumnMeta list"
  sd_identifier_field_ids :: "int list"

definition by_id :: "SchemaDefinition \<Rightarrow> int \<Rightarrow> ColumnMeta option" where
  "by_id s i = find (\<lambda>c. cm_id c = i) (sd_columns s)"

definition by_name :: "SchemaDefinition \<Rightarrow> string \<Rightarrow> ColumnMeta option" where
  "by_name s n = find (\<lambda>c. cm_name c = n) (sd_columns s)"

datatype PartitionTransform =
  Identity | Year | Month | Day | Hour | Bucket nat | Truncate nat | VoidTransform

record PartitionField =
  pf_source_id :: int
  pf_field_id :: int
  pf_name :: string
  pf_transform :: PartitionTransform

record PartitionSpec =
  sp_spec_id :: int
  sp_fields :: "PartitionField list"

datatype SortDirection = Asc | Desc

datatype NullOrder = NullsFirst | NullsLast

record SortField =
  sf_source_id :: int
  sf_transform :: PartitionTransform
  sf_direction :: SortDirection
  sf_null_order :: NullOrder

record SortOrder =
  so_order_id :: int
  so_fields :: "SortField list"

section \<open>Files, snapshots and tables\<close>

datatype FileFormat = Parquet

datatype DataContent = Data | PositionDelete | EqualityDelete

record DataFile =
  df_content :: DataContent
  df_path :: ObjectLocation
  df_format :: FileFormat
  df_partition_spec_id :: int
  df_sort_order_id :: "int option"
  df_schema_id :: int
  df_partition_values :: "(int \<times> TeoScalar) list"
  df_record_count :: nat
  df_file_size_bytes :: nat
  df_column_sizes :: "(int \<times> nat) list"
  df_value_counts :: "(int \<times> nat) list"
  df_null_value_counts :: "(int \<times> nat) list"
  df_nan_value_counts :: "(int \<times> nat) list"
  df_lower_bounds :: "(int \<times> TeoScalar) list"
  df_upper_bounds :: "(int \<times> TeoScalar) list"
  df_split_offsets :: "int list"
  df_equality_ids :: "int list"
  df_key_metadata :: "byte list option"

datatype SnapshotOperation = OpAppend | OpOverwrite | OpReplace | OpDelete

record Snapshot =
  sn_snapshot_id :: snapshot_id
  sn_parent_snapshot_id :: "snapshot_id option"
  sn_sequence_number :: int
  sn_timestamp_ms :: int
  sn_operation :: SnapshotOperation
  sn_data_files :: "DataFile list"
  sn_delete_files :: "DataFile list"
  sn_summary :: props

record TableMetadata =
  tm_table_uuid :: uuid
  tm_namespace :: string
  tm_table_name :: string
  tm_table_location :: ObjectLocation
  tm_current_snapshot_id :: "snapshot_id option"
  tm_current_schema_id :: int
  tm_current_partition_spec_id :: int
  tm_current_sort_order_id :: int
  tm_schemas :: "SchemaDefinition list"
  tm_partition_specs :: "PartitionSpec list"
  tm_sort_orders :: "SortOrder list"
  tm_snapshots :: "Snapshot list"
  tm_current_snapshot :: "Snapshot option"
  tm_properties :: props

definition with_live_files :: "TableMetadata \<Rightarrow> DataFile list \<Rightarrow> TableMetadata teo_result" where
  "with_live_files m files =
    (let (data_files, delete_files) = partition (\<lambda>f. df_content f = Data) files in
     case tm_current_snapshot m of
       Some snapshot \<Rightarrow>
         Inr (m\<lparr>tm_current_snapshot :=
           Some (snapshot\<lparr>sn_data_files := data_files, sn_delete_files := delete_files\<rparr>)\<rparr>)
     | None \<Rightarrow>
         if data_files = [] \<and> delete_files = [] then Inr m
         else Inl (MetadataCorruption (TableIdent_new (tm_namespace m) (tm_table_name m))
           ''catalog returned live files for a table without a current snapshot''))"

definition ok_or :: "'a option \<Rightarrow> 'e \<Rightarrow> 'e + 'a" where
  "ok_or x e = (case x of None \<Rightarrow> Inl e | Some y \<Rightarrow> Inr y)"

definition current_schema :: "TableMetadata \<Rightarrow> SchemaDefinition teo_result" where
  "current_schema m = ok_or (find (\<lambda>s. sd_schema_id s = tm_current_schema_id m) (tm_schemas m))
    (Internal ''current_schema_id not found in schemas list'')"

definition current_partition_spec :: "TableMetadata \<Rightarrow> PartitionSpec teo_result" where
  "current_partition_spec m =
    ok_or (find (\<lambda>p. sp_spec_id p = tm_current_partition_spec_id m) (tm_partition_specs m))
      (Internal ''current_partition_spec_id not found in partition_specs list'')"

definition current_sort_order :: "TableMetadata \<Rightarrow> SortOrder teo_result" where
  "current_sort_order m =
    ok_or (find (\<lambda>s. so_order_id s = tm_current_sort_order_id m) (tm_sort_orders m))
      (Internal ''current_sort_order_id not found in sort_orders list'')"

definition schema_by_id :: "TableMetadata \<Rightarrow> int \<Rightarrow> SchemaDefinition option" where
  "schema_by_id m i = find (\<lambda>s. sd_schema_id s = i) (tm_schemas m)"

definition snapshot_by_id :: "TableMetadata \<Rightarrow> snapshot_id \<Rightarrow> Snapshot option" where
  "snapshot_by_id m i = find (\<lambda>s. sn_snapshot_id s = i) (tm_snapshots m)"

text \<open>Equality of hash maps, given the equality of the values, and the derived equality of data files.\<close>

definition hashmap_eq :: "('v \<Rightarrow> 'v \<Rightarrow> bool) \<Rightarrow> ('k \<times> 'v) list \<Rightarrow> ('k \<times> 'v) list \<Rightarrow> bool" where
  "hashmap_eq eq m n \<longleftrightarrow> length m = length n \<and>
    list_all (\<lambda>(k, v). case map_of n k of None \<Rightarrow> False | Some w \<Rightarrow> eq v w) m"

definition data_file_eq :: "DataFile \<Rightarrow> DataFile \<Rightarrow> bool" where
  "data_file_eq a b \<longleftrightarrow>
    df_content a = df_content b \<and> df_path a = df_path b \<and> df_format a = df_format b \<and>
    df_partition_spec_id a = df_partition_spec_id b \<and> df_sort_order_id a = df_sort_order_id b \<and>
    df_schema_id a = df_schema_id b \<and>
    hashmap_eq scalar_eq (df_partition_values a) (df_partition_values b) \<and>
    df_record_count a = df_record_count b \<and> df_file_size_bytes a = df_file_size_bytes b \<and>
    hashmap_eq (=) (df_column_sizes a) (df_column_sizes b) \<and>
    hashmap_eq (=) (df_value_counts a) (df_value_counts b) \<and>
    hashmap_eq (=) (df_null_value_counts a) (df_null_value_counts b) \<and>
    hashmap_eq (=) (df_nan_value_counts a) (df_nan_value_counts b) \<and>
    hashmap_eq scalar_eq (df_lower_bounds a) (df_lower_bounds b) \<and>
    hashmap_eq scalar_eq (df_upper_bounds a) (df_upper_bounds b) \<and>
    df_split_offsets a = df_split_offsets b \<and> df_equality_ids a = df_equality_ids b \<and>
    df_key_metadata a = df_key_metadata b"

section \<open>The catalog boundary\<close>

record RetainedFileSet =
  rf_paths :: "string set"
  rf_retained_snapshots :: "snapshot_id set"
  rf_expired_snapshots :: nat

record CommitAppend =
  ca_table :: TableIdent
  ca_table_uuid :: uuid
  ca_identity :: AppendCommitIdentity
  ca_base_snapshot_id :: "snapshot_id option"
  ca_added_data_files :: "DataFile list"
  ca_properties :: props

datatype CommitStatus = Committed TableMetadata | NotCommitted | Unknown string

record CommitReplace =
  cr_table :: TableIdent
  cr_base_snapshot_id :: snapshot_id
  cr_removed_data_files :: "string list"
  cr_added_data_files :: "DataFile list"
  cr_properties :: props

section \<open>Lemmas\<close>

subsection \<open>The order of scalars\<close>

lemma cmp_simps [simp]:
  "cmp a b = Less \<longleftrightarrow> a < b" "cmp a b = Equal \<longleftrightarrow> a = b" "cmp a b = Greater \<longleftrightarrow> b < a"
  by (auto simp: cmp_def)

fun reverse_ord :: "Ordering \<Rightarrow> Ordering" where
  "reverse_ord Less = Greater" | "reverse_ord Equal = Equal" | "reverse_ord Greater = Less"

lemma cmp_reverse [simp]: "reverse_ord (cmp a b) = cmp b a"
  by (auto simp: cmp_def)

lemma partial_cmp_key_reverse [simp]: "map_option reverse_ord (partial_cmp_key a b) = partial_cmp_key b a"
  by (auto simp: partial_cmp_key_def split: option.split)

lemma scalar_cmp_reverse: "scalar_partial_cmp b a = map_option reverse_ord (scalar_partial_cmp a b)"
  by (cases a; cases b; simp add: scalar_partial_cmp_def)

lemma partial_cmp_key_trans:
  "partial_cmp_key a b = Some Less \<Longrightarrow> partial_cmp_key b c = Some Less \<Longrightarrow> partial_cmp_key a c = Some Less"
  by (auto simp: partial_cmp_key_def split: option.splits)

lemma partial_cmp_key_Equal [simp]: "partial_cmp_key a b = Some Equal \<longleftrightarrow> key_eq a b"
  by (auto simp: partial_cmp_key_def key_eq_def split: option.splits)

lemma scalar_less_trans:
  assumes "scalar_partial_cmp a b = Some Less" "scalar_partial_cmp b c = Some Less"
  shows "scalar_partial_cmp a c = Some Less"
  using assms
  by (cases a; cases b; simp add: scalar_partial_cmp_def; cases c; simp split: if_splits)
    (blast intro: less_trans partial_cmp_key_trans)+

lemma scalar_cmp_Equal: "scalar_partial_cmp a b = Some Equal \<longleftrightarrow> scalar_eq a b"
  by (cases a; cases b; simp add: scalar_partial_cmp_def scalar_eq_def) auto

lemma scalar_eq_refl: "scalar_eq a a \<longleftrightarrow> \<not> has_nan a"
  by (cases a) (simp_all add: scalar_eq_def key_eq_def)

subsection \<open>Equality of files\<close>

lemma hashmap_eq_refl:
  assumes "distinct (map fst m)"
  shows "hashmap_eq eq m m \<longleftrightarrow> (\<forall>(k, v) \<in> set m. eq v v)"
proof -
  have "(case map_of m k of None \<Rightarrow> False | Some w \<Rightarrow> eq v w) \<longleftrightarrow> eq v v" if "(k, v) \<in> set m" for k v
    using map_of_is_SomeI[OF assms that] by simp
  then show ?thesis unfolding hashmap_eq_def list_all_iff by blast
qed

definition file_maps :: "DataFile \<Rightarrow> (int \<times> nat) list list \<times> (int \<times> TeoScalar) list list" where
  "file_maps f = ([df_column_sizes f, df_value_counts f, df_null_value_counts f, df_nan_value_counts f],
    [df_partition_values f, df_lower_bounds f, df_upper_bounds f])"

definition file_keys_distinct :: "DataFile \<Rightarrow> bool" where
  "file_keys_distinct f \<longleftrightarrow> list_all (\<lambda>m. distinct (map fst m)) (fst (file_maps f)) \<and>
    list_all (\<lambda>m. distinct (map fst m)) (snd (file_maps f))"

definition nan_free :: "DataFile \<Rightarrow> bool" where
  "nan_free f \<longleftrightarrow> list_all (\<lambda>m. list_all (\<lambda>(k, v). \<not> has_nan v) m) (snd (file_maps f))"

lemma data_file_eq_refl: "file_keys_distinct f \<Longrightarrow> data_file_eq f f \<longleftrightarrow> nan_free f"
  by (auto simp: data_file_eq_def file_keys_distinct_def nan_free_def file_maps_def hashmap_eq_refl
      scalar_eq_refl list_all_iff)

subsection \<open>Live files\<close>

lemma with_live_files_ok:
  assumes "with_live_files m files = Inr m'" "tm_current_snapshot m = Some s"
  shows "\<exists>s'. tm_current_snapshot m' = Some s' \<and> sn_snapshot_id s' = sn_snapshot_id s \<and>
    (\<forall>f. f \<in> set (sn_data_files s') \<longleftrightarrow> f \<in> set files \<and> df_content f = Data) \<and>
    (\<forall>f. f \<in> set (sn_delete_files s') \<longleftrightarrow> f \<in> set files \<and> df_content f \<noteq> Data)"
  using assms by (auto simp: with_live_files_def)

section \<open>Properties\<close>

text \<open>Property C21. The comparison of typed scalars is a partial order consistent with their equality:
  swapping the arguments reverses the result, \<open>Equal\<close> is returned exactly for equal scalars, a scalar
  equals itself unless it is a NaN, and \<open>Less\<close> is transitive. Statistics-based pruning relies on it.\<close>

theorem scalar_partial_order:
  "scalar_partial_cmp b a = map_option reverse_ord (scalar_partial_cmp a b) \<and>
    (scalar_partial_cmp a b = Some Equal \<longleftrightarrow> scalar_eq a b) \<and>
    (scalar_eq a a \<longleftrightarrow> \<not> has_nan a) \<and>
    (scalar_partial_cmp a b = Some Less \<longrightarrow> scalar_partial_cmp b c = Some Less \<longrightarrow>
      scalar_partial_cmp a c = Some Less)"
  using scalar_cmp_reverse scalar_cmp_Equal scalar_eq_refl scalar_less_trans by blast

theorem scalar_partial_order_witness:
  "scalar_partial_cmp (SUtf8 ''a'') (SUtf8 ''b'') = Some Less \<and> scalar_partial_cmp (SUtf8 ''b'') (SUtf8 ''c'') = Some Less \<and>
    scalar_partial_cmp (SUtf8 ''a'') (SUtf8 ''c'') = Some Less"
proof -
  have "scalar_partial_cmp (SUtf8 ''a'') (SUtf8 ''b'') = Some Less" "scalar_partial_cmp (SUtf8 ''b'') (SUtf8 ''c'') = Some Less"
    by code_simp+
  then show ?thesis using scalar_partial_order by blast
qed


text \<open>A table without snapshots, for concrete runs.\<close>

definition demo_metadata :: TableMetadata where
  "demo_metadata = \<lparr>tm_table_uuid = 3, tm_namespace = ''ns'', tm_table_name = ''t'',
     tm_table_location = \<lparr>ol_scheme = S3, ol_bucket = Some ''lake'', ol_key = ''t''\<rparr>,
     tm_current_snapshot_id = None, tm_current_schema_id = 0, tm_current_partition_spec_id = 0,
     tm_current_sort_order_id = 0, tm_schemas = [], tm_partition_specs = [], tm_sort_orders = [],
     tm_snapshots = [], tm_current_snapshot = None, tm_properties = []\<rparr>"

end
