(* ===== verification/Wal_Prepared.thy ===== *)
theory Wal_Prepared
  imports Durable_File Table_Model
begin

text \<open>Durable prepared-flush intents (\<open>crates/teodb-storage/src/wal/prepared.rs\<close>): the sidecar record written before
  the first catalog request of a flush, its validation, and the operations that persist, list and
  remove sidecars. The JSON codec of a sidecar is a parameter (\<open>prepared_codec\<close>); the directory
  \<open>prepared/\<close> is an association list from file names to contents.\<close>

section \<open>Model\<close>

definition DEFAULT_MAX_PREPARED_FILES :: nat where
  "DEFAULT_MAX_PREPARED_FILES = 10000"

definition DEFAULT_MAX_PREPARED_BYTES :: nat where
  "DEFAULT_MAX_PREPARED_BYTES = 16 * 1024 * 1024"

record PreparedFlush =
  pf_version :: nat
  pf_table :: TableIdent
  pf_table_uuid :: uuid
  pf_writer_id :: uuid
  pf_writer_epoch :: nat
  pf_commit_id :: uuid
  pf_generations :: GenerationRange
  pf_record_count :: nat
  pf_prepared_at_ms :: int
  pf_data_files :: "DataFile list"
  pf_base_snapshot_id :: "snapshot_id option"

definition PreparedFlush_new ::
    "TableIdent \<Rightarrow> uuid \<Rightarrow> uuid \<Rightarrow> nat \<Rightarrow> uuid \<Rightarrow> GenerationRange \<Rightarrow> nat \<Rightarrow> int \<Rightarrow> DataFile list
      \<Rightarrow> snapshot_id option \<Rightarrow> PreparedFlush" where
  "PreparedFlush_new table table_uuid writer_id writer_epoch commit_id generations record_count prepared_at_ms
      data_files base_snapshot_id =
    \<lparr>pf_version = WRITE_PROTOCOL_VERSION, pf_table = table, pf_table_uuid = table_uuid,
     pf_writer_id = writer_id, pf_writer_epoch = writer_epoch, pf_commit_id = commit_id,
     pf_generations = generations, pf_record_count = record_count, pf_prepared_at_ms = prepared_at_ms,
     pf_data_files = data_files, pf_base_snapshot_id = base_snapshot_id\<rparr>"

text \<open>The derived equality, which compares the scalars of the data files with IEEE equality.\<close>

definition prepared_eq :: "PreparedFlush \<Rightarrow> PreparedFlush \<Rightarrow> bool" where
  "prepared_eq p q \<longleftrightarrow> list_all2 data_file_eq (pf_data_files p) (pf_data_files q) \<and>
    p\<lparr>pf_data_files := []\<rparr> = q\<lparr>pf_data_files := []\<rparr>"

record prepared_codec =
  pc_enc :: "PreparedFlush \<Rightarrow> byte list option"
  pc_dec :: "byte list \<Rightarrow> PreparedFlush option"

definition prepared_codec_ok :: "prepared_codec \<Rightarrow> PreparedFlush \<Rightarrow> bool" where
  "prepared_codec_ok C p \<longleftrightarrow>
    (case pc_enc C p of None \<Rightarrow> True | Some b \<Rightarrow> b \<noteq> [] \<and> pc_dec C b = Some p)"

fun find_index :: "('a \<Rightarrow> bool) \<Rightarrow> 'a list \<Rightarrow> nat option" where
  "find_index P [] = None"
| "find_index P (x # xs) = (if P x then Some 0 else map_option Suc (find_index P xs))"

definition rfind_index :: "('a \<Rightarrow> bool) \<Rightarrow> 'a list \<Rightarrow> nat option" where
  "rfind_index P xs = map_option (\<lambda>i. length xs - 1 - i) (find_index P (rev xs))"

text \<open>The path of a data file ends in \<open>.../data/.../<writer>/<file>\<close>.\<close>

definition path_is_writer_owned :: "string \<Rightarrow> string list \<Rightarrow> bool" where
  "path_is_writer_owned writer components =
    (case rfind_index (\<lambda>c. c = writer) components of
       None \<Rightarrow> False
     | Some index \<Rightarrow> index + 2 = length components \<and>
         (case find_index (\<lambda>c. c = ''data'') components of None \<Rightarrow> False | Some data \<Rightarrow> data < index))"

fun scheme_debug :: "StorageScheme \<Rightarrow> string" where
  "scheme_debug S3 = ''S3''" | "scheme_debug Gcs = ''Gcs''"
| "scheme_debug AzureBlob = ''AzureBlob''" | "scheme_debug Local = ''Local''"

definition unique_path :: "ObjectLocation \<Rightarrow> string" where
  "unique_path l = scheme_debug (ol_scheme l) @ ''|'' @ opt_str (ol_bucket l) @ ''|'' @ ol_key l"

definition validate_file :: "text_codec \<Rightarrow> PreparedFlush \<Rightarrow> DataFile \<Rightarrow> unit teo_result" where
  "validate_file T p f =
    (let key = ol_key (df_path f); components = split_on (CHR ''/'') key; file_name = last components in
     if starts_with key ''/'' \<or> list_ex (\<lambda>c. c = [] \<or> c = ''..'') components
        \<or> \<not> path_is_writer_owned (uuid_fmt T (pf_writer_id p)) components
     then Inl (wal ''prepared data file path is outside the writer data subtree'')
     else if \<not> starts_with file_name (uuid_fmt T (pf_commit_id p) @ ''-'') \<or> \<not> ends_with file_name ''.parquet''
     then Inl (wal ''prepared data file is not owned by commit'')
     else if df_content f \<noteq> Data \<or> df_format f \<noteq> Parquet
     then Inl (wal ''prepared file is not a Parquet data file'')
     else Inr ())"

fun validate_files ::
    "text_codec \<Rightarrow> PreparedFlush \<Rightarrow> DataFile list \<Rightarrow> string set \<Rightarrow> nat \<Rightarrow> nat teo_result" where
  "validate_files T p [] seen_paths file_records = Inr file_records"
| "validate_files T p (f # fs) seen_paths file_records =
    bind_r (validate_file T p f) (\<lambda>_.
      if unique_path (df_path f) \<in> seen_paths then Inl (wal ''prepared intent repeats data file'')
      else if file_records + df_record_count f \<ge> u64_bound
      then Inl (wal ''prepared file record count overflow'')
      else validate_files T p fs (insert (unique_path (df_path f)) seen_paths)
        (file_records + df_record_count f))"

definition validate_prepared :: "text_codec \<Rightarrow> uuid \<Rightarrow> nat \<Rightarrow> PreparedFlush \<Rightarrow> unit teo_result" where
  "validate_prepared T expected_writer max_files p =
    (if pf_version p \<noteq> WRITE_PROTOCOL_VERSION then Inl (wal ''unsupported prepared intent version'')
     else if is_nil (pf_table_uuid p) then Inl (wal ''prepared intent has nil table UUID'')
     else if is_nil (pf_writer_id p) then Inl (wal ''prepared intent has nil writer ID'')
     else if pf_writer_id p \<noteq> expected_writer then Inl (wal ''prepared intent writer does not match WAL writer'')
     else if length (pf_data_files p) > max_files then Inl (wal ''prepared intent has too many files'')
     else if pf_writer_epoch p = 0 then Inl (wal ''prepared intent has zero writer epoch'')
     else if is_nil (pf_commit_id p) then Inl (wal ''prepared intent has nil commit ID'')
     else if gr_lo (pf_generations p) = 0 \<or> gr_lo (pf_generations p) > gr_hi (pf_generations p)
     then Inl (wal ''prepared intent has an invalid generation range'')
     else if pf_record_count p = 0 then Inl (wal ''prepared intent has zero records'')
     else if pf_prepared_at_ms p < 0 then Inl (wal ''prepared intent has a negative preparation timestamp'')
     else if pf_data_files p = [] then Inl (wal ''prepared intent has no data files'')
     else bind_r (validate_files T p (pf_data_files p) {} 0) (\<lambda>file_records.
       if file_records \<noteq> pf_record_count p
       then Inl (wal ''prepared file record count does not match intent count'')
       else Inr ()))"

definition path_for :: "text_codec \<Rightarrow> uuid \<Rightarrow> string" where
  "path_for T table_uuid = uuid_fmt T table_uuid @ ''.json''"

record prepared_limits =
  pl_writer :: uuid
  pl_max_files :: nat
  pl_max_bytes :: nat

definition read_one ::
    "text_codec \<Rightarrow> prepared_codec \<Rightarrow> prepared_limits \<Rightarrow> string \<Rightarrow> fs \<Rightarrow> PreparedFlush teo_result" where
  "read_one T C L name dir =
    (case map_of dir name of
       None \<Rightarrow> Inl (wal_source ''stat prepared intent'' [])
     | Some payload \<Rightarrow>
         if length payload = 0 \<or> length payload > pl_max_bytes L
         then Inl (wal ''prepared intent has invalid size'')
         else (case pc_dec C payload of
             None \<Rightarrow> Inl (wal_source ''parse prepared intent'' [])
           | Some p \<Rightarrow>
               bind_r (validate_prepared T (pl_writer L) (pl_max_files L) p) (\<lambda>_.
                 if name \<noteq> path_for T (pf_table_uuid p)
                 then Inl (wal ''prepared intent filename does not match table UUID'')
                 else Inr p)))"

definition prepared_msg :: "fs_step \<Rightarrow> string" where
  "prepared_msg step =
    (case step of
       CreateTmp \<Rightarrow> ''create prepared intent temp file'' | WriteTmp \<Rightarrow> ''write prepared intent''
     | SyncTmp \<Rightarrow> ''fsync prepared intent'' | RenameTmp \<Rightarrow> ''rename prepared intent''
     | SyncDir \<Rightarrow> ''fsync prepared intent directory'')"

definition prepared_tmp :: "text_codec \<Rightarrow> uuid \<Rightarrow> uuid \<Rightarrow> string" where
  "prepared_tmp T table_uuid u = ''.'' @ uuid_fmt T table_uuid @ ''.'' @ uuid_fmt T u @ ''.tmp''"

text \<open>\<open>persist\<close>; the plan gives the fresh UUID of the temporary name and the outcome of the file operations.\<close>

definition persist_prepared ::
    "text_codec \<Rightarrow> prepared_codec \<Rightarrow> prepared_limits \<Rightarrow> uuid \<times> io_plan \<Rightarrow> PreparedFlush \<Rightarrow> fs \<Rightarrow> unit fs_result" where
  "persist_prepared T C L plan p dir =
    bind_io (lift_io (validate_prepared T (pl_writer L) (pl_max_files L) p) dir) (\<lambda>_ dir.
    let path = path_for T (pf_table_uuid p) in
    if map_of dir path \<noteq> None
    then lift_io (bind_r (read_one T C L path dir) (\<lambda>existing.
      if prepared_eq existing p then Inr ()
      else Inl (wal ''different prepared intent already exists for table''))) dir
    else (case pc_enc C p of
        None \<Rightarrow> (dir, Some (Inl (wal_source ''serialize prepared intent'' [])))
      | Some payload \<Rightarrow>
          if length payload > pl_max_bytes L then (dir, Some (Inl (wal ''prepared intent exceeds limit'')))
          else replace_file prepared_msg (snd plan) (prepared_tmp T (pf_table_uuid p) (fst plan)) path payload dir))"

definition has_json_extension :: "string \<Rightarrow> bool" where
  "has_json_extension name \<longleftrightarrow> ends_with name ''.json'' \<and> name \<noteq> ''.json''"

fun read_all ::
    "text_codec \<Rightarrow> prepared_codec \<Rightarrow> prepared_limits \<Rightarrow> fs \<Rightarrow> string list \<Rightarrow> PreparedFlush list teo_result" where
  "read_all T C L dir [] = Inr []"
| "read_all T C L dir (name # names) =
    bind_r (read_one T C L name dir) (\<lambda>p. map_sum id ((#) p) (read_all T C L dir names))"

definition list_prepared ::
    "text_codec \<Rightarrow> prepared_codec \<Rightarrow> prepared_limits \<Rightarrow> fs \<Rightarrow> PreparedFlush list teo_result" where
  "list_prepared T C L dir = read_all T C L dir (sort (filter has_json_extension (map fst dir)))"

text \<open>\<open>remove_ok\<close>: the unlink succeeds; \<open>sync_ok\<close>: the directory fsync after it succeeds.\<close>

definition remove_prepared :: "text_codec \<Rightarrow> bool \<Rightarrow> bool \<Rightarrow> uuid \<Rightarrow> fs \<Rightarrow> unit fs_result" where
  "remove_prepared T remove_ok sync_ok table_uuid dir =
    (let path = path_for T table_uuid in
     if map_of dir path = None then (dir, Some (Inr ()))
     else if \<not> remove_ok then (dir, Some (Inl (wal_source ''remove prepared intent'' [])))
     else (al_del path dir,
       Some (if sync_ok then Inr () else Inl (wal_source ''fsync prepared intent directory'' []))))"

section \<open>Abstraction: a map from table incarnations to intents\<close>

definition intents :: "text_codec \<Rightarrow> prepared_codec \<Rightarrow> prepared_limits \<Rightarrow> fs \<Rightarrow> uuid \<rightharpoonup> PreparedFlush" where
  "intents T C L dir u = (case read_one T C L (path_for T u) dir of Inl _ \<Rightarrow> None | Inr p \<Rightarrow> Some p)"

lemma path_for_inj: "uuid_text_ok T \<Longrightarrow> path_for T u = path_for T v \<longleftrightarrow> u = v"
  by (simp add: path_for_def uuid_fmt_inj)

lemma prepared_tmp_other: "prepared_tmp T t u \<noteq> path_for T v"
proof
  assume "prepared_tmp T t u = path_for T v"
  then have "last (prepared_tmp T t u) = last (path_for T v)" by simp
  then show False by (simp add: prepared_tmp_def path_for_def)
qed

interpretation ppf: atomic_replace
    "\<lambda>(u, io). replace_file prepared_msg io (prepared_tmp T t u) (path_for T t)" "path_for T t" "range (prepared_tmp T t)" for T t
  by (rule replace_file_atomic[OF prepared_tmp_other])

lemma intents_cong:
  "map_of dir (path_for T u) = map_of dir' (path_for T u) \<Longrightarrow> intents T C L dir u = intents T C L dir' u"
  by (simp add: intents_def read_one_def)

lemma read_one_name: "read_one T C L n dir = Inr p \<Longrightarrow> n = path_for T (pf_table_uuid p)"
  by (auto simp: read_one_def split: option.splits if_splits)

lemma intents_name: "uuid_text_ok T \<Longrightarrow> intents T C L dir u = Some p \<Longrightarrow> pf_table_uuid p = u"
  by (auto simp: intents_def path_for_inj dest: read_one_name split: sum.splits)

lemma read_written:
  assumes "validate_prepared T (pl_writer L) (pl_max_files L) p = Inr ()" "prepared_codec_ok C p"
    "pc_enc C p = Some b" "length b \<le> pl_max_bytes L" "map_of dir (path_for T (pf_table_uuid p)) = Some b"
  shows "read_one T C L (path_for T (pf_table_uuid p)) dir = Inr p"
  using assms by (simp add: read_one_def prepared_codec_ok_def)

text \<open>One abstract step of \<open>persist\<close>: nothing, or the new intent under its table.\<close>

lemma replace_intents:
  assumes T: "uuid_text_ok T"
    and rd: "\<And>d. map_of d (path_for T t) = Some b \<Longrightarrow> read_one T C L (path_for T t) d = Inr p"
    and r: "replace_file prepared_msg io (prepared_tmp T t u) (path_for T t) b dir = (dir', r)"
  shows "intents T C L dir' = intents T C L dir \<or> intents T C L dir' = (intents T C L dir)(t \<mapsto> p)"
    and "r = Some (Inr ()) \<Longrightarrow> intents T C L dir' = (intents T C L dir)(t \<mapsto> p)"
proof -
  have r': "(case (u, io) of (u, io) \<Rightarrow> replace_file prepared_msg io (prepared_tmp T t u) (path_for T t)) b dir = (dir', r)"
    using r by simp
  have other: "intents T C L dir' v = intents T C L dir v" if "v \<noteq> t" for v
  proof -
    have "path_for T v \<noteq> path_for T t" using that by (simp add: path_for_inj[OF T])
    moreover have "path_for T v \<notin> range (prepared_tmp T t)" using prepared_tmp_other by (metis rangeE)
    ultimately have "map_of dir' (path_for T v) = map_of dir (path_for T v)" by (rule ppf.untouched[OF r'])
    then show ?thesis by (rule intents_cong)
  qed
  have new: "intents T C L dir' = (intents T C L dir)(t \<mapsto> p)" if "map_of dir' (path_for T t) = Some b"
    using other rd[OF that] by (auto simp: intents_def fun_eq_iff)
  have old: "intents T C L dir' = intents T C L dir" if "map_of dir' (path_for T t) = map_of dir (path_for T t)"
  proof
    fix v show "intents T C L dir' v = intents T C L dir v"
      using other[of v] intents_cong[OF that] by (cases "v = t") simp_all
  qed
  show "intents T C L dir' = intents T C L dir \<or> intents T C L dir' = (intents T C L dir)(t \<mapsto> p)"
    using ppf.old_or_new[OF r'] new old by auto
  show "intents T C L dir' = (intents T C L dir)(t \<mapsto> p)" if "r = Some (Inr ())"
    using ppf.stored[OF r'[unfolded that]] by (rule new)
qed

lemma persist_absent:
  assumes T: "uuid_text_ok T" and C: "prepared_codec_ok C p"
    and ab: "map_of dir (path_for T (pf_table_uuid p)) = None"
    and r: "persist_prepared T C L plan p dir = (dir', r)"
  shows "intents T C L dir' = intents T C L dir \<or> intents T C L dir' = (intents T C L dir)(pf_table_uuid p \<mapsto> p)"
    and "r = Some (Inr ()) \<Longrightarrow> intents T C L dir' = (intents T C L dir)(pf_table_uuid p \<mapsto> p)"
proof -
  consider "dir' = dir" "r \<noteq> Some (Inr ())"
    | b where "pc_enc C p = Some b" "length b \<le> pl_max_bytes L"
        "validate_prepared T (pl_writer L) (pl_max_files L) p = Inr ()"
        "replace_file prepared_msg (snd plan) (prepared_tmp T (pf_table_uuid p) (fst plan)) (path_for T (pf_table_uuid p)) b dir = (dir', r)"
    using r ab by (auto simp: persist_prepared_def bind_io_lift Let_def split: sum.splits option.splits if_splits)
  note cs = this
  show "intents T C L dir' = intents T C L dir \<or> intents T C L dir' = (intents T C L dir)(pf_table_uuid p \<mapsto> p)"
    using cs
  proof cases
    case 2
    show ?thesis by (rule replace_intents(1)[OF T _ 2(4)]) (rule read_written[OF 2(3) C 2(1,2)])
  qed simp
  show "intents T C L dir' = (intents T C L dir)(pf_table_uuid p \<mapsto> p)" if "r = Some (Inr ())"
    using cs
  proof cases
    case 2
    show ?thesis by (rule replace_intents(2)[OF T _ 2(4) that]) (rule read_written[OF 2(3) C 2(1,2)])
  qed (use that in simp)
qed

lemma persist_present:
  assumes "map_of dir (path_for T (pf_table_uuid p)) \<noteq> None" "persist_prepared T C L plan p dir = (dir', r)"
  shows "dir' = dir" "r = Some (Inr ()) \<Longrightarrow> \<exists>q. intents T C L dir (pf_table_uuid p) = Some q \<and> prepared_eq q p"
proof -
  define rd where "rd = bind_r (read_one T C L (path_for T (pf_table_uuid p)) dir) (\<lambda>existing.
    if prepared_eq existing p then Inr () else Inl (wal ''different prepared intent already exists for table''))"
  have "(case validate_prepared T (pl_writer L) (pl_max_files L) p of Inl e \<Rightarrow> (dir, Some (Inl e)) | Inr _ \<Rightarrow> (dir, Some rd)) =
      (dir', r)"
    using assms unfolding rd_def
    by (cases "validate_prepared T (pl_writer L) (pl_max_files L) p")
      (simp_all add: persist_prepared_def bind_io_lift Let_def lift_io_def[symmetric])
  then have d: "dir' = dir" "r = Some (Inr ()) \<Longrightarrow> rd = Inr ()"
    by (auto split: sum.splits)
  show "dir' = dir" by (rule d)
  show "\<exists>q. intents T C L dir (pf_table_uuid p) = Some q \<and> prepared_eq q p" if "r = Some (Inr ())"
    using d(2)[OF that] unfolding rd_def intents_def
    by (cases "read_one T C L (path_for T (pf_table_uuid p)) dir") (auto split: if_splits)
qed

section \<open>Listing\<close>

lemma read_all_Inr:
  "read_all T C L dir ns = Inr ps \<longleftrightarrow> list_all2 (\<lambda>n p. read_one T C L n dir = Inr p) ns ps"
proof (induction ns arbitrary: ps)
  case (Cons n ns)
  show ?case by (cases ps) (auto simp: Cons)
qed auto

lemma has_json_path_for: "uuid_text_ok T \<Longrightarrow> has_json_extension (path_for T u)"
  using uuid_fmt_plain(1)[of T u] by (simp add: has_json_extension_def path_for_def ends_with_def)

lemma list_prepared_ran:
  assumes T: "uuid_text_ok T" and l: "list_prepared T C L dir = Inr ps"
  shows "set ps = ran (intents T C L dir)"
proof -
  let ?ns = "sort (filter has_json_extension (map fst dir))"
  have l2: "list_all2 (\<lambda>n p. read_one T C L n dir = Inr p) ?ns ps"
    using l by (simp add: list_prepared_def read_all_Inr)
  show ?thesis
  proof
    show "set ps \<subseteq> ran (intents T C L dir)"
    proof
      fix p assume "p \<in> set ps"
      then obtain n where "read_one T C L n dir = Inr p" using l2 by (auto simp: in_set_conv_nth list_all2_conv_all_nth)
      moreover from this have "n = path_for T (pf_table_uuid p)" by (rule read_one_name)
      ultimately have "intents T C L dir (pf_table_uuid p) = Some p" by (simp add: intents_def)
      then show "p \<in> ran (intents T C L dir)" by (rule ranI)
    qed
    show "ran (intents T C L dir) \<subseteq> set ps"
    proof
      fix p assume "p \<in> ran (intents T C L dir)"
      then obtain u where "intents T C L dir u = Some p" by (auto simp: ran_def)
      then have "read_one T C L (path_for T u) dir = Inr p" by (simp add: intents_def split: sum.splits)
      moreover from this have "path_for T u \<in> fst ` set dir"
        by (auto simp: read_one_def split: option.splits dest: map_of_SomeD intro!: rev_image_eqI)
      then have "path_for T u \<in> set ?ns" by (simp add: has_json_path_for[OF T])
      then obtain i where "i < length ?ns" "?ns ! i = path_for T u" unfolding in_set_conv_nth by blast
      then have "i < length ps" "read_one T C L (path_for T u) dir = Inr (ps ! i)"
        using l2 unfolding list_all2_conv_all_nth by metis+
      ultimately show "p \<in> set ps" using nth_mem[of i ps] by simp
    qed
  qed
qed

section \<open>Properties\<close>

text \<open>Property C7. Persisting an intent refines an update of a map from table incarnations to intents, atomically:
  whatever file operation fails or crashes, afterwards the map is the old one or the old one with
  exactly the new intent added; success means that the table now has an intent equal to the given
  one; and an intent that is already there is never overwritten.\<close>

theorem persist_refines_map:
  fixes T C L dir dir' p
  defines "before \<equiv> intents T C L dir" and "after \<equiv> intents T C L dir'"
  assumes "uuid_text_ok T" "prepared_codec_ok C p" "persist_prepared T C L plan p dir = (dir', r)"
  shows "(after = before \<or> after = before(pf_table_uuid p \<mapsto> p)) \<and>
    (r = Some (Inr ()) \<longrightarrow> (\<exists>q. after (pf_table_uuid p) = Some q \<and> (q = p \<or> prepared_eq q p))) \<and>
    (\<forall>q. before (pf_table_uuid p) = Some q \<longrightarrow> after = before)"
proof (cases "map_of dir (path_for T (pf_table_uuid p))")
  case None
  then have "before (pf_table_uuid p) = None" by (simp add: before_def intents_def read_one_def)
  then show ?thesis using persist_absent[OF assms(3,4) None assms(5)] by (auto simp: before_def after_def)
next
  case (Some b)
  then show ?thesis using persist_present[of dir T p C L plan dir' r] assms(5) by (auto simp: before_def after_def)
qed

text \<open>Property C8. Listing the sidecars returns exactly the intents of the map, and removing the sidecar of a
  table removes exactly its entry.\<close>

theorem list_and_remove_refine_map:
  assumes "uuid_text_ok T"
  shows "(list_prepared T C L dir = Inr ps \<longrightarrow> set ps = ran (intents T C L dir)) \<and>
    (remove_prepared T remove_ok sync_ok u dir = (dir', Some (Inr ())) \<longrightarrow>
      intents T C L dir' = (intents T C L dir)(u := None))"
proof (intro conjI impI)
  show "set ps = ran (intents T C L dir)" if "list_prepared T C L dir = Inr ps"
    by (rule list_prepared_ran[OF assms that])
  assume "remove_prepared T remove_ok sync_ok u dir = (dir', Some (Inr ()))"
  then have d: "map_of dir' (path_for T v) = (if v = u then None else map_of dir (path_for T v))" for v
    by (auto simp: remove_prepared_def Let_def path_for_inj[OF assms] split: if_splits)
  show "intents T C L dir' = (intents T C L dir)(u := None)"
  proof
    fix v show "intents T C L dir' v = ((intents T C L dir)(u := None)) v"
      using d[of v] by (cases "v = u") (simp_all add: intents_def read_one_def)
  qed
qed

subsection \<open>Witnesses\<close>

definition demo_location :: "string \<Rightarrow> ObjectLocation" where
  "demo_location key = \<lparr>ol_scheme = S3, ol_bucket = Some ''lake'', ol_key = key\<rparr>"

definition demo_file :: DataFile where
  "demo_file = \<lparr>df_content = Data, df_path = demo_location ''t/data/7/9-f0000.parquet'', df_format = Parquet,
    df_partition_spec_id = 0, df_sort_order_id = None, df_schema_id = 0, df_partition_values = [],
    df_record_count = 2, df_file_size_bytes = 10, df_column_sizes = [], df_value_counts = [],
    df_null_value_counts = [], df_nan_value_counts = [], df_lower_bounds = [], df_upper_bounds = [],
    df_split_offsets = [], df_equality_ids = [], df_key_metadata = None\<rparr>"

definition demo_prepared :: PreparedFlush where
  "demo_prepared = PreparedFlush_new (TableIdent_new ''ns'' ''t'') 3 7 1 9 \<lparr>gr_lo = 1, gr_hi = 2\<rparr> 2 0 [demo_file] None"

definition demo_prepared_codec :: prepared_codec where
  "demo_prepared_codec = \<lparr>pc_enc = (\<lambda>p. if p = demo_prepared then Some [1] else None),
    pc_dec = (\<lambda>b. if b = [1] then Some demo_prepared else None)\<rparr>"

definition demo_limits :: prepared_limits where
  "demo_limits = \<lparr>pl_writer = 7, pl_max_files = 10, pl_max_bytes = 100\<rparr>"

lemma demo_prepared_codec_ok: "prepared_codec_ok demo_prepared_codec p"
  by (simp add: prepared_codec_ok_def demo_prepared_codec_def)

lemma demo_digits: "dec_str 3 = ''3''" "dec_str 7 = ''7''" "dec_str 9 = ''9''" "dec_str (Suc 0) = ''1''"
  by code_simp+

lemma demo_fmt: "uuid_fmt demo_text 3 = ''3''" "uuid_fmt demo_text 7 = ''7''" "uuid_fmt demo_text 9 = ''9''"
  "uuid_fmt demo_text 1 = ''1''"
  by (simp_all add: demo_text_def demo_digits)

lemma demo_components:
  "split_on (CHR ''/'') ''t/data/7/9-f0000.parquet'' = [''t'', ''data'', ''7'', ''9-f0000.parquet'']"
  by code_simp

lemma demo_owned: "path_is_writer_owned ''7'' [''t'', ''data'', ''7'', ''9-f0000.parquet'']"
  by code_simp

lemma demo_validate_file: "validate_file demo_text demo_prepared demo_file = Inr ()"
  using demo_owned
  by (simp add: validate_file_def demo_file_def demo_prepared_def PreparedFlush_new_def demo_location_def demo_fmt
      demo_components starts_with_def ends_with_def)

lemma demo_validate_prepared: "validate_prepared demo_text 7 10 demo_prepared = Inr ()"
proof -
  have p: "pf_data_files demo_prepared = [demo_file]" "pf_record_count demo_prepared = 2" "df_record_count demo_file = 2"
    by (simp_all add: demo_prepared_def PreparedFlush_new_def demo_file_def)
  have "validate_files demo_text demo_prepared [demo_file] {} 0 = Inr 2"
    by (simp add: demo_validate_file p u64_bound_def)
  then show ?thesis
    by (simp add: validate_prepared_def p) (simp add: demo_prepared_def PreparedFlush_new_def is_nil_def)
qed

lemma demo_persist_prepared:
  "persist_prepared demo_text demo_prepared_codec demo_limits (1, io_good) demo_prepared [] =
    ([(''3.json'', [1])], Some (Inr ()))"
proof -
  have "pf_table_uuid demo_prepared = 3" by (simp add: demo_prepared_def PreparedFlush_new_def)
  then show ?thesis
    by (simp add: persist_prepared_def bind_io_lift demo_limits_def demo_validate_prepared Let_def path_for_def
        demo_fmt demo_prepared_codec_def replace_file_def io_good_def al_del_def)
qed

theorem persist_refines_map_witness:
  "persist_prepared demo_text demo_prepared_codec demo_limits (1, io_good) demo_prepared [] =
      ([(''3.json'', [1])], Some (Inr ())) \<and>
    (\<exists>q. intents demo_text demo_prepared_codec demo_limits [(''3.json'', [1])] (pf_table_uuid demo_prepared) = Some q \<and>
      (q = demo_prepared \<or> prepared_eq q demo_prepared))"
  using persist_refines_map[OF demo_text_ok demo_prepared_codec_ok demo_persist_prepared] demo_persist_prepared by blast

theorem list_and_remove_refine_map_witness:
  "remove_prepared demo_text True True 3 [(''3.json'', [1])] = ([], Some (Inr ())) \<and>
    intents demo_text demo_prepared_codec demo_limits [] =
      (intents demo_text demo_prepared_codec demo_limits [(''3.json'', [1])])(3 := None)"
proof -
  have "remove_prepared demo_text True True 3 [(''3.json'', [1])] = ([], Some (Inr ()))"
    by (simp add: remove_prepared_def path_for_def demo_fmt al_del_def)
  then show ?thesis using list_and_remove_refine_map[OF demo_text_ok] by blast
qed

end
