(* ===== verification/Wal_Manager.thy ===== *)
theory Wal_Manager
  imports Wal_Writer Wal_Identity Wal_Prepared
begin

text \<open>The write-ahead log as a whole (\<open>crates/teodb-storage/src/wal/manager.rs\<close> and \<open>wal/state.rs\<close>): the manager owns the writer
  task, the identity, the prepared intents and the cache of committed generations, and persists that cache in the
  checkpoint file \<open>committed.json\<close>.

  The state of the manager includes what it owns on disk: the segments (\<open>disk\<close>), the small files of the root, and the
  directory \<open>prepared/\<close>. Segments and small files lie in the same directory: the scan for an identity sees both, and replacing a small
  file durably syncs the directory entries of the segments too. JSON is a parameter. The mutexes of the source make every operation on the
  committed map atomic, and \<open>checkpoint_persist_lock\<close> makes snapshot and persist of \<open>mark_committed\<close> one step. The lease is
  the subject of \<open>Wal_Lease\<close>; here its acquisition is an oracle.\<close>

section \<open>The checkpoint file\<close>

record CkptEntry =
  ce_namespace :: string
  ce_name :: string
  ce_table_uuid :: uuid
  ce_generation :: generation

record ckpt_codec =
  ck_enc :: "nat \<times> CkptEntry list \<Rightarrow> byte list option"
  ck_dec :: "byte list \<Rightarrow> (nat \<times> CkptEntry list) option"

type_synonym committed = "(WalTableKey \<times> generation) list"

definition CHECKPOINT_VERSION :: nat where
  "CHECKPOINT_VERSION = 1"

definition COMMITTED_CHECKPOINT_FILE :: string where
  "COMMITTED_CHECKPOINT_FILE = ''committed.json''"

definition checkpoint_tmp :: string where
  "checkpoint_tmp = ''committed.json.tmp''"

definition ckpt_key :: "CkptEntry \<Rightarrow> WalTableKey" where
  "ckpt_key e = WalTableKey_new (ce_table_uuid e) (TableIdent_new (ce_namespace e) (ce_name e))"

fun load_entries :: "CkptEntry list \<Rightarrow> committed \<Rightarrow> committed teo_result" where
  "load_entries [] committed = Inr committed"
| "load_entries (e # es) committed =
    (if is_nil (ce_table_uuid e) then Inl (wal ''committed checkpoint contains a nil table UUID'')
     else if ce_namespace e = [] \<or> ce_name e = [] then Inl (wal ''committed checkpoint contains an empty table identifier'')
     else if map_of committed (ckpt_key e) \<noteq> None
     then Inl (wal ''committed checkpoint contains a duplicate table incarnation'')
     else load_entries es (al_put (ckpt_key e) (ce_generation e) committed))"

definition load_committed_checkpoint :: "ckpt_codec \<Rightarrow> bool \<Rightarrow> fs \<Rightarrow> committed teo_result" where
  "load_committed_checkpoint K read_ok files =
    (case map_of files COMMITTED_CHECKPOINT_FILE of
       None \<Rightarrow> Inr []
     | Some data \<Rightarrow>
         if \<not> read_ok then Inl (wal_source ''read committed checkpoint'' [])
         else (case ck_dec K data of
             None \<Rightarrow> Inl (wal_source ''committed checkpoint is corrupt'' [])
           | Some (version, entries) \<Rightarrow>
               if version \<noteq> CHECKPOINT_VERSION then Inl (wal ''unsupported committed checkpoint version'')
               else load_entries entries []))"

definition ckpt_entry :: "WalTableKey \<times> generation \<Rightarrow> CkptEntry" where
  "ckpt_entry = (\<lambda>(key, g). \<lparr>ce_namespace = ti_namespace (wk_ident key), ce_name = ti_name (wk_ident key),
     ce_table_uuid = wk_table_uuid key, ce_generation = g\<rparr>)"

definition ckpt_entries :: "committed \<Rightarrow> CkptEntry list" where
  "ckpt_entries committed =
    sort_key (\<lambda>e. (ce_namespace e, ce_name e, ce_table_uuid e)) (map ckpt_entry committed)"

definition checkpoint_msg :: "fs_step \<Rightarrow> string" where
  "checkpoint_msg step =
    (case step of
       CreateTmp \<Rightarrow> ''write checkpoint'' | WriteTmp \<Rightarrow> ''write checkpoint'' | SyncTmp \<Rightarrow> ''fsync checkpoint''
     | RenameTmp \<Rightarrow> ''rename checkpoint'' | SyncDir \<Rightarrow> ''fsync WAL root after checkpoint rename'')"

definition persist_committed_checkpoint :: "ckpt_codec \<Rightarrow> io_plan \<Rightarrow> committed \<Rightarrow> fs \<Rightarrow> unit fs_result" where
  "persist_committed_checkpoint K io committed files =
    (case ck_enc K (CHECKPOINT_VERSION, ckpt_entries committed) of
       None \<Rightarrow> (files, Some (Inl (wal_source ''serialize checkpoint'' [])))
     | Some json \<Rightarrow> overwrite_file checkpoint_msg io checkpoint_tmp COMMITTED_CHECKPOINT_FILE json files)"

section \<open>The manager\<close>

record WalConfig =
  wcf_max_segment_bytes :: nat
  wcf_fsync_on_append :: bool
  wcf_soft_watermark_bytes :: nat
  wcf_hard_cap_bytes :: nat
  wcf_recovery_mode :: WalRecoveryMode
  wcf_identity :: WalIdentityConfig
  wcf_max_prepared_files :: nat
  wcf_max_prepared_bytes :: nat

definition WalConfig_default :: WalConfig where
  "WalConfig_default = \<lparr>wcf_max_segment_bytes = 256 * 1024 * 1024, wcf_fsync_on_append = True,
     wcf_soft_watermark_bytes = 4 * 1024 * 1024 * 1024, wcf_hard_cap_bytes = 8 * 1024 * 1024 * 1024,
     wcf_recovery_mode = Fail, wcf_identity = \<lparr>ic_cluster_id = None, ic_node_id = None, ic_writer_slot = None\<rparr>,
     wcf_max_prepared_files = DEFAULT_MAX_PREPARED_FILES, wcf_max_prepared_bytes = DEFAULT_MAX_PREPARED_BYTES\<rparr>"

record WalManager =
  wm_cfg :: WalConfig
  wm_identity :: WalIdentity
  wm_committed :: committed
  wm_writer :: SegmentWriter
  wm_disk :: disk
  wm_files :: fs
  wm_prepared :: fs

record 'b wal_codecs =
  wx_text :: text_codec
  wx_frame :: "'b frame_codec"
  wx_identity :: identity_codec
  wx_prepared :: prepared_codec
  wx_ckpt :: ckpt_codec

definition disk_view :: "disk \<Rightarrow> wal_root" where
  "disk_view d = map (\<lambda>f. \<lparr>wf_name = dk_name f, wf_data = dk_data f, wf_mtime = 0\<rparr>) d"

text \<open>\<open>max_seq + 1\<close> over the names that parse. The sum is a natural number here: it leaves 64 bits only when a segment has the number
  \<open>u64::MAX\<close>, which the theorems exclude.\<close>

definition scan_next_seq :: "bool \<Rightarrow> string list \<Rightarrow> nat teo_result" where
  "scan_next_seq readdir_ok names =
    (if readdir_ok then Inr (fold (\<lambda>name max_seq. case parse_seq name of None \<Rightarrow> max_seq | Some seq \<Rightarrow> max max_seq seq) names 0 + 1)
     else Inl (wal_source ''readdir'' []))"

text \<open>The directory as the identity sees it, and its small files.\<close>

definition root_files :: "disk \<Rightarrow> fs \<Rightarrow> fs" where
  "root_files d files = files @ map (\<lambda>f. (dk_name f, dk_data f)) d"

definition small_files :: "disk \<Rightarrow> fs \<Rightarrow> fs" where
  "small_files d root = filter (\<lambda>p. fst p \<notin> dk_name ` set d) root"

record open_io =
  oi_mkdir_ok :: bool
  oi_lease :: "unit teo_result"
  oi_fresh :: uuid
  oi_first :: "uuid \<times> io_plan"
  oi_second :: "uuid \<times> io_plan"
  oi_readdir_ok :: bool
  oi_read_ok :: bool

text \<open>The first component is the small files afterwards; no manager when the open failed or the process died. An identity
  that was opened was persisted, which synced the directory.\<close>

definition WalManager_open ::
    "'b wal_codecs \<Rightarrow> open_io \<Rightarrow> WalConfig \<Rightarrow> disk \<Rightarrow> fs \<Rightarrow> fs \<Rightarrow> WalManager fs_result" where
  "WalManager_open X io cfg d prepared files =
    bind_io (lift_io (if oi_mkdir_ok io then Inr () else Inl (wal ''failed to create WAL dir'')) files) (\<lambda>_ files.
    bind_io (lift_io (oi_lease io) files) (\<lambda>_ files.
    bind_io (map_prod (small_files d) id (identity_open (wx_text X) (wx_identity X) (wcf_identity cfg) (oi_fresh io) (oi_first io)
        (oi_second io) (root_files d files))) (\<lambda>identity files.
    bind_io (lift_io (scan_next_seq (oi_readdir_ok io) (map dk_name d @ map fst files)) files) (\<lambda>next_seq files.
    bind_io (lift_io (load_committed_checkpoint (wx_ckpt X) (oi_read_ok io) files) files) (\<lambda>committed files.
    (files, Some (Inr \<lparr>wm_cfg = cfg, wm_identity = identity, wm_committed = committed,
      wm_writer = SegmentWriter_spawn (wcf_max_segment_bytes cfg) (wcf_fsync_on_append cfg) next_seq,
      wm_disk = dir_sync d, wm_files = files, wm_prepared = prepared\<rparr>)))))))"

definition writer_identity :: "WalManager \<Rightarrow> ResolvedIdentity" where
  "writer_identity m = wi_resolved (wm_identity m)"

definition prepared_limits_of :: "WalManager \<Rightarrow> prepared_limits" where
  "prepared_limits_of m = \<lparr>pl_writer = ri_writer_id (writer_identity m),
     pl_max_files = wcf_max_prepared_files (wm_cfg m), pl_max_bytes = wcf_max_prepared_bytes (wm_cfg m)\<rparr>"

text \<open>Results: None when the process died during the call.\<close>

definition wal_observe_epoch ::
    "'b wal_codecs \<Rightarrow> uuid \<times> io_plan \<Rightarrow> nat \<Rightarrow> WalManager \<Rightarrow> WalManager \<times> ResolvedIdentity teo_result option" where
  "wal_observe_epoch X plan observed m =
    (case observe_epoch_and_bump (wx_text X) (wx_identity X) plan observed (wm_identity m) (wm_files m) of
       (files, None) \<Rightarrow> (m\<lparr>wm_files := files\<rparr>, None)
     | (files, Some (Inl e)) \<Rightarrow> (m\<lparr>wm_files := files\<rparr>, Some (Inl e))
     | (files, Some (Inr i)) \<Rightarrow>
         (m\<lparr>wm_files := files, wm_identity := i,
            wm_disk := (if identity_epoch (wm_identity m) > observed then wm_disk m else dir_sync (wm_disk m))\<rparr>,
          Some (Inr (wi_resolved i))))"

definition wal_persist_prepared ::
    "'b wal_codecs \<Rightarrow> uuid \<times> io_plan \<Rightarrow> PreparedFlush \<Rightarrow> WalManager \<Rightarrow> WalManager \<times> unit teo_result option" where
  "wal_persist_prepared X plan p m =
    (case persist_prepared (wx_text X) (wx_prepared X) (prepared_limits_of m) plan p (wm_prepared m) of
       (dir, r) \<Rightarrow> (m\<lparr>wm_prepared := dir\<rparr>, r))"

definition wal_list_prepared :: "'b wal_codecs \<Rightarrow> WalManager \<Rightarrow> PreparedFlush list teo_result" where
  "wal_list_prepared X m = list_prepared (wx_text X) (wx_prepared X) (prepared_limits_of m) (wm_prepared m)"

definition wal_remove_prepared ::
    "'b wal_codecs \<Rightarrow> bool \<times> bool \<Rightarrow> uuid \<Rightarrow> WalManager \<Rightarrow> WalManager \<times> unit teo_result option" where
  "wal_remove_prepared X plan table_uuid m =
    (case remove_prepared (wx_text X) (fst plan) (snd plan) table_uuid (wm_prepared m) of
       (dir, r) \<Rightarrow> (m\<lparr>wm_prepared := dir\<rparr>, r))"

definition wal_append ::
    "'b wal_codecs \<Rightarrow> group_io \<Rightarrow> 'b WalRecord \<Rightarrow> WalManager \<Rightarrow> WalManager \<times> unit teo_result" where
  "wal_append X io record m =
    (case encode_frame (wx_frame X) record of
       Inl e \<Rightarrow> (m, Inl e)
     | Inr frame \<Rightarrow>
         let ((w, d), acks) = writer_run (\<lambda>_. (0, io)) 0 [Write frame] (wm_writer m, wm_disk m) in
         (m\<lparr>wm_writer := w, wm_disk := d\<rparr>,
          case acks of [WriteAck r] \<Rightarrow> r | _ \<Rightarrow> Inl (wal ''WAL writer dropped ack channel'')))"

definition wal_rotate :: "WalManager \<Rightarrow> WalManager" where
  "wal_rotate m = m\<lparr>wm_writer := close_current (wm_writer m)\<rparr>"

text \<open>The two critical sections of \<open>mark_committed\<close>: the update of the map, and snapshot and persist under the persist lock.\<close>

definition mark_memory :: "WalTableKey \<Rightarrow> generation \<Rightarrow> WalManager \<Rightarrow> WalManager" where
  "mark_memory table generation m = m\<lparr>wm_committed := al_put table
     (case map_of (wm_committed m) table of None \<Rightarrow> generation | Some g \<Rightarrow> max g generation) (wm_committed m)\<rparr>"

definition persist_snapshot :: "'b wal_codecs \<Rightarrow> io_plan \<Rightarrow> WalManager \<Rightarrow> WalManager" where
  "persist_snapshot X io m =
    (let (files, r) = persist_committed_checkpoint (wx_ckpt X) io (wm_committed m) (wm_files m)
     in m\<lparr>wm_files := files, wm_disk := (if r = Some (Inr ()) then dir_sync (wm_disk m) else wm_disk m)\<rparr>)"

definition wal_mark_committed ::
    "'b wal_codecs \<Rightarrow> io_plan \<Rightarrow> WalTableKey \<Rightarrow> generation \<Rightarrow> WalManager \<Rightarrow> WalManager" where
  "wal_mark_committed X io table generation m = persist_snapshot X io (mark_memory table generation m)"


definition forget_memory :: "TableIdent \<Rightarrow> WalManager \<Rightarrow> WalManager" where
  "forget_memory table m = m\<lparr>wm_committed := filter (\<lambda>(key, _). wk_ident key \<noteq> table) (wm_committed m)\<rparr>"

definition append_drop_tombstone ::
    "'b wal_codecs \<Rightarrow> group_io \<times> io_plan \<Rightarrow> uuid \<Rightarrow> int \<Rightarrow> TableIdent \<Rightarrow> WalManager \<Rightarrow> WalManager \<times> unit teo_result" where
  "append_drop_tombstone X io batch_id now table m =
    (case wal_append X (fst io) (drop_tombstone (wx_frame X) batch_id now table) m of
       (m, Inl e) \<Rightarrow> (m, Inl e)
     | (m, Inr _) \<Rightarrow> (persist_snapshot X (snd io) (forget_memory table m), Inr ()))"

definition committed_generation :: "WalTableKey \<Rightarrow> WalManager \<Rightarrow> generation option" where
  "committed_generation table m = map_of (wm_committed m) table"

definition wal_replay :: "'b wal_codecs \<Rightarrow> WalManager \<Rightarrow> 'b WalRecord list teo_result" where
  "wal_replay X m = replay (wx_frame X) (map_of (wm_committed m)) (wcf_recovery_mode (wm_cfg m)) (disk_view (wm_disk m))"

definition wal_replay_all :: "'b wal_codecs \<Rightarrow> WalManager \<Rightarrow> 'b WalRecord list teo_result" where
  "wal_replay_all X m = replay (wx_frame X) (\<lambda>_. None) (wcf_recovery_mode (wm_cfg m)) (disk_view (wm_disk m))"

definition wal_gc :: "'b wal_codecs \<Rightarrow> (string \<Rightarrow> bool) \<Rightarrow> (string \<Rightarrow> bool) \<Rightarrow> WalManager \<Rightarrow> WalManager \<times> nat" where
  "wal_gc X read_ok remove_ok m =
    (let (root, deleted) = collect_garbage (wx_frame X) (map_of (wm_committed m)) (sw_current_seq (wm_writer m))
           read_ok remove_ok (disk_view (wm_disk m))
     in (m\<lparr>wm_disk := filter (\<lambda>f. dk_name f \<in> wf_name ` set root) (wm_disk m)\<rparr>, deleted))"

section \<open>Disk usage\<close>

text \<open>A directory entry: a file with its length, a directory (None when it cannot be read), something else, or an entry
  whose reading, inspection or \<open>stat\<close> fails with the given message.\<close>

datatype dir_node = FileNode nat | DirNode "dir_node list option" | OtherNode | BadNode string

fun read_entries :: "dir_node list \<Rightarrow> dir_node list option list \<Rightarrow> nat \<Rightarrow> (dir_node list option list \<times> nat) teo_result" where
  "read_entries [] pending used = Inr (pending, used)"
| "read_entries (DirNode d # es) pending used = read_entries es (pending @ [d]) used"
| "read_entries (FileNode bytes # es) pending used =
    (if used + bytes \<ge> u64_bound then Inl (wal ''WAL disk usage exceeds u64'') else read_entries es pending (used + bytes))"
| "read_entries (OtherNode # es) pending used = read_entries es pending used"
| "read_entries (BadNode message # es) pending used = Inl (wal_source message [])"

fun dir_weight :: "dir_node \<Rightarrow> nat" where
  "dir_weight (FileNode _) = 1"
| "dir_weight OtherNode = 1"
| "dir_weight (BadNode _) = 1"
| "dir_weight (DirNode None) = 2"
| "dir_weight (DirNode (Some es)) = 2 + sum_list (map dir_weight es)"

abbreviation pending_weight :: "dir_node list option list \<Rightarrow> nat" where
  "pending_weight pending \<equiv> sum_list (map (\<lambda>d. dir_weight (DirNode d)) pending)"

lemma read_entries_weight:
  "read_entries es pending used = Inr (pending', used') \<Longrightarrow>
    pending_weight pending' \<le> pending_weight pending + sum_list (map dir_weight es)"
  by (induction es pending used rule: read_entries.induct) (auto split: if_splits)

text \<open>\<open>pending_directories\<close> is a stack: \<open>pop\<close> takes the last element.\<close>

function usage_loop :: "dir_node list option list \<Rightarrow> nat \<Rightarrow> nat teo_result" where
  "usage_loop pending used =
    (if pending = [] then Inr used
     else (case last pending of
         None \<Rightarrow> Inl (wal_source ''read WAL directory'' [])
       | Some entries \<Rightarrow>
          (case read_entries entries (butlast pending) used of
             Inl e \<Rightarrow> Inl e
           | Inr (pending', used') \<Rightarrow> usage_loop pending' used')))"
  by pat_completeness auto
termination
proof (relation "measure (\<lambda>(pending, used). pending_weight pending)")
  fix pending :: "dir_node list option list" and used entries r pending' used'
  assume a: "pending \<noteq> []" "last pending = Some entries"
    "read_entries entries (butlast pending) used = Inr r" "(pending', used') = r"
  from a(1) obtain ps p where p: "pending = ps @ [p]" by (cases pending rule: rev_cases) auto
  have "read_entries entries ps used = Inr (pending', used')" using a(3,4) p by simp
  from read_entries_weight[OF this] show "((pending', used'), pending, used) \<in> measure (\<lambda>(pending, used). pending_weight pending)"
    using a(2) p by simp
qed simp

declare usage_loop.simps [simp del]

definition disk_usage_bytes :: "dir_node list option \<Rightarrow> nat teo_result" where
  "disk_usage_bytes root = usage_loop [root] 0"

definition check_capacity :: "WalConfig \<Rightarrow> dir_node list option \<Rightarrow> bool teo_result" where
  "check_capacity cfg root =
    bind_r (disk_usage_bytes root) (\<lambda>used.
      if used \<ge> wcf_hard_cap_bytes cfg then Inl (wal ''WAL capacity exceeded'')
      else Inr (used < wcf_soft_watermark_bytes cfg))"

section \<open>The checkpoint is replaced atomically\<close>





lemma entry_of [simp]: "ckpt_key (ckpt_entry x) = fst x" "ce_generation (ckpt_entry x) = snd x"
  by (cases x; simp add: ckpt_entry_def ckpt_key_def WalTableKey_new_def TableIdent_new_def)+





section \<open>The cache and its file over any history\<close>







lemma persist_committed [simp]: "wm_committed (persist_snapshot X io m) = wm_committed m"
  by (simp add: persist_snapshot_def split: prod.split)










section \<open>Reopening\<close>

lemma fold_max_seq:
  "n \<le> fold (\<lambda>name max_seq. case parse_seq name of None \<Rightarrow> max_seq | Some seq \<Rightarrow> max max_seq seq) names n \<and>
    (\<forall>name \<in> set names. \<forall>s. parse_seq name = Some s \<longrightarrow>
      s \<le> fold (\<lambda>name max_seq. case parse_seq name of None \<Rightarrow> max_seq | Some seq \<Rightarrow> max max_seq seq) names n)"
proof (induction names arbitrary: n)
  case (Cons a names)
  let ?n = "case parse_seq a of None \<Rightarrow> n | Some seq \<Rightarrow> max n seq"
  have "n \<le> ?n" "\<forall>s. parse_seq a = Some s \<longrightarrow> s \<le> ?n" by (auto split: option.splits)
  then show ?case using Cons[of ?n] by (auto intro: order_trans)
qed simp

text \<open>The segments of a directory carry canonical names.\<close>

definition disk_canonical :: "disk \<Rightarrow> bool" where
  "disk_canonical d \<longleftrightarrow> distinct (map dk_name d) \<and>
    list_all (\<lambda>n. ends_with n ''.wal'' \<longrightarrow> (\<exists>q < u64_bound. n = segment_name q)) (map dk_name d)"

lemma scan_next_seq_fresh:
  assumes "scan_next_seq ok (map dk_name d @ others) = Inr n" "disk_canonical d"
  shows "disk_wf n d"
proof -
  let ?max = "fold (\<lambda>name max_seq. case parse_seq name of None \<Rightarrow> max_seq | Some seq \<Rightarrow> max max_seq seq) (map dk_name d @ others) 0"
  have n: "n = ?max + 1" using assms(1) by (auto simp: scan_next_seq_def split: if_splits)
  have "\<exists>q < n. dk_name f = segment_name q" if f: "f \<in> set d" "ends_with (dk_name f) ''.wal''" for f
  proof -
    obtain q where q: "q < u64_bound" "dk_name f = segment_name q" using f assms(2) by (auto simp: disk_canonical_def list_all_iff)
    have "dk_name f \<in> set (map dk_name d @ others)" using f(1) by simp
    then have "q \<le> ?max" using fold_max_seq[of 0 "map dk_name d @ others"] parse_segment_name[OF q(1)] q(2) by metis
    then have "q < n" unfolding n by simp
    then show ?thesis using q(2) by blast
  qed
  then show ?thesis using assms(2) by (auto simp: disk_wf_def disk_canonical_def)
qed

text \<open>The segments after a crash: what is there has been read from the disk.\<close>

definition crash_disk :: "(string \<Rightarrow> nat) \<Rightarrow> (string \<Rightarrow> bool) \<Rightarrow> disk \<Rightarrow> disk" where
  "crash_disk keep survives d = map (\<lambda>f. let data = take (max (dk_synced f) (keep (dk_name f))) (dk_data f) in
     f\<lparr>dk_data := data, dk_synced := length data, dk_linked := True\<rparr>) (filter (entry_kept survives) d)"

lemma crash_view: "disk_view (crash_disk keep survives d) = disk_root keep survives d"
  by (simp add: disk_view_def crash_disk_def disk_root_def Let_def)

lemma crash_canonical: "disk_canonical d \<Longrightarrow> disk_canonical (crash_disk keep survives d)"
proof -
  assume d: "disk_canonical d"
  have "map dk_name (crash_disk keep survives d) = map dk_name (filter (entry_kept survives) d)" by (simp add: crash_disk_def Let_def)
  then show ?thesis using d by (auto simp: disk_canonical_def list_all_iff distinct_map_filter)
qed

lemma dir_sync_names [simp]: "map dk_name (dir_sync d) = map dk_name d"
  by (simp add: dir_sync_def)

lemma dir_sync_keeps [simp]: "disk_canonical (dir_sync d) = disk_canonical d" "disk_wf n (dir_sync d) = disk_wf n d"
  unfolding disk_canonical_def disk_wf_def dir_sync_names by (simp_all add: dir_sync_def)

lemma dir_sync_view: "disk_view (dir_sync d) = disk_view d"
  by (simp add: disk_view_def dir_sync_def)

lemma open_manager:
  assumes "WalManager_open X io cfg d prepared files = (files', Some (Inr m))" "disk_canonical d"
  shows "wm_disk m = dir_sync d" "wm_cfg m = cfg" "sw_current (wm_writer m) = None"
    "sw_fsync_on_append (wm_writer m) = wcf_fsync_on_append cfg" "disk_wf (sw_next_seq (wm_writer m)) d"
    "load_committed_checkpoint (wx_ckpt X) (oi_read_ok io) files' = Inr (wm_committed m)" "wm_files m = files'"
proof -
  have "\<exists>next_seq identity committed. scan_next_seq (oi_readdir_ok io) (map dk_name d @ map fst files') = Inr next_seq \<and>
    load_committed_checkpoint (wx_ckpt X) (oi_read_ok io) files' = Inr committed \<and>
    m = \<lparr>wm_cfg = cfg, wm_identity = identity, wm_committed = committed,
      wm_writer = SegmentWriter_spawn (wcf_max_segment_bytes cfg) (wcf_fsync_on_append cfg) next_seq,
      wm_disk = dir_sync d, wm_files = files', wm_prepared = prepared\<rparr>"
    using assms(1) unfolding WalManager_open_def by (clarsimp simp: bind_io_Inr)
  then obtain next_seq identity committed where s:
    "scan_next_seq (oi_readdir_ok io) (map dk_name d @ map fst files') = Inr next_seq"
    "load_committed_checkpoint (wx_ckpt X) (oi_read_ok io) files' = Inr committed"
    "m = \<lparr>wm_cfg = cfg, wm_identity = identity, wm_committed = committed,
      wm_writer = SegmentWriter_spawn (wcf_max_segment_bytes cfg) (wcf_fsync_on_append cfg) next_seq,
      wm_disk = dir_sync d, wm_files = files', wm_prepared = prepared\<rparr>"
    by (elim exE conjE)
  show "wm_disk m = dir_sync d" "wm_cfg m = cfg" by (simp_all add: s(3))
  show "load_committed_checkpoint (wx_ckpt X) (oi_read_ok io) files' = Inr (wm_committed m)" using s(2,3) by simp
  show "wm_files m = files'" by (simp add: s(3))
  have w: "wm_writer m = SegmentWriter_spawn (wcf_max_segment_bytes cfg) (wcf_fsync_on_append cfg) next_seq"
    by (simp add: s(3))
  then show "sw_current (wm_writer m) = None" "sw_fsync_on_append (wm_writer m) = wcf_fsync_on_append cfg"
    by (simp_all add: SegmentWriter_spawn_def)
  show "disk_wf (sw_next_seq (wm_writer m)) d"
    using scan_next_seq_fresh[OF s(1) assms(2)] w by (simp add: SegmentWriter_spawn_def)
qed

lemma run_canonical:
  assumes d: "disk_wf (sw_next_seq w) d0" "disk_canonical d0" "sw_current w = None" "sw_next_seq w + length reqs < u64_bound"
    and run: "writer_run env 0 (commands_of c reqs) (w, d0) = ((w', d'), acks)"
  shows "disk_canonical d'"
proof -
  have run': "writer_run env 0 (commands_of c reqs) (w, d0 @ []) = ((w', d'), acks)" using run by simp
  obtain new segs where s: "d' = d0 @ new" "writer_inv c (sw_next_seq w) False new segs w'"
    "sw_next_seq w' \<le> sw_next_seq w + length reqs"
    using run_inv[where clean = False, OF spawn_inv[OF d(3)] disk_wf_fresh[OF d(1)] d(4) _ run'] by auto
  have al: "list_all2 (seg_ok c (sw_fsync_on_append w')) new segs" "sorted_wrt (<) (map fst segs)"
    "\<forall>q \<in> set (map fst segs). sw_next_seq w \<le> q \<and> q < u64_bound" using s(2,3) d(4) unfolding writer_inv_def by auto
  note name = seg_ok_name[OF al(1)]
  have "dk_name g \<noteq> dk_name f" if "f \<in> set new" "g \<in> set d0" for f g
    using name[OF that(1)] al(3) disk_wf_fresh[OF d(1)] that(2) unfolding fresh_above_def by metis
  moreover have "distinct (map dk_name new)" using new_names(3)[OF al(1,2)] al(3) by blast
  ultimately have "distinct (map dk_name d')" using d(2) s(1) by (auto simp: disk_canonical_def)
  moreover have "\<exists>q < u64_bound. dk_name f = segment_name q" if "f \<in> set new" for f
    using name[OF that] al(3) by blast
  ultimately show ?thesis using d(2) s(1) unfolding disk_canonical_def list_all_iff by auto
qed

section \<open>Directory sizes\<close>

fun readable :: "dir_node \<Rightarrow> bool" where
  "readable (FileNode _) = True"
| "readable OtherNode = True"
| "readable (BadNode _) = False"
| "readable (DirNode None) = False"
| "readable (DirNode (Some es)) = list_all readable es"

fun dir_total :: "dir_node \<Rightarrow> nat" where
  "dir_total (FileNode n) = n"
| "dir_total OtherNode = 0"
| "dir_total (BadNode _) = 0"
| "dir_total (DirNode None) = 0"
| "dir_total (DirNode (Some es)) = sum_list (map dir_total es)"

abbreviation pending_total :: "dir_node list option list \<Rightarrow> nat" where
  "pending_total pending \<equiv> sum_list (map (\<lambda>d. dir_total (DirNode d)) pending)"

abbreviation pending_readable :: "dir_node list option list \<Rightarrow> bool" where
  "pending_readable pending \<equiv> list_all (\<lambda>d. readable (DirNode d)) pending"

lemma read_entries_ok:
  "read_entries es pending used = Inr (pending', used') \<Longrightarrow>
    used' + pending_total pending' = used + pending_total pending + sum_list (map dir_total es) \<and>
    (pending_readable pending' \<longleftrightarrow> pending_readable pending \<and> list_all readable es) \<and>
    (used < u64_bound \<longrightarrow> used' < u64_bound)"
  by (induction es pending used rule: read_entries.induct) (auto split: if_splits)

lemma read_entries_err:
  "read_entries es pending used = Inl e \<Longrightarrow> u64_bound \<le> used + sum_list (map dir_total es) \<or> \<not> list_all readable es"
  by (induction es pending used rule: read_entries.induct) (auto split: if_splits)

lemma usage_loop_total:
  "used < u64_bound \<Longrightarrow>
    usage_loop pending used = Inr n \<longleftrightarrow>
      pending_readable pending \<and> used + pending_total pending < u64_bound \<and> n = used + pending_total pending"
proof (induction pending used rule: usage_loop.induct)
  case (1 pending used)
  show ?case
  proof (cases pending rule: rev_cases)
    case Nil
    then show ?thesis using 1(2) by (auto simp: usage_loop.simps)
  next
    case (snoc ps d)
    show ?thesis
    proof (cases d)
      case None
      then show ?thesis by (simp add: snoc usage_loop.simps)
    next
      case (Some es)
      show ?thesis
      proof (cases "read_entries es ps used")
        case (Inl e)
        then show ?thesis using read_entries_err[OF Inl] by (subst usage_loop.simps) (auto simp: snoc Some)
      next
        case (Inr r)
        obtain p' u' where r: "r = (p', u')" by (cases r)
        note ok = read_entries_ok[OF Inr[unfolded r]]
        have "usage_loop p' u' = Inr n \<longleftrightarrow> pending_readable p' \<and> u' + pending_total p' < u64_bound \<and> n = u' + pending_total p'"
          using 1(1)[of es "(p', u')" p' u'] 1(2) ok Inr by (simp add: snoc Some r)
        then show ?thesis using ok by (subst usage_loop.simps) (auto simp: snoc Some Inr r)
      qed
    qed
  qed
qed

section \<open>Properties\<close>


text \<open>Property C26. Recovery after a restart. Open a WAL directory, let the writer task serve any appends and rotations, in any grouping and with
  any I/O failures, crash, and open the directory again. Assume that the submitted records respect the size limit of frames, that the
  segments before the run have canonical names and are intact, that the numbers of segments stay within 64 bits, that the writer syncs every append or the crash loses no written bytes (the process
  died, not the machine), and that the directory entries of the segments it created survive, which no sync guarantees
  (\<open>new_segment_entry_not_synced\<close>). Then, in both recovery modes, the replay of everything returns the live records of the old log
  continued by \<open>rs\<close>, where \<open>rs\<close> contains every acknowledged record, in order, and only submitted ones; and the new
  writer starts above every existing segment, so that it never appends to an old file.\<close>

theorem restart_recovers:
  fixes X :: "'b wal_codecs"
  defines "c \<equiv> wx_frame X"
  assumes open1: "WalManager_open X io1 cfg d prepared files = (files1, Some (Inr m))" and d: "disk_canonical d"
    and intact: "first_corruption c (disk_root keep survives (wm_disk m)) (segment_paths (disk_root keep survives (wm_disk m))) = None"
    and reqs: "list_all (writable c) (submitted reqs)" "sw_next_seq (wm_writer m) + length reqs < u64_bound"
    and run: "writer_run env 0 (commands_of c reqs) (wm_writer m, wm_disk m) = ((w, d'), acks)"
    and bytes: "wcf_fsync_on_append cfg \<or> (\<forall>f \<in> set d'. length (dk_data f) \<le> keep (dk_name f))"
    and entries: "\<And>f. f \<in> set d' \<Longrightarrow> entry_kept survives f"
    and open2: "WalManager_open X io2 cfg (crash_disk keep survives d') prepared' files2 = (files3, Some (Inr m'))"
  shows "\<exists>rs. wal_replay_all X m' = Inr (sort_key canonical_key (live_records (\<lambda>_. None)
        (log_records c (disk_root keep survives (wm_disk m)) @ rs))) \<and>
      subseq (acked reqs acks) rs \<and> subseq rs (submitted reqs) \<and>
      disk_wf (sw_next_seq (wm_writer m')) (wm_disk m')"
proof -
  note o1 = open_manager[OF open1 d]
  have wf: "disk_wf (sw_next_seq (wm_writer m)) (wm_disk m)" "disk_canonical (wm_disk m)" using o1(1,5) d by simp_all
  have cd: "disk_canonical (crash_disk keep survives d')"
    using run_canonical[OF wf o1(3) reqs(2) run] by (rule crash_canonical)
  note o2 = open_manager[OF open2 cd]
  have fs: "sw_fsync_on_append (wm_writer m) \<or> (\<forall>f \<in> set d'. length (dk_data f) \<le> keep (dk_name f))" using o1(4) bytes by simp
  obtain rs where rs: "log_records c (disk_root keep survives d') = log_records c (disk_root keep survives (wm_disk m)) @ rs"
    "subseq (acked reqs acks) rs" "subseq rs (submitted reqs)"
    "first_corruption c (disk_root keep survives d') (segment_paths (disk_root keep survives d')) = None"
    "distinct (map wf_name (disk_root keep survives d'))"
    using run_log[where clean = False and survives = survives and keep = keep, OF reqs(1) wf(1) o1(3) reqs(2) _ run entries fs] intact by blast
  have "wal_replay_all X m' = replay c (\<lambda>_. None) (wcf_recovery_mode cfg) (disk_root keep survives d')"
    using o2(1,2) by (simp add: wal_replay_all_def c_def crash_view dir_sync_view)
  moreover have "replay c (\<lambda>_. None) (wcf_recovery_mode cfg) (disk_root keep survives d') =
      Inr (sort_key canonical_key (live_records (\<lambda>_. None) (log_records c (disk_root keep survives d'))))"
    using replay_spec[OF rs(5), of c "\<lambda>_. None" "wcf_recovery_mode cfg"] rs(4) by (simp split: WalRecoveryMode.splits)
  ultimately show ?thesis using rs(1-3) o2(1,5) by (intro exI[of _ rs]) simp
qed

text \<open>Property C30. The iterative disk usage is the recursive sum. \<open>disk_usage_bytes\<close> returns \<open>n\<close> exactly when every directory and entry below the
  root can be read, the sizes of all files add up to \<open>n\<close>, and that sum fits into 64 bits; in every other case it
  answers an error.\<close>

theorem disk_usage_is_sum:
  "disk_usage_bytes root = Inr n \<longleftrightarrow> readable (DirNode root) \<and> dir_total (DirNode root) < u64_bound \<and> n = dir_total (DirNode root)"
  using usage_loop_total[of 0 "[root]" n] by (simp add: disk_usage_bytes_def)

section \<open>Witnesses\<close>

definition demo_ckpt_codec :: ckpt_codec where
  "demo_ckpt_codec = \<lparr>ck_enc = (\<lambda>x. if x = (CHECKPOINT_VERSION, []) then Some [1] else None),
     ck_dec = (\<lambda>b. if b = [1] then Some (CHECKPOINT_VERSION, []) else None)\<rparr>"

definition demo_codecs :: "byte list wal_codecs" where
  "demo_codecs = \<lparr>wx_text = demo_text, wx_frame = demo_codec, wx_identity = demo_identity_codec,
     wx_prepared = demo_prepared_codec, wx_ckpt = demo_ckpt_codec\<rparr>"






definition demo_wal_config :: WalConfig where
  "demo_wal_config = WalConfig_default\<lparr>wcf_max_segment_bytes := 1000, wcf_identity := demo_config\<rparr>"

definition demo_open_io :: open_io where
  "demo_open_io = \<lparr>oi_mkdir_ok = True, oi_lease = Inr (), oi_fresh = 5, oi_first = (1, io_good), oi_second = (2, io_good),
     oi_readdir_ok = True, oi_read_ok = True\<rparr>"

definition demo_segment :: disk_file where
  "demo_segment = \<lparr>dk_name = segment_name 1, dk_data = frame_bytes demo_codec demo_record, dk_synced = 16, dk_linked = False\<rparr>"

lemma demo_parse: "parse_seq IDENTITY_FILE = None" "parse_seq (segment_name (Suc 0)) = Some 1"
  using parse_segment_name[of 1] by (simp_all add: parse_seq_def IDENTITY_FILE_def ends_with_def u64_bound_def)

lemma demo_no_checkpoint: "COMMITTED_CHECKPOINT_FILE \<noteq> IDENTITY_FILE"
  by (simp add: IDENTITY_FILE_def COMMITTED_CHECKPOINT_FILE_def)

lemma demo_open1:
  "WalManager_open demo_codecs demo_open_io demo_wal_config [] [] [] = ([(IDENTITY_FILE, [1])], Some (Inr
    \<lparr>wm_cfg = demo_wal_config, wm_identity = demo_handle 1, wm_committed = [], wm_writer = demo_writer, wm_disk = [],
     wm_files = [(IDENTITY_FILE, [1])], wm_prepared = []\<rparr>))"
  by (simp add: demo_no_checkpoint WalManager_open_def demo_open_io_def demo_codecs_def demo_wal_config_def demo_first_open bind_io_lift bind_io_def[of "(x, y)" for x y]
      root_files_def small_files_def dir_sync_def scan_next_seq_def demo_parse load_committed_checkpoint_def demo_writer_def WalConfig_default_def)

lemma demo_reopen:
  "identity_open demo_text demo_identity_codec demo_config 5 (1, io_good) (2, io_good) [(IDENTITY_FILE, [1]), (segment_name 1, b)] =
    ([(IDENTITY_FILE, [2]), (segment_name 1, b)], Some (Inr (demo_handle 2)))"
proof -
  have "last (segment_name 1) = CHR ''l''" "\<And>u. last (identity_tmp demo_text u) = CHR ''p''"
    by (simp_all add: segment_name_def identity_tmp_def)
  moreover have "CHR ''l'' \<noteq> CHR ''p''" by simp
  ultimately have n: "identity_tmp demo_text u \<noteq> segment_name 1" "segment_name 1 \<noteq> identity_tmp demo_text u" for u by metis+
  have m: "segment_name 1 \<noteq> IDENTITY_FILE" using demo_parse by auto
  show ?thesis
    using m n demo_persist[of 2 "[(IDENTITY_FILE, [1]), (segment_name 1, b)]" 2] demo_read[of 1 "[(IDENTITY_FILE, [1]), (segment_name 1, b)]"]
    by (simp add: identity_open_def bind_io_lift demo_validate demo_names Let_def demo_next demo_epoch bind_io_def
        demo_tmp al_del_def demo_handle_def demo_config_def[THEN arg_cong, of ic_node_id] One_nat_def[symmetric]
        del: One_nat_def)
qed

lemma demo_open2:
  "WalManager_open demo_codecs demo_open_io demo_wal_config (crash_disk (\<lambda>_. 0) (\<lambda>_. True) [demo_segment]) [] [(IDENTITY_FILE, [1])] =
    ([(IDENTITY_FILE, [2])], Some (Inr
    \<lparr>wm_cfg = demo_wal_config, wm_identity = demo_handle 2, wm_committed = [],
     wm_writer = SegmentWriter_spawn 1000 True 2, wm_disk = dir_sync (crash_disk (\<lambda>_. 0) (\<lambda>_. True) [demo_segment]),
     wm_files = [(IDENTITY_FILE, [2])], wm_prepared = []\<rparr>))"
proof -
  let ?d = "crash_disk (\<lambda>_. 0) (\<lambda>_. True) [demo_segment]"
  have r: "root_files ?d [(IDENTITY_FILE, [1])] = [(IDENTITY_FILE, [1]), (segment_name 1, take 16 (frame_bytes demo_codec demo_record))]"
    by (simp add: root_files_def crash_disk_def demo_segment_def Let_def)
  have n: "segment_name 1 \<noteq> IDENTITY_FILE" using demo_parse by auto
  have names: "dk_name ` set ?d = {segment_name 1}" "map dk_name ?d = [segment_name 1]" by (auto simp: crash_disk_def demo_segment_def Let_def)
  have small: "small_files ?d [(IDENTITY_FILE, [2]), (segment_name 1, b)] = [(IDENTITY_FILE, [2])]" for b
    using n by (simp add: small_files_def names)
  show ?thesis
    by (simp add: demo_no_checkpoint WalManager_open_def demo_open_io_def demo_codecs_def demo_wal_config_def r demo_reopen[simplified] small[simplified] names
        bind_io_lift bind_io_def[of "(x, y)" for x y] scan_next_seq_def demo_parse load_committed_checkpoint_def WalConfig_default_def numeral_2_eq_2)
qed

theorem restart_recovers_witness:
  "\<exists>m rs. WalManager_open demo_codecs demo_open_io demo_wal_config (crash_disk (\<lambda>_. 0) (\<lambda>_. True) [demo_segment]) [] [(IDENTITY_FILE, [1])] =
      ([(IDENTITY_FILE, [2])], Some (Inr m)) \<and>
    wal_replay_all demo_codecs m = Inr (sort_key canonical_key (live_records (\<lambda>_. None) rs)) \<and>
    subseq [demo_record] rs \<and> subseq rs [demo_record]"
proof -
  have X: "wx_frame demo_codecs = demo_codec" by (simp add: demo_codecs_def)
  have d: "disk_canonical []" by (simp add: disk_canonical_def)
  let ?m = "\<lparr>wm_cfg = demo_wal_config, wm_identity = demo_handle 1, wm_committed = [], wm_writer = demo_writer, wm_disk = [],
     wm_files = [(IDENTITY_FILE, [1])], wm_prepared = []\<rparr>"
  have e: "disk_root (\<lambda>_. 0) (\<lambda>_. True) (wm_disk ?m) = []" by (simp add: disk_root_def)
  have i: "first_corruption (wx_frame demo_codecs) (disk_root (\<lambda>_. 0) (\<lambda>_. True) (wm_disk ?m))
      (segment_paths (disk_root (\<lambda>_. 0) (\<lambda>_. True) (wm_disk ?m))) = None"
    unfolding e by (simp add: segment_paths_def)
  have r: "list_all (writable (wx_frame demo_codecs)) (submitted [Some demo_record])"
    "sw_next_seq (wm_writer ?m) + length [Some demo_record] < u64_bound"
    using demo_writable by (simp_all add: X demo_writer_def SegmentWriter_spawn_def u64_bound_def)
  have run: "writer_run demo_env 0 (commands_of (wx_frame demo_codecs) [Some demo_record]) (wm_writer ?m, wm_disk ?m) =
      ((demo_writer\<lparr>sw_current := Some \<lparr>og_path = segment_name 1, og_bytes_written = 16\<rparr>, sw_next_seq := 2, sw_current_seq := 2\<rparr>,
        [demo_segment]), [WriteAck (Inr ())])"
    using demo_writer_run by (simp add: X demo_segment_def)
  have f: "wcf_fsync_on_append demo_wal_config \<or> (\<forall>f \<in> set [demo_segment]. length (dk_data f) \<le> 0)"
    by (simp add: demo_wal_config_def WalConfig_default_def)
  have nil: "log_records (wx_frame demo_codecs) (disk_root (\<lambda>_. 0) (\<lambda>_. True) (wm_disk ?m)) = []"
    unfolding e by (simp add: log_records_def segment_paths_def)
  have ack: "acked [Some demo_record] [WriteAck (Inr ())] = [demo_record]" "submitted [Some demo_record] = [demo_record]"
    by (simp_all add: acked_one_def)
  from restart_recovers[OF demo_open1 d i r run f entry_kept_all demo_open2] demo_open2
  show ?thesis unfolding nil ack append_Nil by blast
qed

end
