(* ===== verification/Compression.thy ===== *)
theory Compression
  imports Core_Types
begin

text \<open>Compression codecs (\<open>crates/teodb-storage/src/parquet/compression.rs\<close>): the operator-facing text of a codec, its parser,
  and the hand-over to the Parquet crate, whose check of a level is a parameter. Trimming and lower-casing of the standard
  library are modelled on ASCII text.\<close>

datatype CompressionParseError = InvalidLevel string string | LevelOutOfRange string int int int | UnknownCodec string

datatype CompressionCodec = Uncompressed | Snappy | Gzip nat | Lz4Raw | Zstd int | Lzo | Brotli nat

definition CompressionCodec_default :: CompressionCodec where
  "CompressionCodec_default = Zstd 3"

definition signed_str :: "int \<Rightarrow> string" where
  "signed_str v = (if v < 0 then ''-'' else []) @ dec_str (nat \<bar>v\<bar>)"

fun codec_display :: "CompressionCodec \<Rightarrow> string" where
  "codec_display Uncompressed = ''none''"
| "codec_display Snappy = ''snappy''"
| "codec_display (Gzip level) = ''gzip('' @ dec_str level @ '')''"
| "codec_display Lz4Raw = ''lz4''"
| "codec_display (Zstd level) = ''zstd('' @ signed_str level @ '')''"
| "codec_display Lzo = ''lzo''"
| "codec_display (Brotli level) = ''brotli('' @ dec_str level @ '')''"

definition is_space :: "char \<Rightarrow> bool" where
  "is_space c \<longleftrightarrow> (let n = of_char c :: nat in n = 32 \<or> 9 \<le> n \<and> n \<le> 13)"

definition trim :: "string \<Rightarrow> string" where
  "trim s = rev (dropWhile is_space (rev (dropWhile is_space s)))"

definition lower :: "char \<Rightarrow> char" where
  "lower c = (let n = of_char c :: nat in if 65 \<le> n \<and> n \<le> 90 then char_of (n + 32) else c)"

definition strip_suffix :: "string \<Rightarrow> string \<Rightarrow> string option" where
  "strip_suffix suffix s = (if ends_with s suffix then Some (take (length s - length suffix) s) else None)"

text \<open>\<open>FromStr\<close> of the integer types: an optional sign, digits, and the range of the type.\<close>

definition parse_int :: "int \<Rightarrow> int \<Rightarrow> string \<Rightarrow> int option" where
  "parse_int lo hi s =
    (let (neg, t) = (case s of
           [] \<Rightarrow> (False, [])
         | c # r \<Rightarrow> if c = CHR ''+'' then (False, r) else if c = CHR ''-'' \<and> lo < 0 then (True, r) else (False, s));
         v = (if neg then -1 else 1) * int (dec_val t)
     in if t = [] \<or> \<not> list_all is_digit t \<or> v < lo \<or> hi < v then None else Some v)"

text \<open>\<open>codec(level)\<close>: the text between the parentheses.\<close>

definition level_text :: "string \<Rightarrow> string \<Rightarrow> string option" where
  "level_text codec s = (case strip_prefix (codec @ ''('') s of None \<Rightarrow> None | Some r \<Rightarrow> strip_suffix '')'' r)"

definition as_i32 :: "int \<Rightarrow> int" where
  "as_i32 v = (v + 2 ^ 31) mod 2 ^ 32 - 2 ^ 31"

definition parse_level ::
    "string \<Rightarrow> int \<Rightarrow> int \<Rightarrow> int \<Rightarrow> int \<Rightarrow> string \<Rightarrow> CompressionParseError + int" where
  "parse_level codec type_min type_max lo hi inner =
    (case parse_int type_min type_max (trim inner) of
       None \<Rightarrow> Inl (InvalidLevel codec inner)
     | Some level \<Rightarrow>
         if lo \<le> level \<and> level \<le> hi then Inr level
         else Inl (LevelOutOfRange codec lo hi (as_i32 level)))"

definition from_str_config :: "string \<Rightarrow> CompressionParseError + CompressionCodec" where
  "from_str_config text =
    (let s = map lower (trim text) in
     case level_text ''zstd'' s of
       Some inner \<Rightarrow> map_sum id Zstd (parse_level ''zstd'' (- (2 ^ 31)) (2 ^ 31 - 1) 1 22 inner)
     | None \<Rightarrow>
     case level_text ''gzip'' s of
       Some inner \<Rightarrow> map_sum id (Gzip \<circ> nat) (parse_level ''gzip'' 0 255 0 9 inner)
     | None \<Rightarrow>
     case level_text ''brotli'' s of
       Some inner \<Rightarrow> map_sum id (Brotli \<circ> nat) (parse_level ''brotli'' 0 (2 ^ 32 - 1) 0 11 inner)
     | None \<Rightarrow>
       if s = ''zstd'' then Inr (Zstd 3)
       else if s = ''snappy'' then Inr Snappy
       else if s = ''gzip'' then Inr (Gzip 6)
       else if s = ''lz4'' \<or> s = ''lz4_raw'' then Inr Lz4Raw
       else if s = ''lzo'' then Inr Lzo
       else if s = ''brotli'' then Inr (Brotli 4)
       else if s = ''none'' \<or> s = ''uncompressed'' then Inr Uncompressed
       else Inl (UnknownCodec s))"

text \<open>The level check of the Parquet crate answers an error text.\<close>

definition to_parquet :: "(CompressionCodec \<Rightarrow> string option) \<Rightarrow> CompressionCodec \<Rightarrow> CompressionCodec teo_result" where
  "to_parquet level_error codec =
    (case codec of
       Gzip level \<Rightarrow> (case level_error codec of None \<Rightarrow> Inr codec | Some e \<Rightarrow> Inl (Parquet (''bad gzip level: '' @ e)))
     | Zstd level \<Rightarrow> (case level_error codec of None \<Rightarrow> Inr codec | Some e \<Rightarrow> Inl (Parquet (''bad zstd level: '' @ e)))
     | Brotli level \<Rightarrow> (case level_error codec of None \<Rightarrow> Inr codec | Some e \<Rightarrow> Inl (Parquet (''bad brotli level: '' @ e)))
     | _ \<Rightarrow> Inr codec)"

section \<open>Parsing and printing\<close>

fun codec_valid :: "CompressionCodec \<Rightarrow> bool" where
  "codec_valid (Gzip level) = (level \<le> 9)"
| "codec_valid (Zstd level) = (1 \<le> level \<and> level \<le> 22)"
| "codec_valid (Brotli level) = (level \<le> 11)"
| "codec_valid _ = True"

lemma parse_level_range: "parse_level codec a b lo hi inner = Inr level \<Longrightarrow> lo \<le> level \<and> level \<le> hi"
  by (auto simp: parse_level_def split: option.splits if_splits)

lemma from_str_valid:
  assumes "from_str_config text = Inr c"
  shows "codec_valid c"
proof -
  have "codec_valid c \<or> (\<exists>inner l. parse_level ''zstd'' (- (2 ^ 31)) (2 ^ 31 - 1) 1 22 inner = Inr l \<and> c = Zstd l) \<or>
      (\<exists>inner l. parse_level ''gzip'' 0 255 0 9 inner = Inr l \<and> c = Gzip (nat l)) \<or>
      (\<exists>inner l. parse_level ''brotli'' 0 (2 ^ 32 - 1) 0 11 inner = Inr l \<and> c = Brotli (nat l))"
    using assms unfolding from_str_config_def Let_def
    by (cases "level_text ''zstd'' (map lower (trim text))"; cases "level_text ''gzip'' (map lower (trim text))";
        cases "level_text ''brotli'' (map lower (trim text))") (auto split: if_splits)
  then show ?thesis by (elim disjE exE conjE) (auto dest: parse_level_range)
qed

text \<open>Every codec the parser can return is printed to a text that parses to itself.\<close>

lemma codec_display_roundtrip: "codec_valid c \<Longrightarrow> from_str_config (codec_display c) = Inr c"
proof (cases c)
  case (Gzip l)
  assume "codec_valid c"
  then have "l \<in> {0, 1, 2, 3, 4, 5, 6, 7, 8, 9}" using Gzip by auto
  then show ?thesis unfolding Gzip by (elim insertE emptyE; hypsubst; code_simp)
next
  case (Zstd l)
  assume "codec_valid c"
  then have "l \<in> {1, 2, 3, 4, 5, 6, 7, 8, 9, 10, 11, 12, 13, 14, 15, 16, 17, 18, 19, 20, 21, 22}" using Zstd by simp presburger
  then show ?thesis unfolding Zstd by (elim insertE emptyE; hypsubst; code_simp)
next
  case (Brotli l)
  assume "codec_valid c"
  then have "l \<in> {0, 1, 2, 3, 4, 5, 6, 7, 8, 9, 10, 11}" using Brotli by simp presburger
  then show ?thesis unfolding Brotli by (elim insertE emptyE; hypsubst; code_simp)
qed (simp_all, code_simp+)

end
