(* ===== verification/Parquet_Writer.thy ===== *)
theory Parquet_Writer
  imports Table_Model Compression
begin

text \<open>Writing sorted Parquet files (\<open>crates/teodb-storage/src/parquet/writer.rs\<close>, \<open>sort.rs\<close>, \<open>spec.rs\<close>, \<open>stats.rs\<close>).

  Arrow and the Parquet crate are code of other packages: the fields of \<open>arrow_ops\<close> are the operations on record batches that
  the writer calls, those of \<open>parquet_ops\<close> are the encoder and the footer reader. The object store is a parameter as well
  (\<open>storage_ops\<close>). What the writer relies on is stated by \<open>arrow_documented\<close>, \<open>parquet_documented\<close> and \<open>storage_documented\<close>. An
  Arrow schema is the list of field ids in the metadata of its fields.\<close>

section \<open>Parameters\<close>

type_synonym arrow_schema = "int option list"

record SortColumn =
  sc_index :: nat
  sc_descending :: bool
  sc_nulls_first :: bool

text \<open>Taking rows rebuilds a batch column by column: a column may fail, and so may the batch of the new columns.\<close>

datatype TakeError = TakeColumn string | BuildBatch string

record 'b arrow_ops =
  ar_num_rows :: "'b \<Rightarrow> nat"
  ar_slice :: "'b \<Rightarrow> nat \<Rightarrow> nat \<Rightarrow> 'b"
  ar_concat :: "arrow_schema \<Rightarrow> 'b list \<Rightarrow> string + 'b"
  ar_lexsort :: "SortColumn list \<Rightarrow> 'b \<Rightarrow> string + nat list"
  ar_take :: "nat list \<Rightarrow> 'b \<Rightarrow> TakeError + 'b"

datatype ValueStats =
    V_Boolean "bool option" "bool option" | V_Int32 "int option" "int option" | V_Int64 "int option" "int option"
  | V_Float "32 word option" "32 word option" | V_Double "64 word option" "64 word option"
  | V_ByteArray "byte list option" "byte list option" | V_FixedLenByteArray "byte list option" "byte list option" | V_Int96

record Statistics =
  stt_null_count :: "nat option"
  stt_values :: ValueStats

record ColumnChunk =
  cc_data_page_offset :: int
  cc_compressed_size :: int
  cc_statistics :: "Statistics option"

record RowGroup =
  rg_num_rows :: int
  rg_columns :: "ColumnChunk list"

record WriterProperties =
  wp_compression :: CompressionCodec
  wp_max_row_group_rows :: nat
  wp_key_values :: "(string \<times> string) list"

record ('b, 'wr) parquet_ops =
  pq_try_new :: "arrow_schema \<Rightarrow> WriterProperties \<Rightarrow> string + 'wr"
  pq_write :: "'b \<Rightarrow> 'wr \<Rightarrow> string + 'wr"
  pq_encoded :: "'wr \<Rightarrow> nat"
  pq_into_inner :: "'wr \<Rightarrow> string + byte list"
  pq_footer :: "byte list \<Rightarrow> string + RowGroup list"
  pq_level_error :: "CompressionCodec \<Rightarrow> string option"
  pq_sort_json :: "SortOrder \<Rightarrow> string option"

record 's storage_ops =
  sto_put :: "string \<Rightarrow> byte list \<Rightarrow> 's \<Rightarrow> 's \<times> unit teo_result"
  sto_get :: "'s \<Rightarrow> string \<Rightarrow> byte list option"

section \<open>Write specification\<close>

record WriteSpec =
  ws_schema :: arrow_schema
  ws_schema_id :: int
  ws_partition_spec_id :: int
  ws_partition_values :: "(int \<times> TeoScalar) list"
  ws_sort_order :: SortOrder
  ws_compression :: CompressionCodec
  ws_row_group_target_bytes :: nat
  ws_row_group_target_rows :: nat
  ws_generation_lo :: generation
  ws_generation_hi :: generation

record WriteSpecBuilder =
  wb_schema :: arrow_schema
  wb_schema_id :: "int option"
  wb_partition_spec_id :: "int option"
  wb_partition_values :: "(int \<times> TeoScalar) list"
  wb_sort_order :: SortOrder
  wb_compression :: CompressionCodec
  wb_row_group_target_bytes :: nat
  wb_row_group_target_rows :: nat
  wb_generation_lo :: generation
  wb_generation_hi :: generation

definition WriteSpecBuilder_new :: "arrow_schema \<Rightarrow> WriteSpecBuilder" where
  "WriteSpecBuilder_new schema = \<lparr>wb_schema = schema, wb_schema_id = None, wb_partition_spec_id = None,
     wb_partition_values = [], wb_sort_order = \<lparr>so_order_id = 0, so_fields = []\<rparr>, wb_compression = CompressionCodec_default,
     wb_row_group_target_bytes = 128 * 1024 * 1024, wb_row_group_target_rows = 8 * 1024 * 1024,
     wb_generation_lo = 0, wb_generation_hi = 0\<rparr>"

definition build_spec :: "WriteSpecBuilder \<Rightarrow> WriteSpec teo_result" where
  "build_spec b =
    bind_r (ok_or (wb_schema_id b) (Config ''write spec schema_id is required'')) (\<lambda>schema_id.
    bind_r (ok_or (wb_partition_spec_id b) (Config ''write spec partition_spec_id is required'')) (\<lambda>partition_spec_id.
    Inr \<lparr>ws_schema = wb_schema b, ws_schema_id = schema_id, ws_partition_spec_id = partition_spec_id,
         ws_partition_values = wb_partition_values b, ws_sort_order = wb_sort_order b, ws_compression = wb_compression b,
         ws_row_group_target_bytes = wb_row_group_target_bytes b, ws_row_group_target_rows = wb_row_group_target_rows b,
         ws_generation_lo = wb_generation_lo b, ws_generation_hi = wb_generation_hi b\<rparr>))"

definition writer_properties :: "('b, 'wr) parquet_ops \<Rightarrow> WriteSpec \<Rightarrow> WriterProperties teo_result" where
  "writer_properties Q spec =
    bind_r (to_parquet (pq_level_error Q) (ws_compression spec)) (\<lambda>compression.
      Inr \<lparr>wp_compression = compression, wp_max_row_group_rows = ws_row_group_target_rows spec,
       wp_key_values = [(''teodb.schema_id'', signed_str (ws_schema_id spec)),
         (''teodb.partition_spec_id'', signed_str (ws_partition_spec_id spec)),
         (''teodb.generation_lo'', dec_str (ws_generation_lo spec)), (''teodb.generation_hi'', dec_str (ws_generation_hi spec))] @
         (case pq_sort_json Q (ws_sort_order spec) of None \<Rightarrow> [] | Some json \<Rightarrow> [(''teodb.sort_order'', json)])\<rparr>)"

section \<open>Sorting and slicing\<close>

definition parquet_err :: "string \<Rightarrow> string + 'a \<Rightarrow> 'a teo_result" where
  "parquet_err context = map_sum (\<lambda>e. TeoDBError.Parquet (context @ e)) id"

definition position_of :: "'a \<Rightarrow> 'a list \<Rightarrow> nat option" where
  "position_of x xs = (if x \<in> set xs then Some (length (takeWhile (\<lambda>y. y \<noteq> x) xs)) else None)"

definition sort_columns :: "SortOrder \<Rightarrow> arrow_schema \<Rightarrow> SortColumn list" where
  "sort_columns sort_order schema =
    List.map_filter (\<lambda>sf. case position_of (Some (sf_source_id sf)) schema of
        None \<Rightarrow> None
      | Some col_idx \<Rightarrow> Some \<lparr>sc_index = col_idx, sc_descending = (sf_direction sf = Desc),
          sc_nulls_first = (sf_null_order sf = NullsFirst)\<rparr>) (so_fields sort_order)"

fun take_failed :: "TakeError \<Rightarrow> TeoDBError" where
  "take_failed (TakeColumn e) = TeoDBError.Parquet (''take: '' @ e)"
| "take_failed (BuildBatch e) = TeoDBError.Parquet (''rebuild batch: '' @ e)"

definition sort_batches :: "'b arrow_ops \<Rightarrow> 'b list \<Rightarrow> SortOrder \<Rightarrow> arrow_schema \<Rightarrow> 'b list teo_result" where
  "sort_batches A batches sort_order schema =
    (if batches = [] \<or> so_fields sort_order = [] then Inr batches
     else
       bind_r (parquet_err ''concat: '' (ar_concat A schema batches)) (\<lambda>combined.
       if sort_columns sort_order schema = [] then Inr batches
       else
         bind_r (parquet_err ''sort: '' (ar_lexsort A (sort_columns sort_order schema) combined)) (\<lambda>indices.
         bind_r (map_sum take_failed id (ar_take A indices combined)) (\<lambda>rows. Inr [rows]))))"

function slices_from :: "'b arrow_ops \<Rightarrow> 'b \<Rightarrow> nat \<Rightarrow> nat \<Rightarrow> 'b list" where
  "slices_from A batch chunk_rows offset =
    (if chunk_rows = 0 \<or> \<not> offset < ar_num_rows A batch then []
     else let len = min chunk_rows (ar_num_rows A batch - offset)
          in ar_slice A batch offset len # slices_from A batch chunk_rows (offset + len))"
  by pat_completeness auto
termination by (relation "measure (\<lambda>(A, batch, chunk_rows, offset). ar_num_rows A batch - offset)") auto

declare slices_from.simps [simp del]

definition slice_batch :: "'b arrow_ops \<Rightarrow> 'b \<Rightarrow> nat \<Rightarrow> 'b list" where
  "slice_batch A batch chunk_rows =
    (if ar_num_rows A batch \<le> chunk_rows then [batch] else slices_from A batch chunk_rows 0)"

section \<open>Footer statistics\<close>

text \<open>\<open>String::from_utf8\<close>: the well-formed byte sequences of UTF-8.\<close>

definition is_cont :: "nat \<Rightarrow> bool" where
  "is_cont b \<longleftrightarrow> 128 \<le> b \<and> b \<le> 191"

fun utf8_ok :: "nat list \<Rightarrow> bool" where
  "utf8_ok [] = True"
| "utf8_ok (a # rest) =
    (if a < 128 then utf8_ok rest
     else if 194 \<le> a \<and> a \<le> 223 then (case rest of b # rest' \<Rightarrow> is_cont b \<and> utf8_ok rest' | _ \<Rightarrow> False)
     else if 224 \<le> a \<and> a \<le> 239 then
       (case rest of b # c # rest' \<Rightarrow> is_cont b \<and> is_cont c \<and> (a = 224 \<longrightarrow> 160 \<le> b) \<and> (a = 237 \<longrightarrow> b \<le> 159) \<and> utf8_ok rest' | _ \<Rightarrow> False)
     else if 240 \<le> a \<and> a \<le> 244 then
       (case rest of b # c # d # rest' \<Rightarrow> is_cont b \<and> is_cont c \<and> is_cont d \<and> (a = 240 \<longrightarrow> 144 \<le> b) \<and> (a = 244 \<longrightarrow> b \<le> 143) \<and> utf8_ok rest'
        | _ \<Rightarrow> False)
     else False)"

definition from_utf8 :: "byte list \<Rightarrow> string option" where
  "from_utf8 bytes = (if utf8_ok (map unat bytes) then Some (map (\<lambda>b. char_of (unat b)) bytes) else None)"

definition utf8_scalar :: "byte list option \<Rightarrow> TeoScalar option" where
  "utf8_scalar v = (case v of None \<Rightarrow> None | Some b \<Rightarrow> map_option SUtf8 (from_utf8 b))"

fun stats_min_to_scalar :: "ValueStats \<Rightarrow> TeoScalar option" where
  "stats_min_to_scalar (V_Boolean lo hi) = map_option SBoolean lo"
| "stats_min_to_scalar (V_Int32 lo hi) = map_option SInt32 lo"
| "stats_min_to_scalar (V_Int64 lo hi) = map_option SInt64 lo"
| "stats_min_to_scalar (V_Float lo hi) = map_option SFloat32 lo"
| "stats_min_to_scalar (V_Double lo hi) = map_option SFloat64 lo"
| "stats_min_to_scalar (V_ByteArray lo hi) = utf8_scalar lo"
| "stats_min_to_scalar (V_FixedLenByteArray lo hi) = map_option SBinary lo"
| "stats_min_to_scalar V_Int96 = None"

fun stats_max_to_scalar :: "ValueStats \<Rightarrow> TeoScalar option" where
  "stats_max_to_scalar (V_Boolean lo hi) = map_option SBoolean hi"
| "stats_max_to_scalar (V_Int32 lo hi) = map_option SInt32 hi"
| "stats_max_to_scalar (V_Int64 lo hi) = map_option SInt64 hi"
| "stats_max_to_scalar (V_Float lo hi) = map_option SFloat32 hi"
| "stats_max_to_scalar (V_Double lo hi) = map_option SFloat64 hi"
| "stats_max_to_scalar (V_ByteArray lo hi) = utf8_scalar hi"
| "stats_max_to_scalar (V_FixedLenByteArray lo hi) = map_option SBinary hi"
| "stats_max_to_scalar V_Int96 = None"

record FileStats =
  fa_record_count :: nat
  fa_column_sizes :: "(int \<times> nat) list"
  fa_value_counts :: "(int \<times> nat) list"
  fa_null_value_counts :: "(int \<times> nat) list"
  fa_lower_bounds :: "(int \<times> TeoScalar) list"
  fa_upper_bounds :: "(int \<times> TeoScalar) list"
  fa_split_offsets :: "int list"

text \<open>\<open>as u64\<close>, and additions that wrap.\<close>

definition as_u64 :: "int \<Rightarrow> nat" where
  "as_u64 v = nat (v mod 2 ^ 64)"

definition wrap_add :: "nat \<Rightarrow> nat \<Rightarrow> nat" where
  "wrap_add a b = (a + b) mod u64_bound"

definition al_add :: "int \<Rightarrow> nat \<Rightarrow> (int \<times> nat) list \<Rightarrow> (int \<times> nat) list" where
  "al_add k n m = al_put k (wrap_add (case map_of m k of None \<Rightarrow> 0 | Some v \<Rightarrow> v) n) m"

text \<open>\<open>better\<close> is the comparison with the bound so far: smaller for lower bounds, greater for upper ones.\<close>

definition merge_bound :: "Ordering \<Rightarrow> int \<Rightarrow> TeoScalar option \<Rightarrow> (int \<times> TeoScalar) list \<Rightarrow> (int \<times> TeoScalar) list" where
  "merge_bound better field_id v bounds =
    (case v of
       None \<Rightarrow> bounds
     | Some scalar \<Rightarrow>
        (case map_of bounds field_id of
           None \<Rightarrow> al_put field_id scalar bounds
         | Some existing \<Rightarrow>
             if scalar_partial_cmp scalar existing = Some better then al_put field_id scalar bounds else bounds))"

definition add_column :: "int \<Rightarrow> nat \<Rightarrow> ColumnChunk \<Rightarrow> FileStats \<Rightarrow> FileStats" where
  "add_column field_id num_values col a =
    (let a = a\<lparr>fa_column_sizes := al_add field_id (as_u64 (cc_compressed_size col)) (fa_column_sizes a)\<rparr> in
     case cc_statistics col of
       None \<Rightarrow> a
     | Some stats \<Rightarrow>
         a\<lparr>fa_value_counts := al_add field_id num_values (fa_value_counts a),
           fa_null_value_counts := (case stt_null_count stats of
               None \<Rightarrow> fa_null_value_counts a
             | Some n \<Rightarrow> if n > 0 then al_add field_id n (fa_null_value_counts a) else fa_null_value_counts a),
           fa_lower_bounds := merge_bound Less field_id (stats_min_to_scalar (stt_values stats)) (fa_lower_bounds a),
           fa_upper_bounds := merge_bound Greater field_id (stats_max_to_scalar (stt_values stats)) (fa_upper_bounds a)\<rparr>)"

fun add_columns :: "arrow_schema \<Rightarrow> nat \<Rightarrow> ColumnChunk list \<Rightarrow> FileStats \<Rightarrow> FileStats" where
  "add_columns field_ids num_values [] a = a"
| "add_columns [] num_values (col # cols) a = a"
| "add_columns (None # field_ids) num_values (col # cols) a = add_columns field_ids num_values cols a"
| "add_columns (Some field_id # field_ids) num_values (col # cols) a =
    add_columns field_ids num_values cols (add_column field_id num_values col a)"

definition add_row_group :: "arrow_schema \<Rightarrow> RowGroup \<Rightarrow> FileStats \<Rightarrow> FileStats" where
  "add_row_group field_ids rg a =
    add_columns field_ids (as_u64 (rg_num_rows rg)) (rg_columns rg)
      (a\<lparr>fa_record_count := wrap_add (fa_record_count a) (as_u64 (rg_num_rows rg)),
         fa_split_offsets := fa_split_offsets a @ (case rg_columns rg of [] \<Rightarrow> [] | col0 # _ \<Rightarrow> [cc_data_page_offset col0])\<rparr>)"

definition no_stats :: FileStats where
  "no_stats = \<lparr>fa_record_count = 0, fa_column_sizes = [], fa_value_counts = [], fa_null_value_counts = [],
     fa_lower_bounds = [], fa_upper_bounds = [], fa_split_offsets = []\<rparr>"

definition extract_data_file_from_bytes ::
    "('b, 'wr) parquet_ops \<Rightarrow> byte list \<Rightarrow> ObjectLocation \<Rightarrow> WriteSpec \<Rightarrow> nat \<Rightarrow> DataFile teo_result" where
  "extract_data_file_from_bytes Q data target spec file_size =
    bind_r (parquet_err ''open footer: '' (pq_footer Q data)) (\<lambda>footer.
    let a = fold (add_row_group (ws_schema spec)) footer no_stats in
    Inr \<lparr>df_content = Data, df_path = target, df_format = FileFormat.Parquet, df_partition_spec_id = ws_partition_spec_id spec,
         df_sort_order_id = Some (so_order_id (ws_sort_order spec)), df_schema_id = ws_schema_id spec,
         df_partition_values = ws_partition_values spec, df_record_count = fa_record_count a, df_file_size_bytes = file_size,
         df_column_sizes = fa_column_sizes a, df_value_counts = fa_value_counts a,
         df_null_value_counts = fa_null_value_counts a, df_nan_value_counts = [], df_lower_bounds = fa_lower_bounds a,
         df_upper_bounds = fa_upper_bounds a, df_split_offsets = fa_split_offsets a, df_equality_ids = [],
         df_key_metadata = None\<rparr>)"

section \<open>Writing\<close>

text \<open>\<open>{index:04}\<close>: at least four digits.\<close>

definition pad4 :: "nat \<Rightarrow> string" where
  "pad4 n = replicate (4 - length (dec_str n)) CHR ''0'' @ dec_str n"

definition file_location :: "ObjectLocation \<Rightarrow> nat \<Rightarrow> ObjectLocation" where
  "file_location base index =
    base\<lparr>ol_key :=
      (case strip_suffix ''-f0000.parquet'' (ol_key base) of
         Some prefix \<Rightarrow> prefix @ ''-f'' @ pad4 index @ ''.parquet''
       | None \<Rightarrow>
          (case strip_suffix ''.parquet'' (ol_key base) of
             Some stripped \<Rightarrow> stripped @ ''-'' @ pad4 index @ ''.parquet''
           | None \<Rightarrow> ol_key base @ ''-'' @ pad4 index))\<rparr>"

definition finish_file ::
    "('b, 'wr) parquet_ops \<Rightarrow> 's storage_ops \<Rightarrow> ObjectLocation \<Rightarrow> 'wr \<Rightarrow> WriteSpec \<Rightarrow> 's \<Rightarrow> 's \<times> DataFile teo_result" where
  "finish_file Q S target writer spec store =
    (case parquet_err ''writer close: '' (pq_into_inner Q writer) of
       Inl e \<Rightarrow> (store, Inl e)
     | Inr file_bytes \<Rightarrow>
        (case sto_put S (ol_key target) file_bytes store of
           (store, Inl e) \<Rightarrow> (store, Inl e)
         | (store, Inr _) \<Rightarrow> (store, extract_data_file_from_bytes Q file_bytes target spec (length file_bytes))))"

text \<open>The loop over the batches. \<open>writer\<close> is the open file; \<open>file_index\<close> is a \<open>u32\<close>. A batch of the stream may be an error.\<close>

fun write_stream_loop ::
    "'b arrow_ops \<Rightarrow> ('b, 'wr) parquet_ops \<Rightarrow> 's storage_ops \<Rightarrow> ObjectLocation \<Rightarrow> WriteSpec \<Rightarrow> WriterProperties \<Rightarrow> nat
      \<Rightarrow> 'b teo_result list \<Rightarrow> 'wr option \<Rightarrow> nat \<Rightarrow> DataFile list \<Rightarrow> 's \<Rightarrow> 's \<times> DataFile list teo_result" where
  "write_stream_loop A Q S base spec props target_file_bytes [] writer file_index data_files store =
    (case writer of
       None \<Rightarrow> (store, Inr data_files)
     | Some open_writer \<Rightarrow>
         let target = (if file_index = 0 then base else file_location base file_index) in
         (case finish_file Q S target open_writer spec store of
            (store, Inl e) \<Rightarrow> (store, Inl e)
          | (store, Inr f) \<Rightarrow> (store, Inr (data_files @ [f]))))"
| "write_stream_loop A Q S base spec props target_file_bytes (Inl e # batches) writer file_index data_files store = (store, Inl e)"
| "write_stream_loop A Q S base spec props target_file_bytes (Inr batch # batches) writer file_index data_files store =
    (if ar_num_rows A batch = 0
     then write_stream_loop A Q S base spec props target_file_bytes batches writer file_index data_files store
     else
       case bind_r (case writer of Some w \<Rightarrow> Inr w | None \<Rightarrow> parquet_err ''writer init: '' (pq_try_new Q (ws_schema spec) props))
           (\<lambda>w. parquet_err ''write batch: '' (pq_write Q batch w)) of
         Inl e \<Rightarrow> (store, Inl e)
       | Inr w \<Rightarrow>
           if pq_encoded Q w \<ge> target_file_bytes
           then (case finish_file Q S (file_location base file_index) w spec store of
               (store, Inl e) \<Rightarrow> (store, Inl e)
             | (store, Inr f) \<Rightarrow>
                 write_stream_loop A Q S base spec props target_file_bytes batches None ((file_index + 1) mod 2 ^ 32)
                   (data_files @ [f]) store)
           else write_stream_loop A Q S base spec props target_file_bytes batches (Some w) file_index data_files store)"

definition write_sorted_stream ::
    "'b arrow_ops \<Rightarrow> ('b, 'wr) parquet_ops \<Rightarrow> 's storage_ops \<Rightarrow> ObjectLocation \<Rightarrow> 'b teo_result list \<Rightarrow> WriteSpec \<Rightarrow> 's
      \<Rightarrow> 's \<times> DataFile list teo_result" where
  "write_sorted_stream A Q S base batches spec store =
    (let target_file_bytes = ws_row_group_target_bytes spec * 8 mod u64_bound in
     case writer_properties Q spec of
       Inl e \<Rightarrow> (store, Inl e)
     | Inr props \<Rightarrow> write_stream_loop A Q S base spec props target_file_bytes batches None 0 [] store)"

definition write_sorted_streaming ::
    "'b arrow_ops \<Rightarrow> ('b, 'wr) parquet_ops \<Rightarrow> 's storage_ops \<Rightarrow> ObjectLocation \<Rightarrow> 'b list \<Rightarrow> WriteSpec \<Rightarrow> 's
      \<Rightarrow> 's \<times> DataFile list teo_result" where
  "write_sorted_streaming A Q S base batches spec store = write_sorted_stream A Q S base (map Inr batches) spec store"

definition write_sorted_rolled ::
    "'b arrow_ops \<Rightarrow> ('b, 'wr) parquet_ops \<Rightarrow> 's storage_ops \<Rightarrow> ObjectLocation \<Rightarrow> 'b list \<Rightarrow> WriteSpec \<Rightarrow> 's
      \<Rightarrow> 's \<times> DataFile list teo_result" where
  "write_sorted_rolled A Q S base batches spec store =
    (if batches = [] then (store, Inr [])
     else
       case sort_batches A batches (ws_sort_order spec) (ws_schema spec) of
         Inl e \<Rightarrow> (store, Inl e)
       | Inr ordered \<Rightarrow>
           let chunk_rows = max (ws_row_group_target_rows spec) 1 in
           write_sorted_stream A Q S base (map Inr (concat (map (\<lambda>b. slice_batch A b chunk_rows) ordered))) spec store)"

fun write_all :: "('b, 'wr) parquet_ops \<Rightarrow> 'b list \<Rightarrow> 'wr \<Rightarrow> 'wr teo_result" where
  "write_all Q [] w = Inr w"
| "write_all Q (b # bs) w = bind_r (parquet_err ''write batch: '' (pq_write Q b w)) (write_all Q bs)"

definition write_sorted_parquet ::
    "'b arrow_ops \<Rightarrow> ('b, 'wr) parquet_ops \<Rightarrow> 's storage_ops \<Rightarrow> ObjectLocation \<Rightarrow> 'b list \<Rightarrow> WriteSpec \<Rightarrow> 's
      \<Rightarrow> 's \<times> DataFile teo_result" where
  "write_sorted_parquet A Q S target batches spec store =
    (if batches = [] then (store, Inl (InvalidArgument ''batches'' ''cannot write empty Parquet file''))
     else
       case bind_r (writer_properties Q spec) (\<lambda>props.
           bind_r (sort_batches A batches (ws_sort_order spec) (ws_schema spec)) (\<lambda>ordered.
           bind_r (parquet_err ''writer init: '' (pq_try_new Q (ws_schema spec) props)) (write_all Q ordered))) of
         Inl e \<Rightarrow> (store, Inl e)
       | Inr writer \<Rightarrow> finish_file Q S target writer spec store)"

section \<open>Documented behaviour of the parameters\<close>

text \<open>\<open>rows\<close> reads the rows of a batch: slicing, concatenation and taking work row by row, and a sort answers a permutation of
  the row indices.\<close>

definition arrow_documented :: "'b arrow_ops \<Rightarrow> ('b \<Rightarrow> 'r list) \<Rightarrow> bool" where
  "arrow_documented A rows \<longleftrightarrow>
    (\<forall>b. ar_num_rows A b = length (rows b)) \<and>
    (\<forall>b o' n. o' + n \<le> length (rows b) \<longrightarrow> rows (ar_slice A b o' n) = take n (drop o' (rows b))) \<and>
    (\<forall>sc bs b. ar_concat A sc bs = Inr b \<longrightarrow> rows b = concat (map rows bs)) \<and>
    (\<forall>cols b is. ar_lexsort A cols b = Inr is \<longrightarrow> mset is = mset [0..<length (rows b)]) \<and>
    (\<forall>is b b'. (\<forall>i \<in> set is. i < length (rows b)) \<longrightarrow> ar_take A is b = Inr b' \<longrightarrow> rows b' = map ((!) (rows b)) is)"

text \<open>\<open>content\<close> reads the rows an encoder was given, \<open>file_rows\<close> those of an encoded file.\<close>

definition parquet_documented ::
    "('b, 'wr) parquet_ops \<Rightarrow> ('b \<Rightarrow> 'r list) \<Rightarrow> ('wr \<Rightarrow> 'r list) \<Rightarrow> (byte list \<Rightarrow> 'r list) \<Rightarrow> bool" where
  "parquet_documented Q rows content file_rows \<longleftrightarrow>
    (\<forall>sc ps w. pq_try_new Q sc ps = Inr w \<longrightarrow> content w = []) \<and>
    (\<forall>b w w'. pq_write Q b w = Inr w' \<longrightarrow> content w' = content w @ rows b) \<and>
    (\<forall>w bytes. pq_into_inner Q w = Inr bytes \<longrightarrow> file_rows bytes = content w) \<and>
    (\<forall>bytes rgs. pq_footer Q bytes = Inr rgs \<longrightarrow> (\<forall>rg \<in> set rgs. 0 \<le> rg_num_rows rg) \<and>
      sum_list (map rg_num_rows rgs) = int (length (file_rows bytes)))"

definition storage_documented :: "'s storage_ops \<Rightarrow> bool" where
  "storage_documented S \<longleftrightarrow> (\<forall>path bytes s s'. sto_put S path bytes s = (s', Inr ()) \<longrightarrow> sto_get S s' = (sto_get S s)(path \<mapsto> bytes))"

section \<open>Lemmas\<close>

lemma parquet_err_Inr [simp]: "parquet_err c m = Inr x \<longleftrightarrow> m = Inr x"
  by (cases m) (auto simp: parquet_err_def)

subsection \<open>Sorting and slicing keep the rows\<close>

lemma permuted_rows: "mset is = mset [0..<length xs] \<Longrightarrow> mset (map ((!) xs) is) = mset xs"
proof -
  assume "mset is = mset [0..<length xs]"
  then have "image_mset ((!) xs) (mset is) = image_mset ((!) xs) (mset [0..<length xs])" by simp
  then have "mset (map ((!) xs) is) = mset (map ((!) xs) [0..<length xs])" by (simp only: mset_map)
  then show ?thesis by (simp only: map_nth)
qed

lemma take_Inr [simp]: "map_sum take_failed id r = Inr b \<longleftrightarrow> r = Inr b"
  by (cases r) simp_all

lemma sort_batches_rows:
  assumes A: "arrow_documented A rows" and s: "sort_batches A bs so sc = Inr out"
  shows "mset (concat (map rows out)) = mset (concat (map rows bs))"
proof -
  consider "out = bs" | combined "is" sorted where "ar_concat A sc bs = Inr combined"
      "ar_lexsort A (sort_columns so sc) combined = Inr is" "ar_take A is combined = Inr sorted" "out = [sorted]"
    using s by (auto simp: sort_batches_def split: if_splits)
  then show ?thesis
  proof cases
    case (2 combined "is" sorted)
    note D = A[unfolded arrow_documented_def]
    have p: "mset is = mset [0..<length (rows combined)]" using D 2(2) by blast
    have "rows sorted = map ((!) (rows combined)) is"
    proof -
      have "\<forall>i \<in> set is. i < length (rows combined)" using mset_eq_setD[OF p] by simp
      then show ?thesis using D 2(3) by blast
    qed
    moreover have "rows combined = concat (map rows bs)" using D 2(1) by blast
    ultimately show ?thesis using permuted_rows[OF p] by (simp add: 2(4))
  qed simp
qed

lemma slices_rows:
  assumes A: "arrow_documented A rows" and "0 < chunk"
  shows "concat (map rows (slices_from A b chunk offset)) = drop offset (rows b)"
proof (induction "length (rows b) - offset" arbitrary: offset rule: less_induct)
  case less
  have len: "ar_num_rows A b = length (rows b)" using A by (simp add: arrow_documented_def)
  show ?case
  proof (cases "offset < length (rows b)")
    case True
    let ?n = "min chunk (length (rows b) - offset)"
    have "rows (ar_slice A b offset ?n) = take ?n (drop offset (rows b))"
      using A True by (simp add: arrow_documented_def)
    moreover have "concat (map rows (slices_from A b chunk (offset + ?n))) = drop (offset + ?n) (rows b)"
      using True assms(2) by (intro less) auto
    moreover have "take ?n (drop offset (rows b)) @ drop (offset + ?n) (rows b) = drop offset (rows b)"
      by (metis add.commute append_take_drop_id drop_drop)
    ultimately show ?thesis using True assms(2) by (subst slices_from.simps) (simp add: Let_def len)
  qed (use assms(2) len in \<open>subst slices_from.simps, simp\<close>)
qed

lemma slice_batch_rows:
  assumes "arrow_documented A rows" "0 < chunk"
  shows "concat (map rows (slice_batch A b chunk)) = rows b"
  using slices_rows[OF assms] by (simp add: slice_batch_def)

subsection \<open>File names\<close>

lemma digit_ne_dash: "list_all is_digit s \<Longrightarrow> CHR ''-'' \<notin> set s"
  by (auto simp: list_all_iff is_digit_def)

lemma pad4_digits: "list_all is_digit (pad4 n)"
  by (auto simp: pad4_def list_all_iff[of _ "replicate _ _"] is_digit_def)

lemma pad4_inj [simp]: "pad4 m = pad4 n \<longleftrightarrow> m = n"
proof
  have zeros: "dec_val (replicate k CHR ''0'' @ s) = dec_val s" for k s
    by (induction k) (simp_all add: dec_val_def digit_val_def)
  assume "pad4 m = pad4 n"
  then have "dec_val (pad4 m) = dec_val (pad4 n)" by simp
  then show "m = n" by (simp add: pad4_def zeros)
qed simp

lemma file_location_key_inj: "ol_key (file_location base i) = ol_key (file_location base j) \<longleftrightarrow> i = j"
  by (auto simp: file_location_def split: option.splits)

subsection \<open>Footers\<close>

lemma add_columns_count [simp]: "fa_record_count (add_columns ids n cols a) = fa_record_count a"
  by (induction ids n cols a rule: add_columns.induct) (simp_all add: add_column_def Let_def split: option.split)

lemma footer_count:
  assumes "\<forall>rg \<in> set rgs. 0 \<le> rg_num_rows rg" "int (fa_record_count a) + sum_list (map rg_num_rows rgs) < 2 ^ 64"
  shows "int (fa_record_count (fold (add_row_group ids) rgs a)) = int (fa_record_count a) + sum_list (map rg_num_rows rgs)"
  using assms
proof (induction rgs arbitrary: a)
  case (Cons rg rgs)
  have ge: "0 \<le> sum_list (map rg_num_rows rgs)" using Cons.prems(1) by (intro sum_list_nonneg) auto
  have rg: "0 \<le> rg_num_rows rg" "rg_num_rows rg < 2 ^ 64" using Cons.prems ge by auto
  have "int (fa_record_count (add_row_group ids rg a)) = int (fa_record_count a) + rg_num_rows rg"
    using Cons.prems(2) rg ge by (simp add: add_row_group_def wrap_add_def as_u64_def u64_bound_def of_nat_mod)
  then show ?case using Cons.IH[of "add_row_group ids rg a"] Cons.prems by (simp add: algebra_simps)
qed simp

text \<open>What a finished file promises: its place, its identity, its rows in the store and their number.\<close>

definition rows_at :: "'s storage_ops \<Rightarrow> (byte list \<Rightarrow> 'r list) \<Rightarrow> 's \<Rightarrow> DataFile \<Rightarrow> 'r list" where
  "rows_at S file_rows store f = (case sto_get S store (ol_key (df_path f)) of None \<Rightarrow> [] | Some b \<Rightarrow> file_rows b)"

definition file_of :: "WriteSpec \<Rightarrow> DataFile \<Rightarrow> bool" where
  "file_of spec f \<longleftrightarrow> df_content f = Data \<and> df_schema_id f = ws_schema_id spec \<and>
     df_partition_spec_id f = ws_partition_spec_id spec \<and> df_partition_values f = ws_partition_values spec"

lemma finish_file_ok:
  assumes Q: "parquet_documented Q rows content file_rows" and S: "storage_documented S"
    and "length (content w) < u64_bound" "finish_file Q S target w spec store = (store', Inr f)"
  shows "df_path f = target \<and> file_of spec f \<and> rows_at S file_rows store' f = content w \<and>
    df_record_count f = length (content w) \<and> (\<forall>q. q \<noteq> ol_key target \<longrightarrow> sto_get S store' q = sto_get S store q)"
proof -
  obtain bytes where b: "pq_into_inner Q w = Inr bytes" "sto_put S (ol_key target) bytes store = (store', Inr ())"
    "extract_data_file_from_bytes Q bytes target spec (length bytes) = Inr f"
    using assms(4) by (auto simp: finish_file_def split: sum.splits prod.splits)
  have fr: "file_rows bytes = content w" using Q b(1) by (simp add: parquet_documented_def)
  have get: "sto_get S store' = (sto_get S store)(ol_key target \<mapsto> bytes)" using S b(2) by (simp add: storage_documented_def)
  obtain rgs where rgs: "pq_footer Q bytes = Inr rgs" and f: "df_path f = target" "file_of spec f"
    "df_record_count f = fa_record_count (fold (add_row_group (ws_schema spec)) rgs no_stats)"
    using b(3) by (auto simp: extract_data_file_from_bytes_def Let_def file_of_def)
  have "\<forall>rg \<in> set rgs. 0 \<le> rg_num_rows rg" "sum_list (map rg_num_rows rgs) = int (length (content w))"
    using Q rgs fr by (auto simp: parquet_documented_def)
  then have "int (df_record_count f) = int (length (content w))"
    using footer_count[of rgs no_stats "ws_schema spec"] assms(3) by (simp add: f(3) no_stats_def u64_bound_def)
  then show ?thesis using f get fr by (simp add: rows_at_def)
qed


subsection \<open>The stream loop\<close>

definition paths_from :: "ObjectLocation \<Rightarrow> nat \<Rightarrow> DataFile list \<Rightarrow> bool" where
  "paths_from base i fs \<longleftrightarrow> map df_path fs = map (file_location base) [i..<i + length fs] \<or> i = 0 \<and> map df_path fs = [base]"

text \<open>The files of a write: their places, their rows in the store, and that no other object was touched.\<close>

definition written ::
    "'s storage_ops \<Rightarrow> (byte list \<Rightarrow> 'r list) \<Rightarrow> WriteSpec \<Rightarrow> 's \<Rightarrow> 's \<Rightarrow> DataFile list \<Rightarrow> bool" where
  "written S file_rows spec store store' fs \<longleftrightarrow> list_all (file_of spec) fs \<and>
     (\<forall>f \<in> set fs. df_record_count f = length (rows_at S file_rows store' f)) \<and>
     (\<forall>q. q \<notin> ol_key ` df_path ` set fs \<longrightarrow> sto_get S store' q = sto_get S store q)"

lemma rows_at_cong: "sto_get S s' (ol_key (df_path f)) = sto_get S s (ol_key (df_path f)) \<Longrightarrow>
    rows_at S fr s' f = rows_at S fr s f"
  by (simp add: rows_at_def)

lemma paths_from_keys:
  "paths_from base i fs \<Longrightarrow> ol_key ` df_path ` set fs \<subseteq> insert (ol_key base) ((\<lambda>j. ol_key (file_location base j)) ` {i..<i + length fs})"
proof -
  assume "paths_from base i fs"
  then have "set (map df_path fs) \<subseteq> insert base (file_location base ` {i..<i + length fs})"
    unfolding paths_from_def by (elim disjE conjE) (simp_all only: set_map set_upt list.set, auto)
  then show ?thesis by auto
qed

lemma paths_from_distinct:
  assumes "paths_from base i fs"
  shows "distinct (map ol_key (map df_path fs))"
proof -
  consider "map df_path fs = map (file_location base) [i..<i + length fs]" | "map df_path fs = [base]"
    using assms unfolding paths_from_def by blast
  then show ?thesis
  proof cases
    case 1
    show ?thesis unfolding 1 by (auto simp: distinct_map inj_on_def file_location_key_inj simp del: upt_Suc)
  next
    case 2
    show ?thesis unfolding 2 by simp
  qed
qed

lemma written_cons:
  assumes f: "df_path f = p" "file_of spec f" "rows_at S fr s1 f = xs" "df_record_count f = length xs"
    "\<forall>q. q \<noteq> ol_key p \<longrightarrow> sto_get S s1 q = sto_get S s q"
    and w: "written S fr spec s1 s2 fs" "ol_key p \<notin> ol_key ` df_path ` set fs"
  shows "written S fr spec s s2 (f # fs) \<and> rows_at S fr s2 f = xs"
proof -
  have "sto_get S s2 (ol_key p) = sto_get S s1 (ol_key p)" using w by (simp add: written_def)
  then have r: "rows_at S fr s2 f = xs" using f(1,3) rows_at_cong[of S s2 f s1 fr] by simp
  moreover have "sto_get S s2 q = sto_get S s q" if "q \<notin> ol_key ` df_path ` set (f # fs)" for q
    using that w(1) f(1,5) by (simp add: written_def)
  ultimately show ?thesis using f(2,4) w(1) by (simp add: written_def)
qed

lemma stream_loop_ok:
  assumes A: "arrow_documented A rows" and Q: "parquet_documented Q rows content fr" and S: "storage_documented S"
    and "write_stream_loop A Q S base spec props tb (map Inr cs) writer i dfs s = (s', Inr out)" "i + length cs < 2 ^ 32"
    and "length (case writer of None \<Rightarrow> [] | Some w \<Rightarrow> content w) + length (concat (map rows cs)) < u64_bound"
  shows "\<exists>fs. out = dfs @ fs \<and> paths_from base i fs \<and> written S fr spec s s' fs \<and>
    concat (map (rows_at S fr s') fs) = (case writer of None \<Rightarrow> [] | Some w \<Rightarrow> content w) @ concat (map rows cs)"
  using assms(4-6)
proof (induction cs arbitrary: writer i dfs s)
  case Nil
  show ?case
  proof (cases writer)
    case None
    then have "written S fr spec s s' [] \<and> out = dfs" using Nil by (simp add: written_def)
    then show ?thesis using None by (intro exI[of _ "[]"]) (simp add: paths_from_def)
  next
    case (Some w)
    let ?t = "if i = 0 then base else file_location base i"
    obtain f where f: "finish_file Q S ?t w spec s = (s', Inr f)" "out = dfs @ [f]"
      using Nil(1) Some by (auto simp: Let_def split: prod.splits sum.splits)
    have "length (content w) < u64_bound" using Nil(3) Some by simp
    note F = finish_file_ok[OF Q S this f(1)]
    have "written S fr spec s s' [f] \<and> rows_at S fr s' f = content w"
      by (rule written_cons[where p = ?t and ?s1.0 = s']) (use F in \<open>auto simp: written_def\<close>)
    then show ?thesis using F f(2) Some by (intro exI[of _ "[f]"]) (auto simp: paths_from_def)
  qed
next
  case (Cons c cs)
  have len: "ar_num_rows A c = length (rows c)" using A by (simp add: arrow_documented_def)
  show ?case
  proof (cases "rows c = []")
    case True
    then have "write_stream_loop A Q S base spec props tb (map Inr cs) writer i dfs s = (s', Inr out)"
      using Cons.prems(1) by (simp add: len)
    from Cons.IH[OF this] Cons.prems(2,3) True show ?thesis by simp
  next
    case False
    obtain w where w: "bind_r (case writer of Some w \<Rightarrow> Inr w | None \<Rightarrow> parquet_err ''writer init: '' (pq_try_new Q (ws_schema spec) props))
           (\<lambda>w. parquet_err ''write batch: '' (pq_write Q c w)) = Inr w"
      using Cons.prems(1) False by (auto simp: len split: sum.splits)
    have cw: "content w = (case writer of None \<Rightarrow> [] | Some w \<Rightarrow> content w) @ rows c"
      using w Q by (auto simp: parquet_documented_def split: option.splits)
    show ?thesis
    proof (cases "pq_encoded Q w \<ge> tb")
      case True
      have small: "(i + 1) mod 2 ^ 32 = i + 1" using Cons.prems(2) by simp
      obtain s1 f where f: "finish_file Q S (file_location base i) w spec s = (s1, Inr f)"
        and loop: "write_stream_loop A Q S base spec props tb (map Inr cs) None (i + 1) (dfs @ [f]) s1 = (s', Inr out)"
        using Cons.prems(1) False w True small by (simp add: len split: prod.splits sum.splits)
      have "length (content w) < u64_bound" using Cons.prems(3) cw by simp
      note F = finish_file_ok[OF Q S this f]
      obtain fs where IH: "out = (dfs @ [f]) @ fs" "paths_from base (i + 1) fs"
        "written S fr spec s1 s' fs" "concat (map (rows_at S fr s') fs) = concat (map rows cs)"
        using Cons.IH[OF loop] Cons.prems(2,3) by auto
      have p: "map df_path fs = map (file_location base) [i + 1..<i + 1 + length fs]" using IH(2) by (simp add: paths_from_def)
      then have "df_path ` set fs = file_location base ` {i + 1..<i + 1 + length fs}" by (metis set_map set_upt)
      then have "ol_key (file_location base i) \<notin> ol_key ` df_path ` set fs" by (auto simp: file_location_key_inj)
      then have "written S fr spec s s' (f # fs) \<and> rows_at S fr s' f = content w"
        using F IH(3) by (intro written_cons[where p = "file_location base i" and ?s1.0 = s1]) auto
      moreover have "paths_from base i (f # fs)" using F p by (simp add: paths_from_def upt_conv_Cons del: upt_Suc)
      ultimately show ?thesis using IH cw by (intro exI[of _ "f # fs"]) simp
    next
      case keep: False
      have "write_stream_loop A Q S base spec props tb (map Inr cs) (Some w) i dfs s = (s', Inr out)"
        using Cons.prems(1) False w keep by (simp add: len)
      from Cons.IH[OF this] Cons.prems(2,3) cw show ?thesis by simp
    qed
  qed
qed

lemma length_slices:
  assumes A: "arrow_documented A rows"
  shows "length (slices_from A b chunk offset) \<le> length (rows b) - offset"
proof (induction "length (rows b) - offset" arbitrary: offset rule: less_induct)
  case less
  have len: "ar_num_rows A b = length (rows b)" using A by (simp add: arrow_documented_def)
  show ?case
  proof (cases "chunk = 0 \<or> \<not> offset < length (rows b)")
    case False
    define n where "n = min chunk (length (rows b) - offset)"
    have n: "1 \<le> n" "n \<le> length (rows b) - offset" using False by (auto simp: n_def)
    have "length (slices_from A b chunk (offset + n)) \<le> length (rows b) - (offset + n)" using False n by (intro less) auto
    then have "Suc (length (slices_from A b chunk (offset + n))) \<le> length (rows b) - offset" using n by linarith
    then show ?thesis using False by (subst slices_from.simps) (simp add: Let_def len n_def)
  qed (subst slices_from.simps, simp add: len)
qed

lemma length_chunks:
  assumes A: "arrow_documented A rows"
  shows "length (concat (map (\<lambda>b. slice_batch A b chunk) bs)) \<le> length (concat (map rows bs)) + length bs"
proof (induction bs)
  case (Cons b bs)
  have "length (slice_batch A b chunk) \<le> length (rows b) + 1"
    using length_slices[OF A, of b chunk 0] by (simp add: slice_batch_def)
  then show ?case using Cons by simp
qed simp

lemma length_sorted: "sort_batches A bs so sc = Inr out \<Longrightarrow> bs \<noteq> [] \<Longrightarrow> length out \<le> length bs"
  by (cases bs) (auto simp: sort_batches_def split: if_splits)

text \<open>A rolled write stores exactly the rows of its batches, in files with distinct names.\<close>

lemma write_sorted_rolled_ok:
  assumes A: "arrow_documented A rows" and Q: "parquet_documented Q rows content fr" and S: "storage_documented S"
    and w: "write_sorted_rolled A Q S base bs spec s = (s', Inr fs)" and small: "length (concat (map rows bs)) + length bs < 2 ^ 32"
  shows "paths_from base 0 fs \<and> written S fr spec s s' fs \<and>
    mset (concat (map (rows_at S fr s') fs)) = mset (concat (map rows bs))"
proof (cases "bs = []")
  case True
  then show ?thesis using w by (simp add: write_sorted_rolled_def paths_from_def written_def)
next
  case False
  obtain sorted props where sp: "sort_batches A bs (ws_sort_order spec) (ws_schema spec) = Inr sorted"
    "writer_properties Q spec = Inr props"
    and loop: "write_stream_loop A Q S base spec props (ws_row_group_target_bytes spec * 8 mod u64_bound)
      (map Inr (concat (map (\<lambda>b. slice_batch A b (max (ws_row_group_target_rows spec) 1)) sorted))) None 0 [] s = (s', Inr fs)"
    using w False by (auto simp: write_sorted_rolled_def write_sorted_stream_def Let_def split: sum.splits)
  let ?cs = "concat (map (\<lambda>b. slice_batch A b (max (ws_row_group_target_rows spec) 1)) sorted)"
  have "concat (map rows ?cs) = concat (map rows sorted)"
    by (induction sorted) (simp_all add: slice_batch_rows[OF A])
  then have ms: "mset (concat (map rows ?cs)) = mset (concat (map rows bs))" using sort_batches_rows[OF A sp(1)] by simp
  then have len: "length (concat (map rows ?cs)) = length (concat (map rows bs))" by (metis size_mset)
  have "length (concat (map rows sorted)) = length (concat (map rows bs))" using sort_batches_rows[OF A sp(1)] by (metis size_mset)
  then have "length ?cs < 2 ^ 32" using length_chunks[OF A, of "max (ws_row_group_target_rows spec) 1" sorted]
      length_sorted[OF sp(1) False] small by linarith
  moreover have "length (concat (map rows ?cs)) < u64_bound" using small len by (simp add: u64_bound_def)
  ultimately show ?thesis using stream_loop_ok[OF A Q S loop] ms by auto
qed


end
