(* ===== verification/Iceberg_Convert.thy ===== *)
theory Iceberg_Convert
  imports Table_Model
begin

text \<open>Conversion between the table model and the data of the Iceberg crate (\<open>crates/teodb-catalog/src/convert/\<close>): primitive types,
  scalars and their decimal text, partition transforms and directories, sort orders and data files.

  The Iceberg crate's types appear as the data these functions read and write. Its operations that do work of their own are
  the fields of the parameter \<open>ice_values\<close>: checking a time of day, reading a decimal numeral, the result type,
  the application and the human-readable form of a partition transform, and the partition type of a specification.
  Narrowing casts of the source (\<open>as i8\<close>, \<open>as u64\<close>, ...) are the functions \<open>to_i\<close> and \<open>to_u\<close>.\<close>

section \<open>Data of the Iceberg crate\<close>

datatype PrimitiveType =
    P_Boolean | P_Int | P_Long | P_Float | P_Double | P_Decimal nat nat | P_Date | P_Time | P_Timestamp | P_Timestamptz
  | P_TimestampNs | P_TimestamptzNs | P_String | P_Uuid | P_Fixed nat | P_Binary

datatype PrimitiveLiteral =
    L_Boolean bool | L_Int int | L_Long int | L_Float "32 word" | L_Double "64 word" | L_String string
  | L_Binary "byte list" | L_Int128 int | L_UInt128 "128 word" | L_AboveMax | L_BelowMin

record Datum =
  dm_type :: PrimitiveType
  dm_literal :: PrimitiveLiteral

datatype IceTransform =
    T_Identity | T_Bucket nat | T_Truncate nat | T_Year | T_Month | T_Day | T_Hour | T_Void | T_Unknown

datatype IceType = Primitive PrimitiveType | NonPrimitive

record IcePartitionField =
  ipf_source_id :: int
  ipf_field_id :: int
  ipf_name :: string
  ipf_transform :: IceTransform

record IcePartitionSpec =
  ips_spec_id :: int
  ips_fields :: "IcePartitionField list"

record IceNestedField =
  inf_id :: int
  inf_name :: string
  inf_required :: bool
  inf_type :: IceType
  inf_doc :: "string option"

record IceSchema =
  isc_schema_id :: int
  isc_fields :: "IceNestedField list"
  isc_identifier_field_ids :: "int list"

datatype IceDirection = Ascending | Descending

datatype IceNullOrder = First | Last

record IceSortField =
  isf_source_id :: int
  isf_transform :: IceTransform
  isf_direction :: IceDirection
  isf_null_order :: IceNullOrder

record IceSortOrder =
  iso_order_id :: int
  iso_fields :: "IceSortField list"

datatype IceContent = C_Data | C_PositionDeletes | C_EqualityDeletes

datatype IceFormat = F_Parquet | F_Avro | F_Orc | F_Puffin

record IceDataFile =
  idf_content :: IceContent
  idf_file_path :: string
  idf_file_format :: IceFormat
  idf_partition :: "PrimitiveLiteral option list"
  idf_record_count :: nat
  idf_file_size_in_bytes :: nat
  idf_column_sizes :: "(int \<times> nat) list"
  idf_value_counts :: "(int \<times> nat) list"
  idf_null_value_counts :: "(int \<times> nat) list"
  idf_nan_value_counts :: "(int \<times> nat) list"
  idf_lower_bounds :: "(int \<times> Datum) list"
  idf_upper_bounds :: "(int \<times> Datum) list"
  idf_key_metadata :: "byte list option"
  idf_split_offsets :: "int list option"
  idf_equality_ids :: "int list option"
  idf_sort_order_id :: "int option"
  idf_partition_spec_id :: int

record ice_values =
  iv_time :: "int \<Rightarrow> string + Datum"
  iv_decimal :: "string \<Rightarrow> string + Datum"
  iv_result_type :: "IceTransform \<Rightarrow> IceType \<Rightarrow> string + IceType"
  iv_transform :: "IceTransform \<Rightarrow> Datum \<Rightarrow> string + Datum option"
  iv_human :: "IceTransform \<Rightarrow> IceType \<Rightarrow> PrimitiveLiteral option \<Rightarrow> string"
  iv_partition_type :: "IcePartitionSpec \<Rightarrow> IceSchema \<Rightarrow> string + IceType list"

section \<open>Casts and text\<close>

definition to_u :: "nat \<Rightarrow> int \<Rightarrow> nat" where
  "to_u bits v = nat (v mod 2 ^ bits)"

definition to_i :: "nat \<Rightarrow> int \<Rightarrow> int" where
  "to_i bits v = (v + 2 ^ (bits - 1)) mod 2 ^ bits - 2 ^ (bits - 1)"

definition in_i :: "nat \<Rightarrow> int \<Rightarrow> bool" where
  "in_i bits v \<longleftrightarrow> - (2 ^ (bits - 1)) \<le> v \<and> v < 2 ^ (bits - 1)"

definition int_str :: "int \<Rightarrow> string" where
  "int_str v = (if v < 0 then ''-'' else []) @ dec_str (nat \<bar>v\<bar>)"

definition pad_zeros :: "nat \<Rightarrow> string \<Rightarrow> string" where
  "pad_zeros width s = replicate (width - length s) CHR ''0'' @ s"

text \<open>Rust's division truncates towards zero. \<open>pow\<close> wraps at 128 bits.\<close>

definition trunc_div :: "int \<Rightarrow> int \<Rightarrow> int" where
  "trunc_div a b = sgn a * sgn b * (\<bar>a\<bar> div \<bar>b\<bar>)"

definition trunc_mod :: "int \<Rightarrow> int \<Rightarrow> int" where
  "trunc_mod a b = a - b * trunc_div a b"

definition format_i128_decimal :: "int \<Rightarrow> int \<Rightarrow> string" where
  "format_i128_decimal value scale =
    (if scale \<le> 0 then int_str value
     else let divisor = to_i 128 (10 ^ nat scale);
              whole = trunc_div value divisor;
              frac = nat \<bar>trunc_mod value divisor\<bar>
          in int_str whole @ ''.'' @ pad_zeros (nat scale) (dec_str frac))"

section \<open>Types and schemas\<close>

fun iceberg_primitive_to_teodb :: "PrimitiveType \<Rightarrow> TeoDataType teo_result" where
  "iceberg_primitive_to_teodb P_Boolean = Inr DBoolean"
| "iceberg_primitive_to_teodb P_Int = Inr DInt32"
| "iceberg_primitive_to_teodb P_Long = Inr DInt64"
| "iceberg_primitive_to_teodb P_Float = Inr DFloat32"
| "iceberg_primitive_to_teodb P_Double = Inr DFloat64"
| "iceberg_primitive_to_teodb P_Date = Inr DDate32"
| "iceberg_primitive_to_teodb P_Time = Inr DTime64Micros"
| "iceberg_primitive_to_teodb P_Timestamp = Inr (DTimestampMicros None)"
| "iceberg_primitive_to_teodb P_Timestamptz = Inr (DTimestampMicros (Some ''UTC''))"
| "iceberg_primitive_to_teodb P_String = Inr DUtf8"
| "iceberg_primitive_to_teodb P_Binary = Inr DBinary"
| "iceberg_primitive_to_teodb P_Uuid = Inr (DFixedSizeBinary 16)"
| "iceberg_primitive_to_teodb (P_Fixed n) = Inr (DFixedSizeBinary (to_i 32 (int n)))"
| "iceberg_primitive_to_teodb (P_Decimal precision scale) = Inr (DDecimal128 (to_u 8 (int precision)) (to_i 8 (int scale)))"
| "iceberg_primitive_to_teodb _ = Inl (InvalidArgument ''type'' ''unsupported Iceberg primitive type'')"

fun teodb_to_iceberg_primitive :: "TeoDataType \<Rightarrow> PrimitiveType teo_result" where
  "teodb_to_iceberg_primitive DBoolean = Inr P_Boolean"
| "teodb_to_iceberg_primitive DInt8 = Inr P_Int"
| "teodb_to_iceberg_primitive DInt16 = Inr P_Int"
| "teodb_to_iceberg_primitive DInt32 = Inr P_Int"
| "teodb_to_iceberg_primitive DUInt8 = Inr P_Int"
| "teodb_to_iceberg_primitive DUInt16 = Inr P_Int"
| "teodb_to_iceberg_primitive DInt64 = Inr P_Long"
| "teodb_to_iceberg_primitive DUInt32 = Inr P_Long"
| "teodb_to_iceberg_primitive DUInt64 = Inr P_Long"
| "teodb_to_iceberg_primitive DFloat32 = Inr P_Float"
| "teodb_to_iceberg_primitive DFloat64 = Inr P_Double"
| "teodb_to_iceberg_primitive DDate32 = Inr P_Date"
| "teodb_to_iceberg_primitive DTime64Micros = Inr P_Time"
| "teodb_to_iceberg_primitive (DTimestampMicros None) = Inr P_Timestamp"
| "teodb_to_iceberg_primitive (DTimestampMicros (Some _)) = Inr P_Timestamptz"
| "teodb_to_iceberg_primitive DUtf8 = Inr P_String"
| "teodb_to_iceberg_primitive DBinary = Inr P_Binary"
| "teodb_to_iceberg_primitive (DFixedSizeBinary n) = Inr (if n = 16 then P_Uuid else P_Fixed (to_u 64 n))"
| "teodb_to_iceberg_primitive (DDecimal128 precision scale) = Inr (P_Decimal (to_u 32 (int precision)) (to_u 32 scale))"

fun collect_r :: "('a \<Rightarrow> 'e + 'b) \<Rightarrow> 'a list \<Rightarrow> 'e + 'b list" where
  "collect_r f [] = Inr []"
| "collect_r f (x # xs) = bind_r (f x) (\<lambda>y. bind_r (collect_r f xs) (\<lambda>ys. Inr (y # ys)))"

definition field_data_type :: "string \<Rightarrow> IceNestedField \<Rightarrow> TeoDataType teo_result" where
  "field_data_type message f =
    (case inf_type f of Primitive p \<Rightarrow> iceberg_primitive_to_teodb p | NonPrimitive \<Rightarrow> Inl (CatalogErr message))"

definition nested_field_to_column :: "IceNestedField \<Rightarrow> ColumnMeta teo_result" where
  "nested_field_to_column f =
    bind_r (field_data_type ''unsupported non-primitive type for field'' f) (\<lambda>data_type.
    Inr \<lparr>cm_id = inf_id f, cm_name = inf_name f, cm_data_type = data_type, cm_nullable = (\<not> inf_required f),
         cm_doc = inf_doc f\<rparr>)"

definition iceberg_schema_to_teodb :: "IceSchema \<Rightarrow> SchemaDefinition teo_result" where
  "iceberg_schema_to_teodb s =
    bind_r (collect_r nested_field_to_column (isc_fields s)) (\<lambda>columns.
    Inr \<lparr>sd_schema_id = isc_schema_id s, sd_columns = columns, sd_identifier_field_ids = isc_identifier_field_ids s\<rparr>)"

definition column_to_nested_field :: "ColumnMeta \<Rightarrow> IceNestedField teo_result" where
  "column_to_nested_field c =
    bind_r (teodb_to_iceberg_primitive (cm_data_type c)) (\<lambda>prim.
    Inr \<lparr>inf_id = cm_id c, inf_name = cm_name c, inf_required = (\<not> cm_nullable c), inf_type = Primitive prim, inf_doc = None\<rparr>)"

text \<open>\<open>build\<close> of the schema builder is code of the Iceberg crate: it may refuse, and else stores what it was given.\<close>

definition teodb_schema_to_iceberg :: "(IceSchema \<Rightarrow> bool) \<Rightarrow> SchemaDefinition \<Rightarrow> IceSchema teo_result" where
  "teodb_schema_to_iceberg build_ok s =
    bind_r (collect_r column_to_nested_field (sd_columns s)) (\<lambda>fields.
    let schema = \<lparr>isc_schema_id = sd_schema_id s, isc_fields = fields, isc_identifier_field_ids = sd_identifier_field_ids s\<rparr> in
    if build_ok schema then Inr schema else Inl (CatalogErr ''failed to build iceberg Schema''))"

definition build_type_lookup_from_iceberg :: "IceSchema \<Rightarrow> (int \<times> TeoDataType) list teo_result" where
  "build_type_lookup_from_iceberg s =
    bind_r (collect_r (\<lambda>f. bind_r (field_data_type ''unsupported type for field'' f) (\<lambda>dt. Inr (inf_id f, dt))) (isc_fields s))
      (\<lambda>pairs. Inr (fold (\<lambda>(k, v). al_put k v) pairs []))"

section \<open>Scalars\<close>

definition unconvertible :: "TeoScalar teo_result" where
  "unconvertible = Inl (CatalogErr ''cannot convert iceberg literal'')"

definition primitive_literal_to_teo_scalar :: "PrimitiveLiteral \<Rightarrow> TeoDataType \<Rightarrow> TeoScalar teo_result" where
  "primitive_literal_to_teo_scalar literal dt =
    (case literal of
       L_Boolean v \<Rightarrow> (case dt of DBoolean \<Rightarrow> Inr (SBoolean v) | _ \<Rightarrow> unconvertible)
     | L_Int v \<Rightarrow>
        (case dt of
           DInt8 \<Rightarrow> Inr (SInt8 (to_i 8 v)) | DInt16 \<Rightarrow> Inr (SInt16 (to_i 16 v)) | DInt32 \<Rightarrow> Inr (SInt32 v)
         | DUInt8 \<Rightarrow> Inr (SUInt8 (to_u 8 v)) | DUInt16 \<Rightarrow> Inr (SUInt16 (to_u 16 v)) | DUInt32 \<Rightarrow> Inr (SUInt32 (to_u 32 v))
         | DDate32 \<Rightarrow> Inr (SDate32 v) | _ \<Rightarrow> unconvertible)
     | L_Long v \<Rightarrow>
        (case dt of
           DInt64 \<Rightarrow> Inr (SInt64 v) | DUInt64 \<Rightarrow> Inr (SUInt64 (to_u 64 v)) | DTime64Micros \<Rightarrow> Inr (STime64Micros v)
         | DTimestampMicros tz \<Rightarrow> Inr (STimestampMicros v tz) | _ \<Rightarrow> unconvertible)
     | L_Float v \<Rightarrow> (case dt of DFloat32 \<Rightarrow> Inr (SFloat32 v) | _ \<Rightarrow> unconvertible)
     | L_Double v \<Rightarrow> (case dt of DFloat64 \<Rightarrow> Inr (SFloat64 v) | _ \<Rightarrow> unconvertible)
     | L_String v \<Rightarrow> (case dt of DUtf8 \<Rightarrow> Inr (SUtf8 v) | _ \<Rightarrow> unconvertible)
     | L_Binary v \<Rightarrow>
        (case dt of DBinary \<Rightarrow> Inr (SBinary v) | DFixedSizeBinary n \<Rightarrow> Inr (SFixedSizeBinary v) | _ \<Rightarrow> unconvertible)
     | L_UInt128 v \<Rightarrow>
        (case dt of
           DFixedSizeBinary n \<Rightarrow>
             if n = 16 then Inr (SFixedSizeBinary (map (\<lambda>i. ucast (drop_bit (8 * i) v)) (rev [0..<16]))) else unconvertible
         | _ \<Rightarrow> unconvertible)
     | L_Int128 v \<Rightarrow> (case dt of DDecimal128 precision scale \<Rightarrow> Inr (SDecimal128 v precision scale) | _ \<Rightarrow> unconvertible)
     | L_AboveMax \<Rightarrow> Inl (CatalogErr ''cannot convert iceberg sentinel literal'')
     | L_BelowMin \<Rightarrow> Inl (CatalogErr ''cannot convert iceberg sentinel literal''))"

definition datum_to_teo_scalar :: "Datum \<Rightarrow> TeoDataType \<Rightarrow> TeoScalar teo_result" where
  "datum_to_teo_scalar d dt = primitive_literal_to_teo_scalar (dm_literal d) dt"

definition datum :: "PrimitiveType \<Rightarrow> PrimitiveLiteral \<Rightarrow> Datum" where
  "datum t l = \<lparr>dm_type = t, dm_literal = l\<rparr>"

fun teo_scalar_to_datum :: "ice_values \<Rightarrow> TeoScalar \<Rightarrow> Datum teo_result" where
  "teo_scalar_to_datum I SNull = Inl (InvalidArgument ''scalar'' ''cannot convert Null TeoScalar to Datum'')"
| "teo_scalar_to_datum I (SBoolean v) = Inr (datum P_Boolean (L_Boolean v))"
| "teo_scalar_to_datum I (SInt8 v) = Inr (datum P_Int (L_Int v))"
| "teo_scalar_to_datum I (SInt16 v) = Inr (datum P_Int (L_Int v))"
| "teo_scalar_to_datum I (SInt32 v) = Inr (datum P_Int (L_Int v))"
| "teo_scalar_to_datum I (SUInt8 v) = Inr (datum P_Int (L_Int (int v)))"
| "teo_scalar_to_datum I (SUInt16 v) = Inr (datum P_Int (L_Int (int v)))"
| "teo_scalar_to_datum I (SUInt32 v) = Inr (datum P_Long (L_Long (int v)))"
| "teo_scalar_to_datum I (SInt64 v) = Inr (datum P_Long (L_Long v))"
| "teo_scalar_to_datum I (SUInt64 v) = Inr (datum P_Long (L_Long (to_i 64 (int v))))"
| "teo_scalar_to_datum I (SFloat32 v) = Inr (datum P_Float (L_Float v))"
| "teo_scalar_to_datum I (SFloat64 v) = Inr (datum P_Double (L_Double v))"
| "teo_scalar_to_datum I (SDate32 v) = Inr (datum P_Date (L_Int v))"
| "teo_scalar_to_datum I (STime64Micros v) = map_sum (\<lambda>e. CatalogErr (''invalid time value: '' @ e)) id (iv_time I v)"
| "teo_scalar_to_datum I (STimestampMicros v tz) =
    Inr (datum (if tz \<noteq> None then P_Timestamptz else P_Timestamp) (L_Long v))"
| "teo_scalar_to_datum I (SUtf8 v) = Inr (datum P_String (L_String v))"
| "teo_scalar_to_datum I (SBinary v) = Inr (datum P_Binary (L_Binary v))"
| "teo_scalar_to_datum I (SFixedSizeBinary v) = Inr (datum (P_Fixed (length v)) (L_Binary v))"
| "teo_scalar_to_datum I (SDecimal128 v precision scale) =
    map_sum (\<lambda>e. CatalogErr (''decimal conversion error: '' @ e)) id (iv_decimal I (format_i128_decimal v scale))"

fun convert_teo_scalar_bounds :: "ice_values \<Rightarrow> (int \<times> TeoScalar) list \<Rightarrow> (int \<times> Datum) list teo_result" where
  "convert_teo_scalar_bounds I [] = Inr []"
| "convert_teo_scalar_bounds I ((field_id, scalar) # bounds) =
    bind_r (teo_scalar_to_datum I scalar) (\<lambda>d.
    bind_r (convert_teo_scalar_bounds I bounds) (\<lambda>ds. Inr ((field_id, d) # ds)))"

fun convert_datum_bounds ::
    "(int \<times> TeoDataType) list \<Rightarrow> (int \<times> Datum) list \<Rightarrow> (int \<times> TeoScalar) list teo_result" where
  "convert_datum_bounds type_lookup [] = Inr []"
| "convert_datum_bounds type_lookup ((field_id, d) # bounds) =
    (case map_of type_lookup field_id of
       None \<Rightarrow> convert_datum_bounds type_lookup bounds
     | Some dt \<Rightarrow>
         bind_r (datum_to_teo_scalar d dt) (\<lambda>scalar.
         bind_r (convert_datum_bounds type_lookup bounds) (\<lambda>result. Inr ((field_id, scalar) # result))))"

section \<open>Partitions and sort orders\<close>

fun iceberg_transform_to_teodb :: "IceTransform \<Rightarrow> PartitionTransform teo_result" where
  "iceberg_transform_to_teodb T_Identity = Inr Identity"
| "iceberg_transform_to_teodb T_Year = Inr Year"
| "iceberg_transform_to_teodb T_Month = Inr Month"
| "iceberg_transform_to_teodb T_Day = Inr Day"
| "iceberg_transform_to_teodb T_Hour = Inr Hour"
| "iceberg_transform_to_teodb T_Void = Inr VoidTransform"
| "iceberg_transform_to_teodb (T_Bucket n) = Inr (Bucket n)"
| "iceberg_transform_to_teodb (T_Truncate w) = Inr (Truncate w)"
| "iceberg_transform_to_teodb T_Unknown = Inl (InvalidArgument ''transform'' ''unsupported partition transform'')"

fun teodb_partition_transform_to_iceberg :: "PartitionTransform \<Rightarrow> IceTransform" where
  "teodb_partition_transform_to_iceberg Identity = T_Identity"
| "teodb_partition_transform_to_iceberg Year = T_Year"
| "teodb_partition_transform_to_iceberg Month = T_Month"
| "teodb_partition_transform_to_iceberg Day = T_Day"
| "teodb_partition_transform_to_iceberg Hour = T_Hour"
| "teodb_partition_transform_to_iceberg VoidTransform = T_Void"
| "teodb_partition_transform_to_iceberg (Bucket n) = T_Bucket n"
| "teodb_partition_transform_to_iceberg (Truncate w) = T_Truncate w"

definition iceberg_partition_spec_to_teodb :: "IcePartitionSpec \<Rightarrow> PartitionSpec teo_result" where
  "iceberg_partition_spec_to_teodb spec =
    bind_r (collect_r (\<lambda>f. bind_r (iceberg_transform_to_teodb (ipf_transform f)) (\<lambda>t.
      Inr \<lparr>pf_source_id = ipf_source_id f, pf_field_id = ipf_field_id f, pf_name = ipf_name f, pf_transform = t\<rparr>))
      (ips_fields spec)) (\<lambda>fields. Inr \<lparr>sp_spec_id = ips_spec_id spec, sp_fields = fields\<rparr>)"

definition apply_partition_transform_to_scalar ::
    "ice_values \<Rightarrow> TeoScalar \<Rightarrow> TeoDataType \<Rightarrow> PartitionTransform \<Rightarrow> TeoScalar teo_result" where
  "apply_partition_transform_to_scalar I value data_type transform =
    (if is_null value then Inr SNull
     else
       let iceberg_transform = teodb_partition_transform_to_iceberg transform in
       bind_r (teodb_to_iceberg_primitive data_type) (\<lambda>source_type.
       bind_r (map_sum (\<lambda>e. CatalogErr (''invalid partition transform: '' @ e)) id
           (iv_result_type I iceberg_transform (Primitive source_type))) (\<lambda>result_type.
       case result_type of
         NonPrimitive \<Rightarrow> Inl (CatalogErr ''partition transform returned non-primitive type'')
       | Primitive result_primitive \<Rightarrow>
           bind_r (iceberg_primitive_to_teodb result_primitive) (\<lambda>result_type.
           bind_r (teo_scalar_to_datum I value) (\<lambda>d.
           bind_r (map_sum (\<lambda>e. CatalogErr (''failed to apply partition transform: '' @ e)) id
               (iv_transform I iceberg_transform d)) (\<lambda>transformed.
           case transformed of Some d \<Rightarrow> datum_to_teo_scalar d result_type | None \<Rightarrow> Inr SNull))))))"

definition hex_char :: "nat \<Rightarrow> char" where
  "hex_char d = (if d < 10 then digit_char d else char_of (55 + d))"

definition url_plain :: "char \<Rightarrow> bool" where
  "url_plain c \<longleftrightarrow> (let n = of_char c :: nat in 65 \<le> n \<and> n \<le> 90 \<or> 97 \<le> n \<and> n \<le> 122 \<or> 48 \<le> n \<and> n \<le> 57) \<or>
     c = CHR ''-'' \<or> c = CHR ''_'' \<or> c = CHR ''.'' \<or> c = CHR ''*''"

definition url_encode_byte :: "char \<Rightarrow> string" where
  "url_encode_byte c =
    (if url_plain c then [c]
     else if c = CHR '' '' then ''+''
     else [CHR ''%'', hex_char (of_char c div 16), hex_char (of_char c mod 16)])"

definition iceberg_url_encode :: "string \<Rightarrow> string" where
  "iceberg_url_encode value = concat (map url_encode_byte value)"

definition partition_human ::
    "ice_values \<Rightarrow> SchemaDefinition \<Rightarrow> (int \<times> TeoScalar) list \<Rightarrow> PartitionField \<Rightarrow> string teo_result" where
  "partition_human I schema values field =
    bind_r (ok_or (find (\<lambda>c. cm_id c = pf_source_id field) (sd_columns schema))
      (InvalidArgument ''partition_spec'' ''partition field references missing source field'')) (\<lambda>source.
    bind_r (ok_or (map_of values (pf_field_id field))
      (InvalidArgument ''partition_values'' ''partition value for field is missing'')) (\<lambda>value.
    let transform = teodb_partition_transform_to_iceberg (pf_transform field) in
    bind_r (teodb_to_iceberg_primitive (cm_data_type source)) (\<lambda>source_type.
    bind_r (map_sum (\<lambda>e. CatalogErr (''invalid partition transform: '' @ e)) id
        (iv_result_type I transform (Primitive source_type))) (\<lambda>result_type.
    bind_r (if value = SNull then Inr None
            else bind_r (teo_scalar_to_datum I value) (\<lambda>d. Inr (Some (dm_literal d)))) (\<lambda>literal.
    Inr (iv_human I transform result_type literal))))))"

definition iceberg_partition_path ::
    "ice_values \<Rightarrow> SchemaDefinition \<Rightarrow> PartitionSpec \<Rightarrow> (int \<times> TeoScalar) list \<Rightarrow> string teo_result" where
  "iceberg_partition_path I schema spec values =
    bind_r (collect_r (\<lambda>field. bind_r (partition_human I schema values field) (\<lambda>human.
      Inr (iceberg_url_encode (pf_name field) @ ''='' @ iceberg_url_encode human))) (sp_fields spec)) (\<lambda>components.
    Inr (join_with (CHR ''/'') components))"

definition iceberg_sort_order_to_teodb :: "IceSortOrder \<Rightarrow> SortOrder teo_result" where
  "iceberg_sort_order_to_teodb order =
    bind_r (collect_r (\<lambda>f. bind_r (iceberg_transform_to_teodb (isf_transform f)) (\<lambda>t.
      Inr \<lparr>sf_source_id = isf_source_id f, sf_transform = t,
           sf_direction = (case isf_direction f of Ascending \<Rightarrow> Asc | Descending \<Rightarrow> Desc),
           sf_null_order = (case isf_null_order f of First \<Rightarrow> NullsFirst | Last \<Rightarrow> NullsLast)\<rparr>)) (iso_fields order))
      (\<lambda>fields. Inr \<lparr>so_order_id = to_i 32 (iso_order_id order), so_fields = fields\<rparr>)"

definition teodb_sort_order_to_iceberg :: "SortOrder \<Rightarrow> IceSortOrder" where
  "teodb_sort_order_to_iceberg order =
    \<lparr>iso_order_id = so_order_id order, iso_fields = map (\<lambda>f. \<lparr>isf_source_id = sf_source_id f,
       isf_transform = teodb_partition_transform_to_iceberg (sf_transform f),
       isf_direction = (case sf_direction f of Asc \<Rightarrow> Ascending | Desc \<Rightarrow> Descending),
       isf_null_order = (case sf_null_order f of NullsFirst \<Rightarrow> First | NullsLast \<Rightarrow> Last)\<rparr>) (so_fields order)\<rparr>"

section \<open>Data files\<close>

fun iceberg_content :: "DataContent \<Rightarrow> IceContent" where
  "iceberg_content Data = C_Data"
| "iceberg_content PositionDelete = C_PositionDeletes"
| "iceberg_content EqualityDelete = C_EqualityDeletes"

fun teodb_content :: "IceContent \<Rightarrow> DataContent" where
  "teodb_content C_Data = Data"
| "teodb_content C_PositionDeletes = PositionDelete"
| "teodb_content C_EqualityDeletes = EqualityDelete"

definition teodb_partition_values_to_iceberg ::
    "ice_values \<Rightarrow> (int \<times> TeoScalar) list \<Rightarrow> IcePartitionSpec \<Rightarrow> PrimitiveLiteral option list teo_result" where
  "teodb_partition_values_to_iceberg I values spec =
    collect_r (\<lambda>field. case map_of values (ipf_field_id field) of
        None \<Rightarrow> Inr None
      | Some value \<Rightarrow>
          if is_null value then Inr None
          else bind_r (teo_scalar_to_datum I value) (\<lambda>d. Inr (Some (dm_literal d)))) (ips_fields spec)"

text \<open>\<open>build\<close> fails only when a required field was not set; all of them are set here.\<close>

definition teodb_data_file_to_iceberg :: "ice_values \<Rightarrow> DataFile \<Rightarrow> IcePartitionSpec \<Rightarrow> IceDataFile teo_result" where
  "teodb_data_file_to_iceberg I df spec =
    bind_r (convert_teo_scalar_bounds I (df_lower_bounds df)) (\<lambda>lower_bounds.
    bind_r (convert_teo_scalar_bounds I (df_upper_bounds df)) (\<lambda>upper_bounds.
    bind_r (teodb_partition_values_to_iceberg I (df_partition_values df) spec) (\<lambda>partition.
    Inr \<lparr>idf_content = iceberg_content (df_content df), idf_file_path = to_uri (df_path df), idf_file_format = F_Parquet,
         idf_partition = partition, idf_record_count = df_record_count df, idf_file_size_in_bytes = df_file_size_bytes df,
         idf_column_sizes = df_column_sizes df, idf_value_counts = df_value_counts df,
         idf_null_value_counts = df_null_value_counts df, idf_nan_value_counts = df_nan_value_counts df,
         idf_lower_bounds = lower_bounds, idf_upper_bounds = upper_bounds, idf_key_metadata = df_key_metadata df,
         idf_split_offsets = (if df_split_offsets df = [] then None else Some (df_split_offsets df)),
         idf_equality_ids = (if df_equality_ids df = [] then None else Some (df_equality_ids df)),
         idf_sort_order_id = df_sort_order_id df, idf_partition_spec_id = df_partition_spec_id df\<rparr>)))"

definition iceberg_location_to_teodb :: "string \<Rightarrow> ObjectLocation teo_result" where
  "iceberg_location_to_teodb location =
    map_sum (\<lambda>e. CatalogErr ''invalid location'') id
      (parse_location (if find_sub ''://'' location \<noteq> None then location else ''file://'' @ location))"

definition literal_to_teo_scalar :: "PrimitiveLiteral \<Rightarrow> IceType \<Rightarrow> TeoScalar teo_result" where
  "literal_to_teo_scalar literal field_type =
    (case field_type of
       NonPrimitive \<Rightarrow> Inl (CatalogErr ''unsupported non-primitive partition field type'')
     | Primitive p \<Rightarrow> bind_r (iceberg_primitive_to_teodb p) (primitive_literal_to_teo_scalar literal))"

fun convert_partition_values ::
    "IcePartitionField list \<Rightarrow> IceType list \<Rightarrow> PrimitiveLiteral option list \<Rightarrow> (int \<times> TeoScalar) list
      \<Rightarrow> (int \<times> TeoScalar) list teo_result" where
  "convert_partition_values (f # fs) (t # ts) (None # ls) converted =
    convert_partition_values fs ts ls (al_put (ipf_field_id f) SNull converted)"
| "convert_partition_values (f # fs) (t # ts) (Some l # ls) converted =
    bind_r (literal_to_teo_scalar l t) (\<lambda>scalar.
      convert_partition_values fs ts ls (al_put (ipf_field_id f) scalar converted))"
| "convert_partition_values _ _ _ converted = Inr converted"

definition iceberg_partition_values_to_teodb ::
    "ice_values \<Rightarrow> PrimitiveLiteral option list \<Rightarrow> IcePartitionSpec \<Rightarrow> IceSchema \<Rightarrow> (int \<times> TeoScalar) list teo_result" where
  "iceberg_partition_values_to_teodb I values spec schema =
    (if ips_fields spec = [] then Inr []
     else
       bind_r (map_sum (\<lambda>e. CatalogErr (''failed to derive Iceberg partition type: '' @ e)) id
         (iv_partition_type I spec schema)) (\<lambda>types.
       if length types \<noteq> length (ips_fields spec) \<or> length values \<noteq> length (ips_fields spec)
       then Inl (CatalogErr ''partition tuple shape mismatch'')
       else convert_partition_values (ips_fields spec) types values []))"

definition iceberg_data_file_to_teodb ::
    "ice_values \<Rightarrow> IceDataFile \<Rightarrow> int \<Rightarrow> (int \<times> TeoDataType) list \<Rightarrow> int \<Rightarrow> IcePartitionSpec \<Rightarrow> IceSchema \<Rightarrow> DataFile teo_result" where
  "iceberg_data_file_to_teodb I df schema_id type_lookup partition_spec_id spec schema =
    (if idf_file_format df \<noteq> F_Parquet then Inl (CatalogErr ''unsupported file format'')
     else
       bind_r (iceberg_location_to_teodb (idf_file_path df)) (\<lambda>path.
       bind_r (convert_datum_bounds type_lookup (idf_lower_bounds df)) (\<lambda>lower_bounds.
       bind_r (convert_datum_bounds type_lookup (idf_upper_bounds df)) (\<lambda>upper_bounds.
       bind_r (iceberg_partition_values_to_teodb I (idf_partition df) spec schema) (\<lambda>partition_values.
       Inr \<lparr>df_content = teodb_content (idf_content df), df_path = path, df_format = Parquet,
            df_partition_spec_id = partition_spec_id, df_sort_order_id = idf_sort_order_id df, df_schema_id = schema_id,
            df_partition_values = partition_values, df_record_count = idf_record_count df,
            df_file_size_bytes = idf_file_size_in_bytes df, df_column_sizes = idf_column_sizes df,
            df_value_counts = idf_value_counts df, df_null_value_counts = idf_null_value_counts df,
            df_nan_value_counts = idf_nan_value_counts df, df_lower_bounds = lower_bounds, df_upper_bounds = upper_bounds,
            df_split_offsets = (case idf_split_offsets df of None \<Rightarrow> [] | Some s \<Rightarrow> s),
            df_equality_ids = (case idf_equality_ids df of None \<Rightarrow> [] | Some s \<Rightarrow> s),
            df_key_metadata = idf_key_metadata df\<rparr>)))))"

section \<open>Table metadata\<close>

datatype IceOperation = Op_Append | Op_Overwrite | Op_Replace | Op_Delete

record IceSnapshotData =
  isd_snapshot_id :: snapshot_id
  isd_parent_snapshot_id :: "snapshot_id option"
  isd_sequence_number :: int
  isd_timestamp_ms :: int
  isd_operation :: IceOperation
  isd_additional_properties :: props

record IceTableMetadata =
  itm_uuid :: uuid
  itm_location :: string
  itm_schemas :: "IceSchema list"
  itm_current_schema_id :: int
  itm_partition_specs :: "IcePartitionSpec list"
  itm_default_partition_spec_id :: int
  itm_sort_orders :: "IceSortOrder list"
  itm_default_sort_order_id :: int
  itm_snapshots :: "IceSnapshotData list"
  itm_current_snapshot_id :: "snapshot_id option"
  itm_properties :: props

definition itm_current_snapshot :: "IceTableMetadata \<Rightarrow> IceSnapshotData option" where
  "itm_current_snapshot m =
    (case itm_current_snapshot_id m of None \<Rightarrow> None | Some i \<Rightarrow> find (\<lambda>s. isd_snapshot_id s = i) (itm_snapshots m))"

fun teodb_operation :: "IceOperation \<Rightarrow> SnapshotOperation" where
  "teodb_operation Op_Append = OpAppend"
| "teodb_operation Op_Overwrite = OpOverwrite"
| "teodb_operation Op_Replace = OpReplace"
| "teodb_operation Op_Delete = OpDelete"

definition iceberg_snapshot_to_teodb :: "IceSnapshotData \<Rightarrow> DataFile list \<Rightarrow> DataFile list \<Rightarrow> Snapshot" where
  "iceberg_snapshot_to_teodb s data_files delete_files =
    \<lparr>sn_snapshot_id = isd_snapshot_id s, sn_parent_snapshot_id = isd_parent_snapshot_id s,
     sn_sequence_number = isd_sequence_number s, sn_timestamp_ms = isd_timestamp_ms s,
     sn_operation = teodb_operation (isd_operation s), sn_data_files = data_files, sn_delete_files = delete_files,
     sn_summary = isd_additional_properties s\<rparr>"

definition iceberg_to_teo_metadata ::
    "TableIdent \<Rightarrow> IceTableMetadata \<Rightarrow> DataFile list \<Rightarrow> DataFile list \<Rightarrow> TableMetadata teo_result" where
  "iceberg_to_teo_metadata ident meta data_files delete_files =
    bind_r (collect_r iceberg_schema_to_teodb (itm_schemas meta)) (\<lambda>schemas.
    bind_r (collect_r iceberg_partition_spec_to_teodb (itm_partition_specs meta)) (\<lambda>partition_specs.
    bind_r (collect_r iceberg_sort_order_to_teodb (itm_sort_orders meta)) (\<lambda>sort_orders.
    bind_r (iceberg_location_to_teodb (itm_location meta)) (\<lambda>location.
    if \<not> in_i 32 (itm_default_sort_order_id meta) then Inl (CatalogErr ''Iceberg sort order id exceeds i32'')
    else Inr \<lparr>tm_table_uuid = itm_uuid meta, tm_namespace = ti_namespace ident, tm_table_name = ti_name ident,
         tm_table_location = location, tm_current_snapshot_id = itm_current_snapshot_id meta,
         tm_current_schema_id = itm_current_schema_id meta,
         tm_current_partition_spec_id = itm_default_partition_spec_id meta,
         tm_current_sort_order_id = itm_default_sort_order_id meta, tm_schemas = schemas,
         tm_partition_specs = partition_specs, tm_sort_orders = sort_orders,
         tm_snapshots = map (\<lambda>s. iceberg_snapshot_to_teodb s [] []) (itm_snapshots meta),
         tm_current_snapshot = map_option (\<lambda>s. iceberg_snapshot_to_teodb s data_files delete_files) (itm_current_snapshot meta),
         tm_properties = itm_properties meta\<rparr>))))"

record LoadedIcebergDataFile =
  lf_file :: IceDataFile
  lf_schema_id :: int
  lf_schema :: IceSchema
  lf_partition_spec_id :: int
  lf_partition_spec :: IcePartitionSpec

definition iceberg_data_files_to_teodb :: "ice_values \<Rightarrow> LoadedIcebergDataFile list \<Rightarrow> DataFile list teo_result" where
  "iceberg_data_files_to_teodb I files =
    collect_r (\<lambda>loaded. bind_r (build_type_lookup_from_iceberg (lf_schema loaded)) (\<lambda>type_lookup.
      iceberg_data_file_to_teodb I (lf_file loaded) (lf_schema_id loaded) type_lookup (lf_partition_spec_id loaded)
        (lf_partition_spec loaded) (lf_schema loaded))) files"

section \<open>Lemmas\<close>

subsection \<open>Collecting results\<close>

lemma collect_r_map: "(\<And>x. x \<in> set xs \<Longrightarrow> f x = Inr (g x)) \<Longrightarrow> collect_r f xs = Inr (map g xs)"
  by (induction xs) auto

lemma collect_r_Inr: "collect_r f xs = Inr ys \<longleftrightarrow> list_all2 (\<lambda>x y. f x = Inr y) xs ys"
  by (induction xs arbitrary: ys) (auto simp: list_all2_Cons1)

subsection \<open>Casts\<close>

lemma to_i_id: "0 < bits \<Longrightarrow> in_i bits v \<Longrightarrow> to_i bits v = v"
  by (cases bits) (auto simp: to_i_def in_i_def)

lemma to_i_to_u:
  assumes "0 < b" "b \<le> c" "in_i b v"
  shows "to_i b (int (to_u c v)) = v"
proof -
  have "(2 :: int) ^ b dvd 2 ^ c" using assms(2) by (rule le_imp_power_dvd)
  then have "(v mod 2 ^ c + 2 ^ (b - 1)) mod 2 ^ b = (v + 2 ^ (b - 1)) mod 2 ^ b"
    by (metis mod_add_left_eq mod_mod_cancel)
  then show ?thesis using to_i_id[OF assms(1,3)] by (simp add: to_i_def to_u_def)
qed

lemma to_u_id: "int v < 2 ^ b \<Longrightarrow> to_u b (int v) = v"
  by (simp add: to_u_def)

text \<open>The type of a column, and the value of a scalar, after a round trip through the lake: Iceberg has two integer types.\<close>

fun lake_type :: "TeoDataType \<Rightarrow> TeoDataType" where
  "lake_type DInt8 = DInt32" | "lake_type DInt16 = DInt32" | "lake_type DUInt8 = DInt32" | "lake_type DUInt16 = DInt32"
| "lake_type DUInt32 = DInt64" | "lake_type DUInt64 = DInt64"
| "lake_type (DTimestampMicros tz) = DTimestampMicros (map_option (\<lambda>_. ''UTC'') tz)"
| "lake_type t = t"

fun type_wf :: "TeoDataType \<Rightarrow> bool" where
  "type_wf (DFixedSizeBinary n) = in_i 32 n"
| "type_wf (DDecimal128 precision scale) = (precision < 256 \<and> in_i 8 scale)"
| "type_wf _ = True"

lemma type_through_lake:
  "type_wf dt \<Longrightarrow> bind_r (teodb_to_iceberg_primitive dt) iceberg_primitive_to_teodb = Inr (lake_type dt)"
proof (cases dt)
  case (DTimestampMicros tz)
  then show ?thesis by (cases tz) simp_all
next
  case (DDecimal128 p s)
  assume "type_wf dt"
  then show ?thesis using DDecimal128 by (simp add: to_i_to_u to_u_id[where b = 32] to_u_id[where b = 8])
next
  case (DFixedSizeBinary n)
  assume "type_wf dt"
  then show ?thesis using DFixedSizeBinary by (simp add: to_i_to_u)
qed simp_all

fun lake_scalar :: "TeoScalar \<Rightarrow> TeoScalar" where
  "lake_scalar (SInt8 v) = SInt32 v" | "lake_scalar (SInt16 v) = SInt32 v" | "lake_scalar (SUInt8 v) = SInt32 (int v)"
| "lake_scalar (SUInt16 v) = SInt32 (int v)" | "lake_scalar (SUInt32 v) = SInt64 (int v)"
| "lake_scalar (SUInt64 v) = SInt64 (int v)"
| "lake_scalar (STimestampMicros v tz) = STimestampMicros v (map_option (\<lambda>_. ''UTC'') tz)"
| "lake_scalar s = s"

fun has_type :: "TeoScalar \<Rightarrow> TeoDataType \<Rightarrow> bool" where
  "has_type (SBoolean _) t = (t = DBoolean)"
| "has_type (SInt8 _) t = (t = DInt8)" | "has_type (SInt16 _) t = (t = DInt16)"
| "has_type (SInt32 _) t = (t = DInt32)" | "has_type (SInt64 _) t = (t = DInt64)"
| "has_type (SUInt8 _) t = (t = DUInt8)" | "has_type (SUInt16 _) t = (t = DUInt16)"
| "has_type (SUInt32 _) t = (t = DUInt32)" | "has_type (SUInt64 _) t = (t = DUInt64)"
| "has_type (SFloat32 _) t = (t = DFloat32)" | "has_type (SFloat64 _) t = (t = DFloat64)"
| "has_type (SDecimal128 _ p s) t = (t = DDecimal128 p s)"
| "has_type (SDate32 _) t = (t = DDate32)" | "has_type (STimestampMicros _ tz) t = (t = DTimestampMicros tz)"
| "has_type (STime64Micros _) t = (t = DTime64Micros)" | "has_type (SUtf8 _) t = (t = DUtf8)"
| "has_type (SBinary _) t = (t = DBinary)"
| "has_type (SFixedSizeBinary b) t = (t = DFixedSizeBinary (int (length b)))"
| "has_type SNull t = False"

text \<open>The values that Iceberg's types can carry as they are written: a decimal whose text keeps its sign (not negative with a
  zero whole part), and an unsigned 64-bit integer that fits into a signed one.\<close>

fun value_kept :: "TeoScalar \<Rightarrow> bool" where
  "value_kept (SDecimal128 v p s) = (s \<le> 38 \<and> (s \<le> 0 \<or> 0 \<le> v \<or> 10 ^ nat s \<le> \<bar>v\<bar>))"
| "value_kept (SUInt64 v) = (v < 2 ^ 63)"
| "value_kept _ = True"

text \<open>The Iceberg crate keeps a valid time of day, and reads a decimal numeral as the integer of its digits.\<close>

definition values_documented :: "ice_values \<Rightarrow> bool" where
  "values_documented I \<longleftrightarrow> (\<forall>v d. iv_time I v = Inr d \<longrightarrow> dm_literal d = L_Long v) \<and>
    (\<forall>neg whole frac d. whole \<noteq> [] \<longrightarrow> list_all is_digit whole \<longrightarrow> list_all is_digit frac \<longrightarrow>
      iv_decimal I ((if neg then ''-'' else []) @ whole @ (if frac = [] then [] else ''.'' @ frac)) = Inr d \<longrightarrow>
      dm_literal d = L_Int128 ((if neg then -1 else 1) * int (dec_val (whole @ frac))))"

subsection \<open>Decimal text\<close>

lemma dec_val_Nil [simp]: "dec_val [] = 0"
  by (simp add: dec_val_def)

lemma dec_val_append: "dec_val (s @ t) = dec_val s * 10 ^ length t + dec_val t"
  by (induction s) (simp_all add: dec_val_Cons algebra_simps power_add)

lemma dec_val_zeros [simp]: "dec_val (replicate n CHR ''0'' @ s) = dec_val s"
  by (induction n) (simp_all add: dec_val_Cons digit_val_def)

lemma length_dec_str: "n < 10 ^ k \<Longrightarrow> 0 < k \<Longrightarrow> length (dec_str n) \<le> k"
proof (induction n arbitrary: k rule: dec_str.induct)
  case (1 n)
  show ?case
  proof (cases "n < 10")
    case True
    then show ?thesis using 1(3) by (subst dec_str.simps) simp
  next
    case False
    then have "1 < k" using 1(2,3) by (cases k; cases "k - 1") auto
    moreover from this have "n div 10 < 10 ^ (k - 1)" using 1(2) by (cases k) (auto simp: less_mult_imp_div_less mult.commute)
    ultimately have "length (dec_str (n div 10)) \<le> k - 1" using 1(1)[OF False] by simp
    then show ?thesis using False \<open>1 < k\<close> by (subst dec_str.simps) simp
  qed
qed

lemma dec_val_pad [simp]: "dec_val (pad_zeros w s) = dec_val s"
  by (simp add: pad_zeros_def)

lemma length_pad: "length s \<le> w \<Longrightarrow> length (pad_zeros w s) = w"
  by (simp add: pad_zeros_def)

lemma digits_pad [simp]: "list_all is_digit (pad_zeros w s) \<longleftrightarrow> list_all is_digit s"
  by (auto simp: pad_zeros_def list_all_iff is_digit_def)

lemma pow10_i128:
  assumes "0 < scale" "scale \<le> 38"
  shows "to_i 128 (10 ^ nat scale) = 10 ^ nat scale"
proof (rule to_i_id)
  have "(10 :: int) ^ nat scale \<le> 10 ^ 38" by (rule power_increasing) (use assms in auto)
  also have "\<dots> < 2 ^ 127" by simp
  finally have "(10 :: int) ^ nat scale < 2 ^ 127" .
  moreover have "- (2 ^ 127) \<le> (10 :: int) ^ nat scale" by (rule order.trans[of _ 0]) simp_all
  ultimately show "in_i 128 (10 ^ nat scale)" unfolding in_i_def by simp
qed simp

lemma format_parts:
  assumes "0 < scale" "scale \<le> 38"
  shows "format_i128_decimal v scale =
    (if v \<le> - (10 ^ nat scale) then ''-'' else []) @ dec_str (nat \<bar>v\<bar> div 10 ^ nat scale) @ ''.'' @
      pad_zeros (nat scale) (dec_str (nat \<bar>v\<bar> mod 10 ^ nat scale))"
proof -
  let ?d = "10 ^ nat scale :: int"
  have d: "0 < ?d" "sgn ?d = 1" "\<bar>?d\<bar> = ?d" by simp_all
  have w: "trunc_div v ?d = sgn v * (\<bar>v\<bar> div ?d)" by (simp add: trunc_div_def)
  have neg: "trunc_div v ?d < 0 \<longleftrightarrow> v \<le> - ?d"
  proof (cases "v < 0")
    case True
    have "0 < \<bar>v\<bar> div ?d \<longleftrightarrow> ?d \<le> \<bar>v\<bar>" using d(1) by (rule pos_imp_zdiv_pos_iff)
    then show ?thesis using True by (simp add: w sgn_if) linarith
  next
    case False
    then have "0 \<le> trunc_div v ?d" by (simp add: w sgn_if pos_imp_zdiv_nonneg_iff)
    moreover have "\<not> v \<le> - ?d" using False d(1) by linarith
    ultimately show ?thesis by linarith
  qed
  have "\<bar>sgn v * (\<bar>v\<bar> div ?d)\<bar> = \<bar>v\<bar> div ?d"
    by (cases "v = 0") (simp_all add: abs_mult pos_imp_zdiv_nonneg_iff sgn_if)
  then have whole: "nat \<bar>trunc_div v ?d\<bar> = nat \<bar>v\<bar> div 10 ^ nat scale"
    by (simp add: w nat_div_distrib nat_power_eq)
  have "trunc_mod v ?d = sgn v * (\<bar>v\<bar> mod ?d)"
  proof -
    have "v - ?d * (sgn v * (\<bar>v\<bar> div ?d)) = sgn v * (\<bar>v\<bar> - ?d * (\<bar>v\<bar> div ?d))"
      by (cases v "0 :: int" rule: linorder_cases) simp_all
    then show ?thesis unfolding trunc_mod_def w by (simp only: minus_mult_div_eq_mod)
  qed
  then have "\<bar>trunc_mod v ?d\<bar> = \<bar>v\<bar> mod ?d" by (cases "v = 0") (simp_all add: abs_mult sgn_if)
  then have frac: "nat \<bar>trunc_mod v ?d\<bar> = nat \<bar>v\<bar> mod 10 ^ nat scale" by (simp add: nat_mod_distrib nat_power_eq)
  show ?thesis using assms(1)
    by (simp add: format_i128_decimal_def pow10_i128[OF assms] Let_def int_str_def neg whole frac)
qed

lemma decimal_text:
  assumes doc: "values_documented I" and s: "s \<le> 38" "s \<le> 0 \<or> 0 \<le> v \<or> 10 ^ nat s \<le> \<bar>v\<bar>"
    and d: "iv_decimal I (format_i128_decimal v s) = Inr d"
  shows "dm_literal d = L_Int128 v"
proof -
  note D = conjunct2[OF doc[unfolded values_documented_def], rule_format]
  show ?thesis
  proof (cases "s \<le> 0")
    case True
    then have t: "format_i128_decimal v s = (if v < 0 then ''-'' else []) @ dec_str (nat \<bar>v\<bar>) @ (if ([] :: string) = [] then [] else ''.'' @ [])"
      by (simp add: format_i128_decimal_def int_str_def)
    have "dm_literal d = L_Int128 ((if v < 0 then -1 else 1) * int (dec_val (dec_str (nat \<bar>v\<bar>) @ [])))"
      by (rule D) (use d t in auto)
    then show ?thesis by simp
  next
    case False
    then have s0: "0 < s" by simp
    let ?w = "dec_str (nat \<bar>v\<bar> div 10 ^ nat s)" and ?f = "pad_zeros (nat s) (dec_str (nat \<bar>v\<bar> mod 10 ^ nat s))"
    have len: "length ?f = nat s" by (rule length_pad, rule length_dec_str) (use s0 in auto)
    then have ne: "?f \<noteq> []" using s0 by auto
    have "dm_literal d = L_Int128 ((if v \<le> - (10 ^ nat s) then -1 else 1) * int (dec_val (?w @ ?f)))"
      by (rule D) (use d format_parts[OF s0 s(1), of v] ne in auto)
    moreover have "dec_val (?w @ ?f) = nat \<bar>v\<bar>" by (simp only: dec_val_append len dec_val_pad dec_val_str div_mult_mod_eq)
    moreover have "v \<le> - (10 ^ nat s) \<longleftrightarrow> v < 0"
    proof -
      have "(0 :: int) < 10 ^ nat s" by simp
      then show ?thesis using s(2) False by linarith
    qed
    ultimately show ?thesis by simp
  qed
qed

subsection \<open>Scalars\<close>

lemma to_i_small: "n < 2 ^ 63 \<Longrightarrow> to_i 64 (int n) = int n"
  by (simp add: to_i_def)

lemma to_i_wraps: "2 ^ 63 \<le> n \<Longrightarrow> n < 2 ^ 64 \<Longrightarrow> to_i 64 (int n) = int n - 2 ^ 64"
proof -
  assume n: "2 ^ 63 \<le> n" "n < 2 ^ 64"
  have "(int n + 2 ^ 63) mod 2 ^ 64 = (int n + 2 ^ 63 - 2 ^ 64) mod 2 ^ 64"
    using mod_add_self2[of "int n + 2 ^ 63 - 2 ^ 64" "2 ^ 64"] by (simp add: add.commute)
  also have "\<dots> = int n + 2 ^ 63 - 2 ^ 64" using n by (intro mod_pos_pos_trivial) simp_all
  finally show ?thesis by (simp add: to_i_def)
qed

lemma scalar_through_lake:
  assumes doc: "values_documented I" and t: "has_type s dt" and ok: "value_kept s" and d: "teo_scalar_to_datum I s = Inr d"
  shows "primitive_literal_to_teo_scalar (dm_literal d) (lake_type dt) = Inr (lake_scalar s)"
proof (cases s)
  case (SDecimal128 v p sc)
  have "iv_decimal I (format_i128_decimal v sc) = Inr d" using d SDecimal128 by (cases "iv_decimal I (format_i128_decimal v sc)") auto
  then have "dm_literal d = L_Int128 v" using ok SDecimal128 by (intro decimal_text[OF doc]) auto
  then show ?thesis using t SDecimal128 by (simp add: primitive_literal_to_teo_scalar_def)
next
  case (STime64Micros v)
  have "iv_time I v = Inr d" using d STime64Micros by (cases "iv_time I v") auto
  then have "dm_literal d = L_Long v" using doc by (auto simp: values_documented_def)
  then show ?thesis using t STime64Micros by (simp add: primitive_literal_to_teo_scalar_def)
next
  case (SUInt64 v)
  have "to_i 64 (int v) = int v" using ok SUInt64 by (simp add: to_i_small)
  then show ?thesis using t d SUInt64 by (auto simp: primitive_literal_to_teo_scalar_def datum_def)
qed (use t d in \<open>auto simp: primitive_literal_to_teo_scalar_def datum_def\<close>)

lemma lake_null: "has_type s dt \<Longrightarrow> \<not> is_null s"
  by (auto simp: is_null_def)

text \<open>A scalar that the lookup of column types can read back.\<close>

definition readable_bound :: "(int \<times> TeoDataType) list \<Rightarrow> int \<times> TeoScalar \<Rightarrow> bool" where
  "readable_bound lookup = (\<lambda>(k, s). value_kept s \<and> (\<exists>dt. has_type s dt \<and> map_of lookup k = Some (lake_type dt)))"

lemma bounds_through_lake:
  assumes doc: "values_documented I" and "list_all (readable_bound lookup) bs" "convert_teo_scalar_bounds I bs = Inr ds"
  shows "convert_datum_bounds lookup ds = Inr (map (\<lambda>(k, s). (k, lake_scalar s)) bs)"
  using assms(2,3)
proof (induction bs arbitrary: ds)
  case (Cons b bs)
  obtain k s where b: "b = (k, s)" by (cases b)
  obtain d ds' where ds: "teo_scalar_to_datum I s = Inr d" "convert_teo_scalar_bounds I bs = Inr ds'" "ds = (k, d) # ds'"
    using Cons.prems(2) b by auto
  obtain dt where dt: "has_type s dt" "map_of lookup k = Some (lake_type dt)" "value_kept s"
    using Cons.prems(1) b by (auto simp: readable_bound_def)
  from scalar_through_lake[OF doc dt(1,3) ds(1)] Cons.IH[OF _ ds(2)] Cons.prems(1) dt(2) show ?case
    by (simp add: ds(3) b datum_to_teo_scalar_def)
qed simp

subsection \<open>Partition values\<close>

definition readable_value :: "TeoScalar \<Rightarrow> IceType \<Rightarrow> bool" where
  "readable_value s t \<longleftrightarrow> s = SNull \<or> value_kept s \<and> (\<exists>dt p. has_type s dt \<and> t = Primitive p \<and>
     iceberg_primitive_to_teodb p = Inr (lake_type dt))"

lemma literal_through_lake:
  assumes "values_documented I" "readable_value s t" "teo_scalar_to_datum I s = Inr d" "\<not> is_null s"
  shows "literal_to_teo_scalar (dm_literal d) t = Inr (lake_scalar s)"
  using assms scalar_through_lake[OF assms(1) _ _ assms(3)]
  by (auto simp: readable_value_def literal_to_teo_scalar_def is_null_def)

lemma al_put_new: "k \<notin> fst ` set m \<Longrightarrow> al_put k v m = m @ [(k, v)]"
  by (induction m) auto

lemma partition_through_lake:
  assumes doc: "values_documented I" and vals: "\<And>k s. (k, s) \<in> set vs \<Longrightarrow> map_of values k = Some s"
    and "map fst vs = map ipf_field_id fs" "list_all2 readable_value (map snd vs) ts" "distinct (map fst acc @ map fst vs)"
    and "collect_r (\<lambda>field. case map_of values (ipf_field_id field) of None \<Rightarrow> Inr None
      | Some value \<Rightarrow> if is_null value then Inr None
          else bind_r (teo_scalar_to_datum I value) (\<lambda>d. Inr (Some (dm_literal d)))) fs = Inr ls"
  shows "convert_partition_values fs ts ls acc = Inr (acc @ map (\<lambda>(k, s). (k, lake_scalar s)) vs)"
  using assms(3-6) vals
proof (induction fs arbitrary: vs ts ls acc)
  case (Cons f fs)
  obtain s vs' where vs: "vs = (ipf_field_id f, s) # vs'" "map fst vs' = map ipf_field_id fs"
    using Cons.prems(1) by (cases vs) auto
  obtain t ts' where ts: "ts = t # ts'" "readable_value s t" "list_all2 readable_value (map snd vs') ts'"
    using Cons.prems(2) vs(1) by (auto simp: list_all2_Cons1)
  have m: "map_of values (ipf_field_id f) = Some s" using Cons.prems(5) vs(1) by simp
  have new: "al_put (ipf_field_id f) x acc = acc @ [(ipf_field_id f, x)]" for x
    using Cons.prems(3) vs(1) by (intro al_put_new) auto
  have IH: "convert_partition_values fs ts' ls' (acc @ [(ipf_field_id f, x)]) =
      Inr (acc @ (ipf_field_id f, x) # map (\<lambda>(k, s). (k, lake_scalar s)) vs')"
    if "collect_r (\<lambda>field. case map_of values (ipf_field_id field) of None \<Rightarrow> Inr None
      | Some value \<Rightarrow> if is_null value then Inr None
          else bind_r (teo_scalar_to_datum I value) (\<lambda>d. Inr (Some (dm_literal d)))) fs = Inr ls'" for ls' x
    using Cons.IH[OF vs(2) ts(3) _ that, of "acc @ [(ipf_field_id f, x)]"] Cons.prems(3,5) vs(1) by auto
  show ?case
  proof (cases "is_null s")
    case True
    then show ?thesis using Cons.prems(4) m IH by (auto simp: vs(1) ts(1) new is_null_def)
  next
    case False
    then obtain d ls' where "teo_scalar_to_datum I s = Inr d" "ls = Some (dm_literal d) # ls'"
      "collect_r (\<lambda>field. case map_of values (ipf_field_id field) of None \<Rightarrow> Inr None
      | Some value \<Rightarrow> if is_null value then Inr None
          else bind_r (teo_scalar_to_datum I value) (\<lambda>d. Inr (Some (dm_literal d)))) fs = Inr ls'"
      using Cons.prems(4) m by auto
    then show ?thesis using literal_through_lake[OF doc ts(2) _ False] IH by (simp add: vs(1) ts(1) new)
  qed
qed simp

subsection \<open>Locations\<close>

lemma find_sub_append: "find_sub p (a @ p @ b) \<noteq> None"
proof (induction a)
  case Nil
  then show ?case by (cases "p @ b") (simp_all, metis starts_with_append)
qed simp

lemma location_through_lake:
  assumes "location_wf l"
  shows "iceberg_location_to_teodb (to_uri l) = Inr l"
proof -
  have "find_sub ''://'' (to_uri l) \<noteq> None"
    using find_sub_append[of "''://''" "''s3''"] find_sub_append[of "''://''" "''gs''"] find_sub_append[of "''://''" "''abfs''"]
      find_sub_append[of "''://''" "''file''"]
    by (cases "ol_scheme l") (simp_all add: to_uri_def del: find_sub.simps)
  then show ?thesis using parse_to_uri[OF assms] by (simp add: iceberg_location_to_teodb_def)
qed

subsection \<open>Partition directories\<close>

lemma hex_char_inj: "a < 16 \<Longrightarrow> b < 16 \<Longrightarrow> hex_char a = hex_char b \<longleftrightarrow> a = b"
proof -
  assume "a < 16" "b < 16"
  then have "(of_char (hex_char a) :: nat) = of_char (hex_char b) \<longleftrightarrow> a = b"
    by (auto simp: hex_char_def digit_char_def split: if_splits)
  then show ?thesis by (metis of_char_eq_iff)
qed

lemma url_byte_cancel: "url_encode_byte c @ x = url_encode_byte d @ y \<Longrightarrow> c = d \<and> x = y"
proof -
  assume eq: "url_encode_byte c @ x = url_encode_byte d @ y"
  have np: "\<not> url_plain (CHR ''%'')" "\<not> url_plain (CHR ''+'')" by (simp_all add: url_plain_def)
  have lt: "(of_char e :: nat) div 16 < 16" for e :: char using nat_of_char_less_256[of e] by (simp add: less_mult_imp_div_less)
  have "(of_char c :: nat) = of_char d" if "(of_char c :: nat) div 16 = of_char d div 16" "(of_char c :: nat) mod 16 = of_char d mod 16"
    using that by (metis div_mult_mod_eq)
  then show ?thesis using eq np by (auto simp: url_encode_byte_def hex_char_inj lt split: if_splits)
qed

lemma url_encode_inj: "iceberg_url_encode a = iceberg_url_encode b \<longleftrightarrow> a = b"
proof
  show "a = b" if "iceberg_url_encode a = iceberg_url_encode b"
    using that
  proof (induction a arbitrary: b)
    case Nil
    then show ?case by (cases b) (auto simp: iceberg_url_encode_def url_encode_byte_def split: if_splits)
  next
    case (Cons c a)
    show ?case
    proof (cases b)
      case Nil
      then show ?thesis using Cons.prems by (auto simp: iceberg_url_encode_def url_encode_byte_def split: if_splits)
    next
      case (Cons d b')
      then have "c = d \<and> iceberg_url_encode a = iceberg_url_encode b'"
        using Cons.prems by (intro url_byte_cancel) (simp add: iceberg_url_encode_def)
      then show ?thesis using Cons.IH Cons by blast
    qed
  qed
qed simp

lemma hex_char_safe: "d < 16 \<Longrightarrow> hex_char d \<noteq> CHR ''/'' \<and> hex_char d \<noteq> CHR ''=''"
proof -
  assume "d < 16"
  then have "of_char (hex_char d) \<noteq> (47 :: nat) \<and> of_char (hex_char d) \<noteq> (61 :: nat)" by (auto simp: hex_char_def digit_char_def)
  then show ?thesis by auto
qed

lemma url_encode_safe: "CHR ''/'' \<notin> set (iceberg_url_encode s)" "CHR ''='' \<notin> set (iceberg_url_encode s)"
proof -
  have lt: "(of_char e :: nat) div 16 < 16" for e :: char using nat_of_char_less_256[of e] by (simp add: less_mult_imp_div_less)
  have "\<not> url_plain (CHR ''/'')" "\<not> url_plain (CHR ''='')" by (simp_all add: url_plain_def)
  then have "CHR ''/'' \<notin> set (url_encode_byte c) \<and> CHR ''='' \<notin> set (url_encode_byte c)" for c
    using hex_char_safe[OF lt[of c]] hex_char_safe[of "of_char c mod 16"] by (auto simp: url_encode_byte_def)
  then show "CHR ''/'' \<notin> set (iceberg_url_encode s)" "CHR ''='' \<notin> set (iceberg_url_encode s)"
    by (auto simp: iceberg_url_encode_def)
qed

lemma split_assign:
  assumes "CHR ''='' \<notin> set a" "CHR ''='' \<notin> set b"
  shows "a @ ''='' @ x = b @ ''='' @ y \<longleftrightarrow> a = b \<and> x = y"
  using assms by (auto simp: append_eq_append_conv2 Cons_eq_append_conv append_eq_Cons_conv)

definition path_component :: "PartitionField \<Rightarrow> string \<Rightarrow> string" where
  "path_component field human = iceberg_url_encode (pf_name field) @ ''='' @ iceberg_url_encode human"

lemma path_component_props:
  "CHR ''/'' \<notin> set (path_component f h)" "path_component f h \<noteq> []" "path_component f h \<noteq> ''..''"
  "path_component f h = path_component f h' \<longleftrightarrow> h = h'"
proof -
  show "path_component f h \<noteq> ''..''"
  proof
    assume "path_component f h = ''..''"
    then have "CHR ''='' \<in> set ''..''" by (metis path_component_def in_set_conv_decomp append_Cons append_Nil)
    then show False by simp
  qed
qed (auto simp: path_component_def url_encode_safe split_assign url_encode_inj)

lemma partition_path_parts:
  assumes "iceberg_partition_path I schema spec values = Inr path" "sp_fields spec \<noteq> []"
  shows "\<exists>hs. map (partition_human I schema values) (sp_fields spec) = map Inr hs \<and>
    split_on (CHR ''/'') path = map2 path_component (sp_fields spec) hs"
proof -
  obtain cs where cs: "list_all2 (\<lambda>field c. \<exists>h. partition_human I schema values field = Inr h \<and> path_component field h = c) (sp_fields spec) cs"
    "path = join_with (CHR ''/'') cs"
    using assms(1) by (auto simp: iceberg_partition_path_def collect_r_Inr path_component_def)
  then obtain hs where hs: "map (partition_human I schema values) (sp_fields spec) = map Inr hs" "cs = map2 path_component (sp_fields spec) hs"
  proof -
    have "\<exists>hs. map (partition_human I schema values) fs = map Inr hs \<and> cs = map2 path_component fs hs"
      if "list_all2 (\<lambda>field c. \<exists>h. partition_human I schema values field = Inr h \<and> path_component field h = c) fs cs" for fs cs
      using that
    proof (induction fs cs rule: list_all2_induct)
      case (Cons f fs c cs)
      then obtain h hs where "partition_human I schema values f = Inr h" "path_component f h = c"
        "map (partition_human I schema values) fs = map Inr hs" "cs = map2 path_component fs hs" by blast
      then show ?case by (intro exI[of _ "h # hs"]) simp
    qed simp
    then show ?thesis using cs(1) that by blast
  qed
  have "length cs = length (sp_fields spec)" using cs(1) by (simp add: list_all2_lengthD)
  then have "cs \<noteq> []" using assms(2) by auto
  moreover have "\<forall>c \<in> set cs. CHR ''/'' \<notin> set c" unfolding hs(2) by (auto simp: path_component_props set_zip)
  ultimately show ?thesis using hs split_on_join cs(2) by blast
qed

lemma components_inj:
  assumes "length hs = length fs" "length hs' = length fs"
  shows "map2 path_component fs hs = map2 path_component fs hs' \<longleftrightarrow> hs = hs'"
  using assms
proof (induction fs arbitrary: hs hs')
  case (Cons f fs)
  then show ?case by (cases hs; cases hs') (auto simp: path_component_props)
qed simp


section \<open>Properties\<close>

definition lake_file :: "DataFile \<Rightarrow> DataFile" where
  "lake_file f = f\<lparr>df_lower_bounds := map (\<lambda>(k, s). (k, lake_scalar s)) (df_lower_bounds f),
     df_upper_bounds := map (\<lambda>(k, s). (k, lake_scalar s)) (df_upper_bounds f),
     df_partition_values := map (\<lambda>(k, s). (k, lake_scalar s)) (df_partition_values f)\<rparr>"

text \<open>Property C33. A data file survives the way into a manifest and back. If the file has a normal location, its column
  bounds and partition values have the types of the schema, no decimal among them is negative with a zero
  whole part and no unsigned 64-bit integer is \<open>2\<^sup>6\<^sup>3\<close> or more, then a successful conversion to Iceberg is read back as the same file, with
  unsigned and narrow integers as the same number in one of the two integer types of Iceberg, and zones written as UTC; nothing is
  dropped and no step fails. The two exclusions are necessary: see \<open>decimal_sign_lost\<close> and \<open>uint64_order_lost\<close>.\<close>

theorem data_file_roundtrip:
  assumes "values_documented I" "location_wf (df_path f)"
    and "list_all (readable_bound lookup) (df_lower_bounds f)" "list_all (readable_bound lookup) (df_upper_bounds f)"
    and "map fst (df_partition_values f) = map ipf_field_id (ips_fields spec)" "distinct (map ipf_field_id (ips_fields spec))"
    and "iv_partition_type I spec schema = Inr types" "list_all2 readable_value (map snd (df_partition_values f)) types"
    and "teodb_data_file_to_iceberg I f spec = Inr i"
  shows "iceberg_data_file_to_teodb I i (df_schema_id f) lookup (df_partition_spec_id f) spec schema = Inr (lake_file f)"
proof -
  obtain lo up ls where conv: "convert_teo_scalar_bounds I (df_lower_bounds f) = Inr lo"
    "convert_teo_scalar_bounds I (df_upper_bounds f) = Inr up"
    "teodb_partition_values_to_iceberg I (df_partition_values f) spec = Inr ls"
    and i: "idf_content i = iceberg_content (df_content f)" "idf_file_path i = to_uri (df_path f)" "idf_file_format i = F_Parquet"
      "idf_partition i = ls" "idf_record_count i = df_record_count f" "idf_file_size_in_bytes i = df_file_size_bytes f"
      "idf_column_sizes i = df_column_sizes f" "idf_value_counts i = df_value_counts f"
      "idf_null_value_counts i = df_null_value_counts f" "idf_nan_value_counts i = df_nan_value_counts f"
      "idf_lower_bounds i = lo" "idf_upper_bounds i = up" "idf_key_metadata i = df_key_metadata f"
      "idf_split_offsets i = (if df_split_offsets f = [] then None else Some (df_split_offsets f))"
      "idf_equality_ids i = (if df_equality_ids f = [] then None else Some (df_equality_ids f))"
      "idf_sort_order_id i = df_sort_order_id f"
    using assms(9) by (auto simp: teodb_data_file_to_iceberg_def)
  have "map_of (df_partition_values f) k = Some s" if "(k, s) \<in> set (df_partition_values f)" for k s
    using that assms(5,6) by simp
  then have "convert_partition_values (ips_fields spec) types ls [] =
      Inr (map (\<lambda>(k, s). (k, lake_scalar s)) (df_partition_values f))"
    using partition_through_lake[OF assms(1) _ assms(5,8), of "df_partition_values f" "[]" ls] conv(3) assms(5,6)
    by (simp add: teodb_partition_values_to_iceberg_def)
  moreover have "length types = length (ips_fields spec)" "length ls = length (ips_fields spec)"
    using assms(8) arg_cong[OF assms(5), of length] conv(3)
    by (auto simp: teodb_partition_values_to_iceberg_def collect_r_Inr dest: list_all2_lengthD)
  ultimately have pv: "iceberg_partition_values_to_teodb I ls spec schema =
      Inr (map (\<lambda>(k, s). (k, lake_scalar s)) (df_partition_values f))"
    using assms(5,7) by (cases "ips_fields spec = []") (simp_all add: iceberg_partition_values_to_teodb_def)
  have content: "teodb_content (iceberg_content c) = c" for c by (cases c) simp_all
  have format: "df_format f = Parquet" by (cases "df_format f") simp
  show ?thesis
    using bounds_through_lake[OF assms(1,3) conv(1)] bounds_through_lake[OF assms(1,4) conv(2)]
      location_through_lake[OF assms(2)] pv
    by (simp add: iceberg_data_file_to_teodb_def i content lake_file_def format)
qed

text \<open>Property C34. Partition directories. The directory of a partition has one segment per partition field, none of
  them empty or \<open>..\<close>, whatever names and values occur; and two partitions of a table share a directory exactly when
  the Iceberg crate renders all their values to the same text.\<close>

theorem partition_path_exact:
  assumes "iceberg_partition_path I schema spec values = Inr path" "sp_fields spec \<noteq> []"
    and "iceberg_partition_path I schema spec values' = Inr path'"
  shows "length (split_on (CHR ''/'') path) = length (sp_fields spec) \<and> [] \<notin> set (split_on (CHR ''/'') path) \<and>
    ''..'' \<notin> set (split_on (CHR ''/'') path) \<and>
    (path = path' \<longleftrightarrow> map (partition_human I schema values) (sp_fields spec) = map (partition_human I schema values') (sp_fields spec))"
proof -
  obtain hs where hs: "map (partition_human I schema values) (sp_fields spec) = map Inr hs"
    "split_on (CHR ''/'') path = map2 path_component (sp_fields spec) hs" using partition_path_parts[OF assms(1,2)] by blast
  obtain hs' where hs': "map (partition_human I schema values') (sp_fields spec) = map Inr hs'"
    "split_on (CHR ''/'') path' = map2 path_component (sp_fields spec) hs'" using partition_path_parts[OF assms(3,2)] by blast
  have len: "length hs = length (sp_fields spec)" "length hs' = length (sp_fields spec)"
    using arg_cong[OF hs(1), of length] arg_cong[OF hs'(1), of length] by simp_all
  have "path = path' \<longleftrightarrow> split_on (CHR ''/'') path = split_on (CHR ''/'') path'" by (metis join_split_on)
  also have "\<dots> \<longleftrightarrow> hs = hs'" unfolding hs(2) hs'(2) by (rule components_inj[OF len])
  also have "\<dots> \<longleftrightarrow> map (partition_human I schema values) (sp_fields spec) = map (partition_human I schema values') (sp_fields spec)"
    unfolding hs(1) hs'(1) by (simp add: inj_map_eq_map inj_def)
  finally have eq: "path = path' \<longleftrightarrow> map (partition_human I schema values) (sp_fields spec) = map (partition_human I schema values') (sp_fields spec)" .
  have "c \<noteq> [] \<and> c \<noteq> ''..''" if "c \<in> set (map2 path_component (sp_fields spec) hs)" for c
    using that path_component_props(2,3) by auto
  then have "[] \<notin> set (split_on (CHR ''/'') path)" "''..'' \<notin> set (split_on (CHR ''/'') path)" unfolding hs(2) by blast+
  then show ?thesis using eq len(1) by (simp add: hs(2))
qed

text \<open>Property C35. The text of a decimal loses the sign of a negative value with a zero whole part, since the sign is
  only printed with the whole part: such a value and its opposite become the same Iceberg value.\<close>

theorem decimal_sign_lost:
  assumes "0 < scale" "scale \<le> 38" "- (10 ^ nat scale) < v" "v < 0"
  shows "teo_scalar_to_datum I (SDecimal128 v precision scale) = teo_scalar_to_datum I (SDecimal128 (- v) precision scale)"
proof -
  have "\<not> - v \<le> - (10 ^ nat scale)"
  proof -
    have "(0 :: int) < 10 ^ nat scale" by simp
    then show ?thesis using assms(4) by linarith
  qed
  then show ?thesis using assms by (simp add: format_parts)
qed

text \<open>Property C36. Large unsigned integers change sign. \<open>as i64\<close> wraps an unsigned 64-bit value of \<open>2\<^sup>6\<^sup>3\<close> or more, so that it is read
  back as a negative number: of two values on the two sides of \<open>2\<^sup>6\<^sup>3\<close> the smaller one comes back as the greater one. Column bounds
  and partition values of such columns are wrong.\<close>

theorem uint64_order_lost:
  assumes "u < 2 ^ 63" "2 ^ 63 \<le> v" "v < 2 ^ 64"
  shows "\<exists>d e. teo_scalar_to_datum I (SUInt64 u) = Inr d \<and> teo_scalar_to_datum I (SUInt64 v) = Inr e \<and>
    datum_to_teo_scalar d DInt64 = Inr (SInt64 (int u)) \<and> datum_to_teo_scalar e DInt64 = Inr (SInt64 (int v - 2 ^ 64)) \<and>
    scalar_partial_cmp (SUInt64 u) (SUInt64 v) = Some Less \<and>
    scalar_partial_cmp (SInt64 (int u)) (SInt64 (int v - 2 ^ 64)) = Some Greater"
  using assms to_i_small[OF assms(1)] to_i_wraps[OF assms(2,3)]
  by (simp add: datum_to_teo_scalar_def primitive_literal_to_teo_scalar_def datum_def scalar_partial_cmp_def cmp_def)

section \<open>Witnesses\<close>

text \<open>A reader of decimal numerals, and the identity transform.\<close>

definition demo_decimal :: "string \<Rightarrow> string + Datum" where
  "demo_decimal s =
    (let neg = starts_with s ''-''; t = (if neg then tl s else s); whole = takeWhile is_digit t; frac = tl (dropWhile is_digit t)
     in Inr (datum (P_Decimal 38 (length frac)) (L_Int128 ((if neg then -1 else 1) * int (dec_val (whole @ frac))))))"

definition demo_values :: ice_values where
  "demo_values = \<lparr>iv_time = (\<lambda>v. Inr (datum P_Time (L_Long v))), iv_decimal = demo_decimal, iv_result_type = (\<lambda>_ t. Inr t),
     iv_transform = (\<lambda>_ d. Inr (Some d)),
     iv_human = (\<lambda>_ _ l. case l of Some (L_String s) \<Rightarrow> s | _ \<Rightarrow> ''null''),
     iv_partition_type = (\<lambda>spec _. Inr (map (\<lambda>_. Primitive (P_Decimal 10 2)) (ips_fields spec)))\<rparr>"

lemma demo_decimal_text:
  assumes "whole \<noteq> []" "list_all is_digit whole" "list_all is_digit frac"
  shows "demo_decimal ((if neg then ''-'' else []) @ whole @ (if frac = [] then [] else ''.'' @ frac)) =
    Inr (datum (P_Decimal 38 (length frac)) (L_Int128 ((if neg then -1 else 1) * int (dec_val (whole @ frac)))))"
proof -
  let ?t = "whole @ (if frac = [] then [] else ''.'' @ frac)"
  have nd: "\<not> is_digit (CHR ''-'')" "\<not> is_digit (CHR ''.'')" by (simp_all add: is_digit_def)
  obtain c w where w: "whole = c # w" "is_digit c" using assms(1,2) by (cases whole) auto
  then have "c \<noteq> CHR ''-''" using nd(1) by blast
  then have "\<not> starts_with ?t ''-''" by (simp add: w(1) starts_with_def)
  moreover have "takeWhile is_digit ?t = whole" "tl (dropWhile is_digit ?t) = frac"
    using assms nd by (simp_all add: list_all_iff takeWhile_append dropWhile_append)
  ultimately show ?thesis
    unfolding demo_decimal_def Let_def by (cases neg) (simp_all add: starts_with_def[of "CHR ''-'' # x" for x])
qed

lemma demo_values_ok: "values_documented demo_values"
  unfolding values_documented_def
proof (intro conjI allI impI)
  show "dm_literal d = L_Long v" if "iv_time demo_values v = Inr d" for v d
    using that by (auto simp: demo_values_def datum_def)
next
  fix neg whole frac d
  assume a: "whole \<noteq> []" "list_all is_digit whole" "list_all is_digit frac"
    "iv_decimal demo_values ((if neg then ''-'' else []) @ whole @ (if frac = [] then [] else ''.'' @ frac)) = Inr d"
  have "iv_decimal demo_values = demo_decimal" by (simp add: demo_values_def)
  then show "dm_literal d = L_Int128 ((if neg then -1 else 1) * int (dec_val (whole @ frac)))"
    using demo_decimal_text[OF a(1-3), of neg] a(4) by (auto simp: datum_def)
qed

definition demo_lake_file :: DataFile where
  "demo_lake_file = \<lparr>df_content = Data, df_path = \<lparr>ol_scheme = S3, ol_bucket = Some ''lake'', ol_key = ''t/data/x''\<rparr>,
     df_format = Parquet, df_partition_spec_id = 1, df_sort_order_id = None, df_schema_id = 0,
     df_partition_values = [(1000, SDecimal128 (-125) 10 2)], df_record_count = 3, df_file_size_bytes = 9,
     df_column_sizes = [(1, 9)], df_value_counts = [], df_null_value_counts = [], df_nan_value_counts = [],
     df_lower_bounds = [(1, SInt8 (-4))], df_upper_bounds = [(1, SInt8 7)], df_split_offsets = [4], df_equality_ids = [],
     df_key_metadata = None\<rparr>"

definition demo_lake_spec :: IcePartitionSpec where
  "demo_lake_spec = \<lparr>ips_spec_id = 1, ips_fields = [\<lparr>ipf_source_id = 2, ipf_field_id = 1000, ipf_name = ''amount'',
     ipf_transform = T_Identity\<rparr>]\<rparr>"

theorem data_file_roundtrip_witness:
  "\<exists>i. teodb_data_file_to_iceberg demo_values demo_lake_file demo_lake_spec = Inr i \<and>
    iceberg_data_file_to_teodb demo_values i 0 [(1, DInt32)] 1 demo_lake_spec
      \<lparr>isc_schema_id = 0, isc_fields = [], isc_identifier_field_ids = []\<rparr> = Inr (lake_file demo_lake_file)"
proof -
  have conv: "is_ok (teodb_data_file_to_iceberg demo_values demo_lake_file demo_lake_spec)" by code_simp
  then obtain i where i: "teodb_data_file_to_iceberg demo_values demo_lake_file demo_lake_spec = Inr i"
    by (auto simp: is_ok_iff)
  have wf: "location_wf (df_path demo_lake_file)" by code_simp
  have "iceberg_data_file_to_teodb demo_values i (df_schema_id demo_lake_file) [(1, DInt32)] (df_partition_spec_id demo_lake_file)
      demo_lake_spec \<lparr>isc_schema_id = 0, isc_fields = [], isc_identifier_field_ids = []\<rparr> = Inr (lake_file demo_lake_file)"
  proof (rule data_file_roundtrip[OF demo_values_ok wf _ _ _ _ _ _ i, where types = "[Primitive (P_Decimal 10 2)]"])
    show "list_all2 readable_value (map snd (df_partition_values demo_lake_file)) [Primitive (P_Decimal 10 2)]"
      by (simp add: demo_lake_file_def readable_value_def to_u_def to_i_def)
  qed (auto simp: demo_lake_file_def demo_lake_spec_def demo_values_def readable_bound_def intro!: exI[of _ DInt8])
  then show ?thesis using i by (auto simp: demo_lake_file_def)
qed

definition demo_path_spec :: PartitionSpec where
  "demo_path_spec = \<lparr>sp_spec_id = 1, sp_fields = [\<lparr>pf_source_id = 1, pf_field_id = 1000, pf_name = ''region'', pf_transform = Identity\<rparr>]\<rparr>"

definition demo_path_schema :: SchemaDefinition where
  "demo_path_schema = \<lparr>sd_schema_id = 0, sd_columns = [\<lparr>cm_id = 1, cm_name = ''r'', cm_data_type = DUtf8, cm_nullable = False,
     cm_doc = None\<rparr>], sd_identifier_field_ids = []\<rparr>"

theorem partition_path_exact_witness:
  "iceberg_partition_path demo_values demo_path_schema demo_path_spec [(1000, SUtf8 ''../eu west'')] = Inr ''region=..%2Feu+west'' \<and>
    ''..'' \<notin> set (split_on (CHR ''/'') ''region=..%2Feu+west'')"
proof -
  have p: "iceberg_partition_path demo_values demo_path_schema demo_path_spec [(1000, SUtf8 ''../eu west'')] = Inr ''region=..%2Feu+west''"
    by code_simp
  have "sp_fields demo_path_spec \<noteq> []" by (simp add: demo_path_spec_def)
  from partition_path_exact[OF p this p] show ?thesis using p by blast
qed

theorem decimal_sign_lost_witness:
  "teo_scalar_to_datum demo_values (SDecimal128 (-5) 10 2) = teo_scalar_to_datum demo_values (SDecimal128 5 10 2)"
  using decimal_sign_lost[of 2 "-5" demo_values 10] by simp

theorem uint64_order_lost_witness:
  "\<exists>d e. teo_scalar_to_datum demo_values (SUInt64 1) = Inr d \<and> teo_scalar_to_datum demo_values (SUInt64 (2 ^ 64 - 1)) = Inr e \<and>
    datum_to_teo_scalar d DInt64 = Inr (SInt64 1) \<and> datum_to_teo_scalar e DInt64 = Inr (SInt64 (-1))"
  using uint64_order_lost[of 1 "2 ^ 64 - 1" demo_values] by simp

end
