(* ===== verification/Flush_Write.thy ===== *)
theory Flush_Write
  imports Parquet_Writer Iceberg_Convert Wal_Prepared
begin

text \<open>The files of a flush (\<open>crates/teodb-ingest/src/flush/write.rs\<close>, \<open>flush/partitioning.rs\<close> and the validation of prepared files
  in \<open>flush/mod.rs\<close>): rows are grouped by partition, every group is written below its partition directory under a name that
  carries the writer and the commit, and the files of the intent are checked against the table before it is persisted.

  A cell of an Arrow array is read with the class of the array; the JSON text of a partition key is a parameter. The
  iteration order of the two hash maps is a parameter as well.\<close>

section \<open>Partitioning\<close>

datatype ArrowCell =
    A_Null | A_Boolean bool | A_Int8 int | A_Int16 int | A_Int32 int | A_Int64 int
  | A_UInt8 nat | A_UInt16 nat | A_UInt32 nat | A_UInt64 nat | A_Float32 "32 word" | A_Float64 "64 word"
  | A_Decimal128 int | A_Date32 int | A_TimestampMicros int | A_Time64Micros int
  | A_Utf8 string | A_Binary "byte list" | A_FixedSizeBinary "byte list" | A_Other

type_synonym part_values = "(int \<times> TeoScalar) list"

type_synonym row_groups = "(string \<times> part_values \<times> nat list) list"

record 'b PartitionedBatches =
  pb_partition_values :: part_values
  pb_batches :: "'b list"

record 'b part_ops =
  po_cell :: "'b \<Rightarrow> nat \<Rightarrow> nat \<Rightarrow> ArrowCell"
  po_key_json :: "part_values \<Rightarrow> string option"
  po_rows_order :: "row_groups \<Rightarrow> row_groups"
  po_groups_order :: "(string \<times> 'b PartitionedBatches) list \<Rightarrow> (string \<times> 'b PartitionedBatches) list"

definition downcast_error :: "TeoScalar teo_result" where
  "downcast_error = Inl (Internal ''partition column Arrow array does not match TeoDB type'')"

definition scalar_at :: "ArrowCell \<Rightarrow> TeoDataType \<Rightarrow> TeoScalar teo_result" where
  "scalar_at cell data_type =
    (if cell = A_Null then Inr SNull
     else case data_type of
       DBoolean \<Rightarrow> (case cell of A_Boolean v \<Rightarrow> Inr (SBoolean v) | _ \<Rightarrow> downcast_error)
     | DInt8 \<Rightarrow> (case cell of A_Int8 v \<Rightarrow> Inr (SInt8 v) | _ \<Rightarrow> downcast_error)
     | DInt16 \<Rightarrow> (case cell of A_Int16 v \<Rightarrow> Inr (SInt16 v) | _ \<Rightarrow> downcast_error)
     | DInt32 \<Rightarrow> (case cell of A_Int32 v \<Rightarrow> Inr (SInt32 v) | _ \<Rightarrow> downcast_error)
     | DInt64 \<Rightarrow> (case cell of A_Int64 v \<Rightarrow> Inr (SInt64 v) | _ \<Rightarrow> downcast_error)
     | DUInt8 \<Rightarrow> (case cell of A_UInt8 v \<Rightarrow> Inr (SUInt8 v) | _ \<Rightarrow> downcast_error)
     | DUInt16 \<Rightarrow> (case cell of A_UInt16 v \<Rightarrow> Inr (SUInt16 v) | _ \<Rightarrow> downcast_error)
     | DUInt32 \<Rightarrow> (case cell of A_UInt32 v \<Rightarrow> Inr (SUInt32 v) | _ \<Rightarrow> downcast_error)
     | DUInt64 \<Rightarrow> (case cell of A_UInt64 v \<Rightarrow> Inr (SUInt64 v) | _ \<Rightarrow> downcast_error)
     | DFloat32 \<Rightarrow> (case cell of A_Float32 v \<Rightarrow> Inr (SFloat32 v) | _ \<Rightarrow> downcast_error)
     | DFloat64 \<Rightarrow> (case cell of A_Float64 v \<Rightarrow> Inr (SFloat64 v) | _ \<Rightarrow> downcast_error)
     | DDecimal128 precision scale \<Rightarrow>
         (case cell of A_Decimal128 v \<Rightarrow> Inr (SDecimal128 v precision scale) | _ \<Rightarrow> downcast_error)
     | DDate32 \<Rightarrow> (case cell of A_Date32 v \<Rightarrow> Inr (SDate32 v) | _ \<Rightarrow> downcast_error)
     | DTimestampMicros tz \<Rightarrow> (case cell of A_TimestampMicros v \<Rightarrow> Inr (STimestampMicros v tz) | _ \<Rightarrow> downcast_error)
     | DTime64Micros \<Rightarrow> (case cell of A_Time64Micros v \<Rightarrow> Inr (STime64Micros v) | _ \<Rightarrow> downcast_error)
     | DUtf8 \<Rightarrow> (case cell of A_Utf8 v \<Rightarrow> Inr (SUtf8 v) | _ \<Rightarrow> downcast_error)
     | DBinary \<Rightarrow> (case cell of A_Binary v \<Rightarrow> Inr (SBinary v) | _ \<Rightarrow> downcast_error)
     | DFixedSizeBinary _ \<Rightarrow> (case cell of A_FixedSizeBinary v \<Rightarrow> Inr (SFixedSizeBinary v) | _ \<Rightarrow> downcast_error))"

fun row_values ::
    "'b part_ops \<Rightarrow> ice_values \<Rightarrow> 'b \<Rightarrow> nat \<Rightarrow> SchemaDefinition \<Rightarrow> PartitionField list \<Rightarrow> part_values teo_result" where
  "row_values P I batch row schema [] = Inr []"
| "row_values P I batch row schema (field # rest) =
    bind_r (ok_or (find_index (\<lambda>c. cm_id c = pf_source_id field) (sd_columns schema))
      (Internal ''partition source field not found'')) (\<lambda>column_idx.
    let data_type = cm_data_type (sd_columns schema ! column_idx) in
    bind_r (scalar_at (po_cell P batch column_idx row) data_type) (\<lambda>source.
    bind_r (apply_partition_transform_to_scalar I source data_type (pf_transform field)) (\<lambda>value.
    bind_r (row_values P I batch row schema rest) (\<lambda>ordered. Inr ((pf_field_id field, value) # ordered)))))"

definition partition_key_for_row ::
    "'b part_ops \<Rightarrow> ice_values \<Rightarrow> 'b \<Rightarrow> nat \<Rightarrow> SchemaDefinition \<Rightarrow> PartitionSpec \<Rightarrow> (string \<times> part_values) teo_result" where
  "partition_key_for_row P I batch row schema spec =
    bind_r (row_values P I batch row schema (sp_fields spec)) (\<lambda>ordered.
    bind_r (ok_or (po_key_json P ordered) (Internal ''failed to serialize partition key'')) (\<lambda>key.
    Inr (key, fold (\<lambda>(k, v). al_put k v) ordered [])))"

text \<open>\<open>entry(key).or_insert_with(..).1.push(row as u32)\<close>\<close>

definition push_row :: "string \<Rightarrow> part_values \<Rightarrow> nat \<Rightarrow> row_groups \<Rightarrow> row_groups" where
  "push_row key values row m =
    (case map_of m key of
       None \<Rightarrow> al_put key (values, [row mod 2 ^ 32]) m
     | Some (vs, rs) \<Rightarrow> al_put key (vs, rs @ [row mod 2 ^ 32]) m)"

fun rows_by_key ::
    "'b part_ops \<Rightarrow> ice_values \<Rightarrow> 'b \<Rightarrow> SchemaDefinition \<Rightarrow> PartitionSpec \<Rightarrow> nat list \<Rightarrow> row_groups \<Rightarrow> row_groups teo_result" where
  "rows_by_key P I batch schema spec [] m = Inr m"
| "rows_by_key P I batch schema spec (row # rows) m =
    bind_r (partition_key_for_row P I batch row schema spec) (\<lambda>(key, values).
      rows_by_key P I batch schema spec rows (push_row key values row m))"

fun slice_failed :: "TakeError \<Rightarrow> TeoDBError" where
  "slice_failed (TakeColumn e) = Internal (''failed to slice partition batch: '' @ e)"
| "slice_failed (BuildBatch e) = Internal (''failed to build partition batch: '' @ e)"

definition take_rows :: "'b arrow_ops \<Rightarrow> 'b \<Rightarrow> nat list \<Rightarrow> 'b teo_result" where
  "take_rows A batch rows = map_sum slice_failed id (ar_take A rows batch)"

definition push_batch ::
    "string \<Rightarrow> part_values \<Rightarrow> 'b \<Rightarrow> (string \<times> 'b PartitionedBatches) list \<Rightarrow> (string \<times> 'b PartitionedBatches) list" where
  "push_batch key values sliced groups =
    (case map_of groups key of
       None \<Rightarrow> al_put key \<lparr>pb_partition_values = values, pb_batches = [sliced]\<rparr> groups
     | Some g \<Rightarrow> al_put key (g\<lparr>pb_batches := pb_batches g @ [sliced]\<rparr>) groups)"

fun push_groups ::
    "'b arrow_ops \<Rightarrow> 'b \<Rightarrow> row_groups \<Rightarrow> (string \<times> 'b PartitionedBatches) list \<Rightarrow> (string \<times> 'b PartitionedBatches) list teo_result" where
  "push_groups A batch [] groups = Inr groups"
| "push_groups A batch ((key, values, rows) # entries) groups =
    bind_r (take_rows A batch rows) (\<lambda>sliced. push_groups A batch entries (push_batch key values sliced groups))"

fun partition_loop ::
    "'b arrow_ops \<Rightarrow> 'b part_ops \<Rightarrow> ice_values \<Rightarrow> SchemaDefinition \<Rightarrow> PartitionSpec \<Rightarrow> 'b list
      \<Rightarrow> (string \<times> 'b PartitionedBatches) list \<Rightarrow> (string \<times> 'b PartitionedBatches) list teo_result" where
  "partition_loop A P I schema spec [] groups = Inr groups"
| "partition_loop A P I schema spec (batch # batches) groups =
    bind_r (rows_by_key P I batch schema spec [0..<ar_num_rows A batch] []) (\<lambda>m.
    bind_r (push_groups A batch (po_rows_order P m) groups) (partition_loop A P I schema spec batches))"

definition partition_batches ::
    "'b arrow_ops \<Rightarrow> 'b part_ops \<Rightarrow> ice_values \<Rightarrow> 'b list \<Rightarrow> SchemaDefinition \<Rightarrow> PartitionSpec \<Rightarrow> 'b PartitionedBatches list teo_result" where
  "partition_batches A P I batches schema spec =
    bind_r (partition_loop A P I schema spec batches []) (\<lambda>groups. Inr (map snd (po_groups_order P groups)))"

section \<open>Writing\<close>

record FlushWriteContext =
  fw_writer_id :: uuid
  fw_commit_id :: uuid
  fw_generations :: GenerationRange

definition flush_sort_order :: "TableMetadata \<Rightarrow> SortOrder" where
  "flush_sort_order m =
    (case find (\<lambda>s. so_order_id s = tm_current_sort_order_id m) (tm_sort_orders m) of
       Some s \<Rightarrow> s | None \<Rightarrow> \<lparr>so_order_id = 0, so_fields = []\<rparr>)"

definition trim_end_slash :: "string \<Rightarrow> string" where
  "trim_end_slash s = rev (dropWhile (\<lambda>c. c = CHR ''/'') (rev s))"

definition flush_file_location ::
    "text_codec \<Rightarrow> TableMetadata \<Rightarrow> uuid \<Rightarrow> uuid \<Rightarrow> (string \<times> nat) option \<Rightarrow> ObjectLocation" where
  "flush_file_location T m writer_id commit_id part =
    (let file_name = (case part of
           Some (_, idx) \<Rightarrow> uuid_fmt T commit_id @ ''-p'' @ pad4 idx @ ''-f0000.parquet''
         | None \<Rightarrow> uuid_fmt T commit_id @ ''-f0000.parquet'');
         data_dir = (case part of
           Some (path, _) \<Rightarrow> ''data/'' @ path @ ''/'' @ uuid_fmt T writer_id
         | None \<Rightarrow> ''data/'' @ uuid_fmt T writer_id)
     in \<lparr>ol_scheme = ol_scheme (tm_table_location m), ol_bucket = ol_bucket (tm_table_location m),
         ol_key = trim_end_slash (ol_key (tm_table_location m)) @ ''/'' @ data_dir @ ''/'' @ file_name\<rparr>)"

text \<open>The Arrow schema of a table: every field carries the id of its column.\<close>

definition schema_to_arrow :: "SchemaDefinition \<Rightarrow> arrow_schema" where
  "schema_to_arrow schema = map (\<lambda>c. Some (cm_id c)) (sd_columns schema)"

definition flush_spec ::
    "TableMetadata \<Rightarrow> SchemaDefinition \<Rightarrow> PartitionSpec \<Rightarrow> part_values \<Rightarrow> GenerationRange \<Rightarrow> WriteSpec teo_result" where
  "flush_spec m schema spec values generations =
    build_spec ((WriteSpecBuilder_new (schema_to_arrow schema))\<lparr>wb_schema_id := Some (tm_current_schema_id m),
      wb_partition_spec_id := Some (sp_spec_id spec), wb_partition_values := values, wb_sort_order := flush_sort_order m,
      wb_generation_lo := gr_lo generations, wb_generation_hi := gr_hi generations\<rparr>)"

record ('b, 'wr, 's) write_env =
  we_arrow :: "'b arrow_ops"
  we_parquet :: "('b, 'wr) parquet_ops"
  we_storage :: "'s storage_ops"
  we_part :: "'b part_ops"
  we_values :: ice_values
  we_text :: text_codec

fun write_groups ::
    "('b, 'wr, 's) write_env \<Rightarrow> TableMetadata \<Rightarrow> SchemaDefinition \<Rightarrow> PartitionSpec \<Rightarrow> FlushWriteContext
      \<Rightarrow> 'b PartitionedBatches list \<Rightarrow> nat \<Rightarrow> DataFile list \<Rightarrow> 's \<Rightarrow> 's \<times> DataFile list teo_result" where
  "write_groups E m schema spec ctx [] idx data_files store = (store, Inr data_files)"
| "write_groups E m schema spec ctx (g # groups) idx data_files store =
    (case bind_r (iceberg_partition_path (we_values E) schema spec (pb_partition_values g)) (\<lambda>path.
        bind_r (flush_spec m schema spec (pb_partition_values g) (fw_generations ctx)) (\<lambda>wspec. Inr (path, wspec))) of
       Inl e \<Rightarrow> (store, Inl e)
     | Inr (path, wspec) \<Rightarrow>
        (case write_sorted_rolled (we_arrow E) (we_parquet E) (we_storage E)
            (flush_file_location (we_text E) m (fw_writer_id ctx) (fw_commit_id ctx) (Some (path, idx))) (pb_batches g) wspec store of
           (store, Inl e) \<Rightarrow> (store, Inl e)
         | (store, Inr files) \<Rightarrow> write_groups E m schema spec ctx groups (idx + 1) (data_files @ files) store))"

text \<open>\<open>resolved\<close> is the answer of the storage factory for the table location.\<close>

definition write_flush_data_files ::
    "('b, 'wr, 's) write_env \<Rightarrow> unit teo_result \<Rightarrow> TableMetadata \<Rightarrow> 'b list \<Rightarrow> FlushWriteContext \<Rightarrow> 's \<Rightarrow> 's \<times> DataFile list teo_result" where
  "write_flush_data_files E resolved m batches ctx store =
    (case bind_r (current_schema m) (\<lambda>schema. bind_r (current_partition_spec m) (\<lambda>spec.
        bind_r resolved (\<lambda>_. Inr (schema, spec)))) of
       Inl e \<Rightarrow> (store, Inl e)
     | Inr (schema, spec) \<Rightarrow>
         if sp_fields spec = []
         then (case flush_spec m schema spec [] (fw_generations ctx) of
             Inl e \<Rightarrow> (store, Inl e)
           | Inr wspec \<Rightarrow> write_sorted_rolled (we_arrow E) (we_parquet E) (we_storage E)
               (flush_file_location (we_text E) m (fw_writer_id ctx) (fw_commit_id ctx) None) batches wspec store)
         else (case partition_batches (we_arrow E) (we_part E) (we_values E) batches schema spec of
             Inl e \<Rightarrow> (store, Inl e)
           | Inr partitioned \<Rightarrow> write_groups E m schema spec ctx partitioned 0 [] store))"

section \<open>Validation of a prepared flush\<close>

definition write_protocol_error :: "TableIdent \<Rightarrow> string \<Rightarrow> TeoDBError" where
  "write_protocol_error table message = WriteProtocol table message"

definition validate_prepared_file ::
    "ice_values \<Rightarrow> text_codec \<Rightarrow> TableMetadata \<Rightarrow> PreparedFlush \<Rightarrow> TableIdent \<Rightarrow> DataFile \<Rightarrow> unit teo_result" where
  "validate_prepared_file I T m p table f =
    (let data_prefix = trim_end_slash (ol_key (tm_table_location m)) @ ''/data/'';
         commit_prefix = uuid_fmt T (pf_commit_id p) @ ''-''; key = ol_key (df_path f) in
     bind_r (ok_or (find (\<lambda>s. sd_schema_id s = df_schema_id f) (tm_schemas m))
       (write_protocol_error table ''prepared data file references unknown schema'')) (\<lambda>schema.
     bind_r (ok_or (find (\<lambda>s. sp_spec_id s = df_partition_spec_id f) (tm_partition_specs m))
       (write_protocol_error table ''prepared data file references unknown partition spec'')) (\<lambda>spec.
     bind_r (if sp_fields spec = [] then Inr (data_prefix @ uuid_fmt T (pf_writer_id p) @ ''/'')
             else bind_r (iceberg_partition_path I schema spec (df_partition_values f)) (\<lambda>path.
               Inr (data_prefix @ path @ ''/'' @ uuid_fmt T (pf_writer_id p) @ ''/''))) (\<lambda>prefix.
     let relative_name = strip_prefix prefix key in
     if (case relative_name of None \<Rightarrow> True | Some name \<Rightarrow> name = [] \<or> CHR ''/'' \<in> set name)
        \<or> starts_with key ''/''
        \<or> list_ex (\<lambda>c. c = ''..'') (split_on (CHR ''/'') key)
        \<or> ol_scheme (df_path f) \<noteq> ol_scheme (tm_table_location m)
        \<or> ol_bucket (df_path f) \<noteq> ol_bucket (tm_table_location m)
        \<or> df_content f \<noteq> Data
        \<or> (case relative_name of None \<Rightarrow> True | Some name \<Rightarrow> \<not> starts_with name commit_prefix)
     then Inl (write_protocol_error table ''data-file path is not an exact member of commit'')
     else Inr ()))))"

fun validate_each :: "('a \<Rightarrow> unit teo_result) \<Rightarrow> 'a list \<Rightarrow> unit teo_result" where
  "validate_each check [] = Inr ()"
| "validate_each check (x # xs) = bind_r (check x) (\<lambda>_. validate_each check xs)"

definition validate_prepared_data_files ::
    "ice_values \<Rightarrow> text_codec \<Rightarrow> TableMetadata \<Rightarrow> PreparedFlush \<Rightarrow> unit teo_result" where
  "validate_prepared_data_files I T m p =
    (let table = TableIdent_new (tm_namespace m) (tm_table_name m) in
     if pf_table_uuid p \<noteq> tm_table_uuid m \<or> pf_table p \<noteq> table
     then Inl (write_protocol_error table ''prepared intent does not match the loaded table incarnation'')
     else if pf_data_files p = []
     then Inl (write_protocol_error table ''prepared intent contains no data files'')
     else validate_each (validate_prepared_file I T m p table) (pf_data_files p))"

section \<open>Partitioning keeps every row\<close>

text \<open>Hash maps iterate over their entries in some order.\<close>

definition order_documented :: "'b part_ops \<Rightarrow> bool" where
  "order_documented P \<longleftrightarrow> (\<forall>m. mset (po_rows_order P m) = mset m) \<and> (\<forall>g. mset (po_groups_order P g) = mset g)"

definition indices :: "row_groups \<Rightarrow> nat multiset" where
  "indices m = (\<Sum>e \<leftarrow> m. mset (snd (snd e)))"

definition group_rows :: "('b \<Rightarrow> 'r list) \<Rightarrow> (string \<times> 'b PartitionedBatches) list \<Rightarrow> 'r multiset" where
  "group_rows rows groups = (\<Sum>e \<leftarrow> groups. mset (concat (map rows (pb_batches (snd e)))))"

lemma sum_al_put_new:
  "k \<notin> fst ` set m \<Longrightarrow> (\<Sum>e \<leftarrow> al_put k v m. (f e :: 'x multiset)) = (\<Sum>e \<leftarrow> m. f e) + f (k, v)"
  by (induction m) (auto simp: ac_simps)

lemma sum_al_put_old:
  "map_of m k = Some v \<Longrightarrow> f (k, v') = f (k, v) + x \<Longrightarrow> (\<Sum>e \<leftarrow> al_put k v' m. (f e :: 'x multiset)) = (\<Sum>e \<leftarrow> m. f e) + x"
  by (induction m) (auto simp: ac_simps split: if_splits)

lemma sum_list_perm: "mset xs = mset ys \<Longrightarrow> (\<Sum>e \<leftarrow> xs. (f e :: 'x multiset)) = (\<Sum>e \<leftarrow> ys. f e)"
  by (metis mset_map sum_mset_sum_list)

lemma indices_mem: "i \<in># indices m \<longleftrightarrow> (\<exists>e \<in> set m. i \<in> set (snd (snd e)))"
  by (induction m) (auto simp: indices_def)

lemma push_row_indices: "row < 2 ^ 32 \<Longrightarrow> indices (push_row key vs row m) = add_mset row (indices m)"
proof (cases "map_of m key")
  case None
  then have "key \<notin> fst ` set m" by (simp add: map_of_eq_None_iff)
  then show "row < 2 ^ 32 \<Longrightarrow> ?thesis" using None by (simp add: push_row_def indices_def sum_al_put_new)
next
  case (Some p)
  show "row < 2 ^ 32 \<Longrightarrow> ?thesis"
    using Some sum_al_put_old[OF Some, of "\<lambda>e. mset (snd (snd e))" "(fst p, snd p @ [row])" "{#row#}"]
    by (cases p) (simp add: push_row_def indices_def)
qed

lemma rows_by_key_indices:
  "rows_by_key P I b sc sp rs m = Inr m' \<Longrightarrow> \<forall>r \<in> set rs. r < 2 ^ 32 \<Longrightarrow> indices m' = indices m + mset rs"
proof (induction rs arbitrary: m)
  case (Cons r rs)
  obtain k vs where "partition_key_for_row P I b r sc sp = Inr (k, vs)" "rows_by_key P I b sc sp rs (push_row k vs r m) = Inr m'"
    using Cons.prems(1) by auto
  then show ?case using Cons by (simp add: push_row_indices)
qed simp

lemma push_batch_rows: "group_rows rows (push_batch key vs b groups) = group_rows rows groups + mset (rows b)"
proof (cases "map_of groups key")
  case None
  then have "key \<notin> fst ` set groups" by (simp add: map_of_eq_None_iff)
  then show ?thesis using None by (simp add: push_batch_def group_rows_def sum_al_put_new)
next
  case (Some g)
  show ?thesis
    using Some sum_al_put_old[OF Some, of "\<lambda>e. mset (concat (map rows (pb_batches (snd e))))" "g\<lparr>pb_batches := pb_batches g @ [b]\<rparr>" "mset (rows b)"]
    by (simp add: push_batch_def group_rows_def)
qed

lemma push_groups_rows:
  assumes A: "arrow_documented A rows"
  shows "push_groups A b es groups = Inr groups' \<Longrightarrow> \<forall>e \<in> set es. \<forall>i \<in> set (snd (snd e)). i < length (rows b) \<Longrightarrow>
    group_rows rows groups' = group_rows rows groups + image_mset ((!) (rows b)) (indices es)"
proof (induction es arbitrary: groups)
  case (Cons e es)
  obtain k vs rs where e: "e = (k, vs, rs)" by (cases e)
  obtain s where s: "ar_take A rs b = Inr s" "push_groups A b es (push_batch k vs s groups) = Inr groups'"
    using Cons.prems(1) by (cases "ar_take A rs b") (auto simp: e take_rows_def)
  have "rows s = map ((!) (rows b)) rs" using A s(1) Cons.prems(2) by (auto simp: arrow_documented_def e)
  then show ?case using Cons.IH[OF s(2)] Cons.prems(2) by (simp add: push_batch_rows e indices_def ac_simps)
qed (simp add: indices_def)

lemma partition_loop_rows:
  assumes A: "arrow_documented A rows" and P: "order_documented P"
  shows "partition_loop A P I sc sp bs groups = Inr groups' \<Longrightarrow> length (concat (map rows bs)) < 2 ^ 32 \<Longrightarrow>
    group_rows rows groups' = group_rows rows groups + mset (concat (map rows bs))"
proof (induction bs arbitrary: groups)
  case (Cons b bs)
  have n: "ar_num_rows A b = length (rows b)" using A by (simp add: arrow_documented_def)
  obtain m g where m: "rows_by_key P I b sc sp [0..<length (rows b)] [] = Inr m"
    and g: "push_groups A b (po_rows_order P m) groups = Inr g" "partition_loop A P I sc sp bs g = Inr groups'"
    using Cons.prems(1) by (auto simp: n)
  have ms: "mset (po_rows_order P m) = mset m" using P by (simp add: order_documented_def)
  have "indices m = mset [0..<length (rows b)]" using rows_by_key_indices[OF m] Cons.prems(2) by (simp add: indices_def)
  then have ix: "indices (po_rows_order P m) = mset [0..<length (rows b)]"
    using sum_list_perm[OF ms, of "\<lambda>e. mset (snd (snd e))"] by (simp only: indices_def)
  have lt: "\<forall>e \<in> set (po_rows_order P m). \<forall>i \<in> set (snd (snd e)). i < length (rows b)"
  proof (intro ballI)
    fix e i assume "e \<in> set (po_rows_order P m)" "i \<in> set (snd (snd e))"
    then have "i \<in># indices (po_rows_order P m)" unfolding indices_mem by blast
    then show "i < length (rows b)" unfolding ix by simp
  qed
  have "image_mset ((!) (rows b)) (mset [0..<length (rows b)]) = mset (rows b)" by (metis map_nth mset_map)
  then have "group_rows rows g = group_rows rows groups + mset (rows b)"
    using push_groups_rows[OF A g(1) lt] by (simp only: ix)
  moreover have "group_rows rows groups' = group_rows rows g + mset (concat (map rows bs))"
    using Cons.prems(2) by (intro Cons.IH[OF g(2)]) simp
  ultimately show ?case by simp
qed (simp add: group_rows_def)

lemma partition_batches_rows:
  assumes A: "arrow_documented A rows" and P: "order_documented P"
    and "partition_batches A P I bs sc sp = Inr gs" "length (concat (map rows bs)) < 2 ^ 32"
  shows "(\<Sum>g \<leftarrow> gs. mset (concat (map rows (pb_batches g)))) = mset (concat (map rows bs))"
proof -
  obtain groups where g: "partition_loop A P I sc sp bs [] = Inr groups" "gs = map snd (po_groups_order P groups)"
    using assms(3) by (auto simp: partition_batches_def)
  have "mset (po_groups_order P groups) = mset groups" using P by (simp add: order_documented_def)
  from sum_list_perm[OF this] have "group_rows rows (po_groups_order P groups) = group_rows rows groups"
    by (simp add: group_rows_def)
  then show ?thesis using partition_loop_rows[OF A P g(1) assms(4)]
    by (simp add: g(2) group_rows_def comp_def)
qed


section \<open>File names of a flush\<close>

definition flush_root :: "TableMetadata \<Rightarrow> string" where
  "flush_root m = trim_end_slash (ol_key (tm_table_location m))"

definition flush_dir :: "text_codec \<Rightarrow> TableMetadata \<Rightarrow> uuid \<Rightarrow> string option \<Rightarrow> string" where
  "flush_dir T m writer path = flush_root m @ ''/data/'' @ (case path of None \<Rightarrow> [] | Some p \<Rightarrow> p @ ''/'') @ uuid_fmt T writer @ ''/''"

definition flush_name :: "text_codec \<Rightarrow> uuid \<Rightarrow> nat option \<Rightarrow> nat \<Rightarrow> string" where
  "flush_name T commit idx i = uuid_fmt T commit @ (case idx of None \<Rightarrow> [] | Some j \<Rightarrow> ''-p'' @ pad4 j) @ ''-f'' @ pad4 i @ ''.parquet''"

lemma strip_suffix_append: "strip_suffix suffix (s @ suffix) = Some s"
  by (simp add: strip_suffix_def ends_with_def)

lemma flush_location_parts:
  assumes "l = flush_file_location T m writer commit (map_option (\<lambda>j. (path, j)) idx)"
  shows "ol_scheme l = ol_scheme (tm_table_location m)" "ol_bucket l = ol_bucket (tm_table_location m)"
    "ol_key l = flush_dir T m writer (map_option (\<lambda>_. path) idx) @ flush_name T commit idx 0"
    "file_location l i = l\<lparr>ol_key := flush_dir T m writer (map_option (\<lambda>_. path) idx) @ flush_name T commit idx i\<rparr>"
proof -
  let ?pre = "flush_dir T m writer (map_option (\<lambda>_. path) idx) @ uuid_fmt T commit @ (case idx of None \<Rightarrow> [] | Some j \<Rightarrow> ''-p'' @ pad4 j)"
  have zero: "pad4 0 = ''0000''" by code_simp
  have key: "ol_key l = ?pre @ ''-f0000.parquet''"
    using assms by (cases idx) (simp_all add: flush_file_location_def flush_dir_def flush_root_def)
  show "ol_scheme l = ol_scheme (tm_table_location m)" "ol_bucket l = ol_bucket (tm_table_location m)"
    using assms by (simp_all add: flush_file_location_def)
  show "ol_key l = flush_dir T m writer (map_option (\<lambda>_. path) idx) @ flush_name T commit idx 0"
    by (simp add: key flush_name_def zero)
  show "file_location l i = l\<lparr>ol_key := flush_dir T m writer (map_option (\<lambda>_. path) idx) @ flush_name T commit idx i\<rparr>"
    unfolding file_location_def key strip_suffix_append by (simp add: flush_name_def)
qed

text \<open>A file that a flush wrote for the group \<open>idx\<close>.\<close>

definition flush_file :: "text_codec \<Rightarrow> TableMetadata \<Rightarrow> uuid \<Rightarrow> uuid \<Rightarrow> string option \<Rightarrow> nat option \<Rightarrow> DataFile \<Rightarrow> bool" where
  "flush_file T m writer commit path idx f \<longleftrightarrow> ol_scheme (df_path f) = ol_scheme (tm_table_location m) \<and>
     ol_bucket (df_path f) = ol_bucket (tm_table_location m) \<and>
     (\<exists>i. ol_key (df_path f) = flush_dir T m writer path @ flush_name T commit idx i)"

lemma paths_flush_file:
  assumes "paths_from (flush_file_location T m writer commit (map_option (\<lambda>j. (path, j)) idx)) 0 fs" "f \<in> set fs"
  shows "flush_file T m writer commit (map_option (\<lambda>_. path) idx) idx f"
proof -
  define l where "l = flush_file_location T m writer commit (map_option (\<lambda>j. (path, j)) idx)"
  note L = flush_location_parts[OF l_def]
  have "df_path f \<in> set (map df_path fs)" using assms(2) by simp
  then consider i where "df_path f = file_location l i" | "df_path f = l"
    using assms(1) unfolding paths_from_def l_def[symmetric] by (elim disjE conjE) auto
  then show ?thesis
  proof cases
    case 1
    show ?thesis unfolding flush_file_def 1 L(4) by (auto simp: L(1,2))
  next
    case 2
    show ?thesis unfolding flush_file_def 2 L(3) by (auto simp: L(1,2))
  qed
qed

lemma last_segment:
  assumes "a @ ''/'' @ x = b @ ''/'' @ y" "CHR ''/'' \<notin> set x" "CHR ''/'' \<notin> set y"
  shows "x = y"
proof -
  have "takeWhile (\<lambda>c. c \<noteq> CHR ''/'') (rev (a @ ''/'' @ x)) = rev x" "takeWhile (\<lambda>c. c \<noteq> CHR ''/'') (rev (b @ ''/'' @ y)) = rev y"
    using assms(2,3) by (auto intro!: takeWhile_append_stop)
  then have "rev x = rev y" unfolding assms(1) by simp
  then show ?thesis by simp
qed

lemma digit_list_split:
  assumes "list_all is_digit a" "list_all is_digit b" "a @ CHR ''-'' # x = b @ CHR ''-'' # y"
  shows "a = b"
proof -
  have "takeWhile is_digit (a @ CHR ''-'' # x) = a" "takeWhile is_digit (b @ CHR ''-'' # y) = b"
    using assms(1,2) by (auto intro!: takeWhile_append_stop simp: list_all_iff is_digit_def)
  then show ?thesis using assms(3) by simp
qed

lemma pad4_plain: "CHR ''/'' \<notin> set (pad4 n)" "CHR ''.'' \<notin> set (pad4 n)"
  using pad4_digits[of n] by (auto simp: list_all_iff is_digit_def)

lemma flush_name_plain: "uuid_text_ok T \<Longrightarrow> CHR ''/'' \<notin> set (flush_name T commit idx i)"
  using uuid_fmt_plain(2)[of T commit] pad4_plain by (auto simp: flush_name_def split: option.splits)

lemma flush_name_group: "flush_name T commit (Some j) i = flush_name T commit (Some j') i' \<Longrightarrow> j = j'"
  using digit_list_split[OF pad4_digits pad4_digits, of j _ j'] by (auto simp: flush_name_def)

lemma flush_file_group:
  assumes T: "uuid_text_ok T" and "flush_file T m w c path (Some j) f" "flush_file T m w c path' (Some j') f'"
    and "ol_key (df_path f) = ol_key (df_path f')"
  shows "j = j'"
proof -
  obtain i i' where e: "flush_dir T m w path @ flush_name T c (Some j) i = flush_dir T m w path' @ flush_name T c (Some j') i'"
    using assms(2-4) unfolding flush_file_def by metis
  have "\<exists>a. flush_dir T m w p = a @ ''/''" for p
    unfolding flush_dir_def by (intro exI[of _ "flush_root m @ ''/data/'' @ (case p of None \<Rightarrow> [] | Some p \<Rightarrow> p @ ''/'') @ uuid_fmt T w"]) simp
  then obtain a b where "flush_dir T m w path = a @ ''/''" "flush_dir T m w path' = b @ ''/''" by blast
  then have "flush_name T c (Some j) i = flush_name T c (Some j') i'"
    using last_segment[of a "flush_name T c (Some j) i" b "flush_name T c (Some j') i'"] e flush_name_plain[OF T] by simp
  then show ?thesis by (rule flush_name_group)
qed

section \<open>Every row is written once\<close>

subsection \<open>Groups have no empty batches\<close>

definition nonempty_rows :: "('b \<Rightarrow> 'r list) \<Rightarrow> (string \<times> 'b PartitionedBatches) list \<Rightarrow> bool" where
  "nonempty_rows rows groups \<longleftrightarrow> (\<forall>e \<in> set groups. \<forall>b \<in> set (pb_batches (snd e)). rows b \<noteq> [])"

lemma set_al_put_sub: "set (al_put k v m) \<subseteq> insert (k, v) (set m)"
  by (induction m) auto

lemma rows_by_key_nonempty:
  "rows_by_key P I b sc sp rs m = Inr m' \<Longrightarrow> \<forall>e \<in> set m. snd (snd e) \<noteq> [] \<Longrightarrow> \<forall>e \<in> set m'. snd (snd e) \<noteq> []"
proof (induction rs arbitrary: m)
  case (Cons r rs)
  obtain k vs where kv: "partition_key_for_row P I b r sc sp = Inr (k, vs)" "rows_by_key P I b sc sp rs (push_row k vs r m) = Inr m'"
    using Cons.prems(1) by auto
  have "\<forall>e \<in> set (push_row k vs r m). snd (snd e) \<noteq> []"
    using Cons.prems(2) set_al_put_sub[of k _ m] by (fastforce simp: push_row_def split: option.splits)
  then show ?case using Cons.IH[OF kv(2)] by blast
qed simp

lemma push_batch_nonempty: "nonempty_rows rows groups \<Longrightarrow> rows b \<noteq> [] \<Longrightarrow> nonempty_rows rows (push_batch k vs b groups)"
proof -
  assume g: "nonempty_rows rows groups" and b: "rows b \<noteq> []"
  show ?thesis
  proof (cases "map_of groups k")
    case None
    then show ?thesis using g b set_al_put_sub[of k "\<lparr>pb_partition_values = vs, pb_batches = [b]\<rparr>" groups]
      unfolding nonempty_rows_def push_batch_def by fastforce
  next
    case (Some x)
    then have "(k, x) \<in> set groups" by (rule map_of_SomeD)
    then have "\<forall>c \<in> set (pb_batches x). rows c \<noteq> []" using g by (force simp: nonempty_rows_def)
    then show ?thesis using g b Some set_al_put_sub[of k "x\<lparr>pb_batches := pb_batches x @ [b]\<rparr>" groups]
      unfolding nonempty_rows_def push_batch_def by fastforce
  qed
qed

lemma push_groups_nonempty:
  assumes A: "arrow_documented A rows"
  shows "push_groups A b es groups = Inr groups' \<Longrightarrow> nonempty_rows rows groups \<Longrightarrow>
    \<forall>e \<in> set es. snd (snd e) \<noteq> [] \<and> (\<forall>i \<in> set (snd (snd e)). i < length (rows b)) \<Longrightarrow> nonempty_rows rows groups'"
proof (induction es arbitrary: groups)
  case (Cons e es)
  obtain k vs rs where e: "e = (k, vs, rs)" by (cases e)
  obtain s where s: "ar_take A rs b = Inr s" "push_groups A b es (push_batch k vs s groups) = Inr groups'"
    using Cons.prems(1) by (cases "ar_take A rs b") (auto simp: e take_rows_def)
  have "rows s = map ((!) (rows b)) rs" using A s(1) Cons.prems(3) by (auto simp: arrow_documented_def e)
  then have "rows s \<noteq> []" using Cons.prems(3) by (simp add: e)
  from Cons.IH[OF s(2) push_batch_nonempty[OF Cons.prems(2) this]] Cons.prems(3) show ?case by simp
qed simp

lemma row_groups_bounded:
  assumes A: "arrow_documented A rows" and P: "order_documented P"
    and m: "rows_by_key P I b sc sp [0..<length (rows b)] [] = Inr m" and n: "length (rows b) < 2 ^ 32"
  shows "\<forall>e \<in> set (po_rows_order P m). snd (snd e) \<noteq> [] \<and> (\<forall>i \<in> set (snd (snd e)). i < length (rows b))"
proof
  have set: "set (po_rows_order P m) = set m" using P by (metis mset_eq_setD order_documented_def)
  have ix: "indices m = mset [0..<length (rows b)]" using rows_by_key_indices[OF m] n by (simp add: indices_def)
  fix e assume "e \<in> set (po_rows_order P m)"
  then have e: "e \<in> set m" by (simp add: set)
  have "snd (snd e) \<noteq> []" using rows_by_key_nonempty[OF m] e by simp
  moreover have "i < length (rows b)" if "i \<in> set (snd (snd e))" for i
  proof -
    have "i \<in># indices m" unfolding indices_mem using e that by blast
    then show ?thesis unfolding ix by simp
  qed
  ultimately show "snd (snd e) \<noteq> [] \<and> (\<forall>i \<in> set (snd (snd e)). i < length (rows b))" by blast
qed

lemma partition_loop_nonempty:
  assumes A: "arrow_documented A rows" and P: "order_documented P"
  shows "partition_loop A P I sc sp bs groups = Inr groups' \<Longrightarrow> length (concat (map rows bs)) < 2 ^ 32 \<Longrightarrow>
    nonempty_rows rows groups \<Longrightarrow> nonempty_rows rows groups'"
proof (induction bs arbitrary: groups)
  case (Cons b bs)
  have n: "ar_num_rows A b = length (rows b)" using A by (simp add: arrow_documented_def)
  obtain m g where m: "rows_by_key P I b sc sp [0..<length (rows b)] [] = Inr m"
    and g: "push_groups A b (po_rows_order P m) groups = Inr g" "partition_loop A P I sc sp bs g = Inr groups'"
    using Cons.prems(1) by (auto simp: n)
  have lb: "length (rows b) < 2 ^ 32" using Cons.prems(2) by simp
  show ?case using Cons.IH[OF g(2)] push_groups_nonempty[OF A g(1) Cons.prems(3) row_groups_bounded[OF A P m lb]] Cons.prems(2) by simp
qed simp

lemma length_nonempty: "\<forall>b \<in> set bs. rows b \<noteq> [] \<Longrightarrow> length bs \<le> length (concat (map rows bs))"
proof (induction bs)
  case (Cons b bs)
  then have "1 \<le> length (rows b)" by (cases "rows b") auto
  then show ?case using Cons by simp
qed simp

lemma partition_batches_small:
  assumes A: "arrow_documented A rows" and P: "order_documented P"
    and p: "partition_batches A P I bs sc sp = Inr gs" and n: "2 * length (concat (map rows bs)) < 2 ^ 32" and g: "g \<in> set gs"
  shows "length (concat (map rows (pb_batches g))) + length (pb_batches g) < 2 ^ 32"
proof -
  obtain groups where gr: "partition_loop A P I sc sp bs [] = Inr groups" "gs = map snd (po_groups_order P groups)"
    using p by (auto simp: partition_batches_def)
  have "nonempty_rows rows groups" using partition_loop_nonempty[OF A P gr(1)] n by (simp add: nonempty_rows_def)
  moreover have "set (po_groups_order P groups) = set groups" using P by (metis mset_eq_setD order_documented_def)
  ultimately have "\<forall>b \<in> set (pb_batches g). rows b \<noteq> []" using g by (auto simp: gr(2) nonempty_rows_def)
  then have "length (pb_batches g) \<le> length (concat (map rows (pb_batches g)))" by (rule length_nonempty)
  moreover have "length (concat (map rows (pb_batches g))) \<le> length (concat (map rows bs))"
  proof -
    have sub: "mset (concat (map rows (pb_batches g))) \<subseteq># (\<Sum>g \<leftarrow> gs. mset (concat (map rows (pb_batches g))))"
      using g by (induction gs) (auto intro: subset_mset.add_increasing subset_mset.add_increasing2)
    have "(\<Sum>g \<leftarrow> gs. mset (concat (map rows (pb_batches g)))) = mset (concat (map rows bs))"
      using partition_batches_rows[OF A P p] n by simp
    then show ?thesis using size_mset_mono[OF sub] by (metis size_mset)
  qed
  ultimately show ?thesis using n by linarith
qed

subsection \<open>Writing the groups\<close>

definition stored :: "'s storage_ops \<Rightarrow> (byte list \<Rightarrow> 'r list) \<Rightarrow> 's \<Rightarrow> 's \<Rightarrow> DataFile list \<Rightarrow> bool" where
  "stored S fr s s' fs \<longleftrightarrow> distinct (map (ol_key \<circ> df_path) fs) \<and>
     (\<forall>f \<in> set fs. df_record_count f = length (rows_at S fr s' f)) \<and>
     (\<forall>q. q \<notin> (ol_key \<circ> df_path) ` set fs \<longrightarrow> sto_get S s' q = sto_get S s q)"

lemma written_stored: "written S fr spec s s' fs \<Longrightarrow> paths_from base i fs \<Longrightarrow> stored S fr s s' fs"
  using paths_from_distinct[of base i fs] by (simp add: written_def stored_def image_comp)

lemma stored_append:
  assumes a: "stored S fr s s1 fs" and b: "stored S fr s1 s2 gs" and d: "(ol_key \<circ> df_path) ` set fs \<inter> (ol_key \<circ> df_path) ` set gs = {}"
  shows "stored S fr s s2 (fs @ gs)" "map (rows_at S fr s2) fs = map (rows_at S fr s1) fs"
proof -
  have same: "rows_at S fr s2 f = rows_at S fr s1 f" if "f \<in> set fs" for f
  proof (rule rows_at_cong)
    have "ol_key (df_path f) \<notin> (ol_key \<circ> df_path) ` set gs" using that d by auto
    then show "sto_get S s2 (ol_key (df_path f)) = sto_get S s1 (ol_key (df_path f))" using b by (simp add: stored_def)
  qed
  then show "map (rows_at S fr s2) fs = map (rows_at S fr s1) fs" by simp
  show "stored S fr s s2 (fs @ gs)" using a b d same unfolding stored_def by (auto simp: image_Un)
qed

definition flush_member :: "('b, 'wr, 's) write_env \<Rightarrow> TableMetadata \<Rightarrow> FlushWriteContext \<Rightarrow> SchemaDefinition \<Rightarrow> PartitionSpec
    \<Rightarrow> nat \<Rightarrow> DataFile \<Rightarrow> bool" where
  "flush_member E m ctx schema spec idx f \<longleftrightarrow> df_content f = Data \<and> df_schema_id f = tm_current_schema_id m \<and>
     df_partition_spec_id f = sp_spec_id spec \<and>
     (if sp_fields spec = [] then flush_file (we_text E) m (fw_writer_id ctx) (fw_commit_id ctx) None None f
      else \<exists>path j. idx \<le> j \<and> iceberg_partition_path (we_values E) schema spec (df_partition_values f) = Inr path \<and>
        flush_file (we_text E) m (fw_writer_id ctx) (fw_commit_id ctx) (Some path) (Some j) f)"

lemma flush_spec_sel: "flush_spec m schema spec vs gs = Inr ws \<Longrightarrow> ws_schema_id ws = tm_current_schema_id m \<and>
    ws_partition_spec_id ws = sp_spec_id spec \<and> ws_partition_values ws = vs"
  by (auto simp: flush_spec_def build_spec_def ok_or_def)

lemma write_groups_ok:
  assumes A: "arrow_documented (we_arrow E) rows" and Q: "parquet_documented (we_parquet E) rows content fr"
    and S: "storage_documented (we_storage E)" and T: "uuid_text_ok (we_text E)" and part: "sp_fields spec \<noteq> []"
  shows "write_groups E m schema spec ctx gs idx dfs s = (s', Inr out) \<Longrightarrow>
    \<forall>g \<in> set gs. length (concat (map rows (pb_batches g))) + length (pb_batches g) < 2 ^ 32 \<Longrightarrow>
    \<exists>fs. out = dfs @ fs \<and> stored (we_storage E) fr s s' fs \<and> list_all (flush_member E m ctx schema spec idx) fs \<and>
      mset (concat (map (rows_at (we_storage E) fr s') fs)) = (\<Sum>g \<leftarrow> gs. mset (concat (map rows (pb_batches g))))"
proof (induction gs arbitrary: idx dfs s)
  case Nil
  then show ?case by (simp add: stored_def)
next
  case (Cons g gs)
  let ?S = "we_storage E"
  obtain path ws s1 files where p: "iceberg_partition_path (we_values E) schema spec (pb_partition_values g) = Inr path"
    and ws: "flush_spec m schema spec (pb_partition_values g) (fw_generations ctx) = Inr ws"
    and w: "write_sorted_rolled (we_arrow E) (we_parquet E) ?S
      (flush_file_location (we_text E) m (fw_writer_id ctx) (fw_commit_id ctx) (Some (path, idx))) (pb_batches g) ws s = (s1, Inr files)"
    and rest: "write_groups E m schema spec ctx gs (idx + 1) (dfs @ files) s1 = (s', Inr out)"
    using Cons.prems(1) by (auto split: sum.splits prod.splits)
  have small: "length (concat (map rows (pb_batches g))) + length (pb_batches g) < 2 ^ 32" using Cons.prems(2) by simp
  note W = write_sorted_rolled_ok[OF A Q S w small]
  have st: "stored ?S fr s s1 files" by (rule written_stored[OF conjunct1[OF conjunct2[OF W]] conjunct1[OF W]])
  have ff: "flush_file (we_text E) m (fw_writer_id ctx) (fw_commit_id ctx) (Some path) (Some idx) f" if "f \<in> set files" for f
    using paths_flush_file[of "we_text E" m "fw_writer_id ctx" "fw_commit_id ctx" path "Some idx" files f] W that by simp
  have mem: "list_all (flush_member E m ctx schema spec idx) files"
    using W ff p part flush_spec_sel[OF ws] by (auto simp: written_def list_all_iff file_of_def flush_member_def)
  obtain fs where fs: "out = (dfs @ files) @ fs" "stored ?S fr s1 s' fs" "list_all (flush_member E m ctx schema spec (idx + 1)) fs"
    "mset (concat (map (rows_at ?S fr s') fs)) = (\<Sum>g \<leftarrow> gs. mset (concat (map rows (pb_batches g))))"
    using Cons.IH[OF rest] Cons.prems(2) by auto
  have "ol_key (df_path f) \<noteq> ol_key (df_path f')" if mem': "f \<in> set files" "f' \<in> set fs" for f f'
  proof
    assume eq: "ol_key (df_path f) = ol_key (df_path f')"
    obtain path' j where j: "idx + 1 \<le> j" "flush_file (we_text E) m (fw_writer_id ctx) (fw_commit_id ctx) (Some path') (Some j) f'"
      using fs(3) mem'(2) part by (auto simp: list_all_iff flush_member_def)
    from flush_file_group[OF T ff[OF mem'(1)] j(2) eq] j(1) show False by simp
  qed
  then have "(ol_key \<circ> df_path) ` set files \<inter> (ol_key \<circ> df_path) ` set fs = {}" by auto
  note SA = stored_append[OF st fs(2) this]
  have "list_all (flush_member E m ctx schema spec idx) fs"
    using fs(3) part unfolding list_all_iff flush_member_def by (metis Suc_eq_plus1 Suc_leD)
  moreover have "mset (concat (map (rows_at ?S fr s') files)) = mset (concat (map rows (pb_batches g)))"
    unfolding SA(2) using W by blast
  ultimately show ?case using SA(1) mem fs(1,4) by (intro exI[of _ "files @ fs"]) simp
qed

lemma write_flush_ok:
  assumes A: "arrow_documented (we_arrow E) rows" and Q: "parquet_documented (we_parquet E) rows content fr"
    and S: "storage_documented (we_storage E)" and P: "order_documented (we_part E)" and T: "uuid_text_ok (we_text E)"
    and w: "write_flush_data_files E resolved m batches ctx s = (s', Inr fs)"
    and small: "2 * length (concat (map rows batches)) + length batches < 2 ^ 32"
  shows "\<exists>schema spec. current_schema m = Inr schema \<and> current_partition_spec m = Inr spec \<and> stored (we_storage E) fr s s' fs \<and>
    list_all (flush_member E m ctx schema spec 0) fs \<and>
    mset (concat (map (rows_at (we_storage E) fr s') fs)) = mset (concat (map rows batches))"
proof -
  obtain schema spec where sc: "current_schema m = Inr schema" "current_partition_spec m = Inr spec" "resolved = Inr ()"
    using w by (auto simp: write_flush_data_files_def split: sum.splits)
  show ?thesis
  proof (cases "sp_fields spec = []")
    case True
    then obtain ws where ws: "flush_spec m schema spec [] (fw_generations ctx) = Inr ws"
      and wr: "write_sorted_rolled (we_arrow E) (we_parquet E) (we_storage E)
        (flush_file_location (we_text E) m (fw_writer_id ctx) (fw_commit_id ctx) None) batches ws s = (s', Inr fs)"
      using w sc by (auto simp: write_flush_data_files_def split: sum.splits)
    have "length (concat (map rows batches)) + length batches < 2 ^ 32" using small by linarith
    note W = write_sorted_rolled_ok[OF A Q S wr this]
    have "flush_file (we_text E) m (fw_writer_id ctx) (fw_commit_id ctx) None None f" if "f \<in> set fs" for f
      using paths_flush_file[of "we_text E" m "fw_writer_id ctx" "fw_commit_id ctx" "[]" None fs f] W that by simp
    then have "list_all (flush_member E m ctx schema spec 0) fs"
      using W True flush_spec_sel[OF ws] by (auto simp: written_def list_all_iff file_of_def flush_member_def)
    then show ?thesis using W sc written_stored[OF conjunct1[OF conjunct2[OF W]] conjunct1[OF W]] by auto
  next
    case False
    then obtain gs where gs: "partition_batches (we_arrow E) (we_part E) (we_values E) batches schema spec = Inr gs"
      and wr: "write_groups E m schema spec ctx gs 0 [] s = (s', Inr fs)"
      using w sc by (auto simp: write_flush_data_files_def split: sum.splits)
    have "\<forall>g \<in> set gs. length (concat (map rows (pb_batches g))) + length (pb_batches g) < 2 ^ 32"
      using partition_batches_small[OF A P gs] small by auto
    from write_groups_ok[OF A Q S T False wr this] partition_batches_rows[OF A P gs] small sc show ?thesis by auto
  qed
qed


section \<open>The files of a flush are valid\<close>

lemma split_on_sep: "split_on d (a @ d # b) = split_on d a @ split_on d b"
proof (induction a)
  case (Cons c a)
  obtain w ws where "split_on d a = w # ws" by (cases "split_on d a") auto
  then show ?case using Cons by simp
qed simp

lemma find_index_append: "P y \<Longrightarrow> \<exists>k \<le> length xs. find_index P (xs @ y # ys) = Some k"
proof (induction xs)
  case (Cons x xs)
  then obtain k where "k \<le> length xs" "find_index P (xs @ y # ys) = Some k" by blast
  then show ?case by auto
qed simp

lemma writer_owned:
  assumes "name \<noteq> writer"
  shows "path_is_writer_owned writer (as @ ''data'' # bs @ [writer, name])"
proof -
  obtain k where k: "k \<le> length as" "find_index (\<lambda>c. c = ''data'') (as @ ''data'' # (bs @ [writer, name])) = Some k"
    using find_index_append[of "\<lambda>c. c = ''data''"] by blast
  have "find_index (\<lambda>c. c = writer) (rev (as @ ''data'' # bs @ [writer, name])) = Some 1" using assms by simp
  then show ?thesis using k by (simp add: path_is_writer_owned_def rfind_index_def)
qed

lemma normal_root:
  assumes "key_normal key" "key \<noteq> []"
  shows "trim_end_slash key = key" "\<not> starts_with key ''/''"
proof -
  have seg: "[] \<notin> set (split_on (CHR ''/'') key)" using assms by (auto simp: key_normal_def list_all_iff)
  obtain ks c where key: "key = ks @ [c]" using assms(2) by (cases key rule: rev_cases) auto
  have "c \<noteq> CHR ''/''"
  proof
    assume "c = CHR ''/''"
    then show False using seg split_on_sep[of "CHR ''/''" ks "[]"] by (simp add: key)
  qed
  then show "trim_end_slash key = key" by (simp add: trim_end_slash_def key)
  show "\<not> starts_with key ''/''"
  proof
    assume "starts_with key ''/''"
    then obtain t where "key = [] @ CHR ''/'' # t" by (auto simp: starts_with_iff)
    then show False using seg split_on_sep[of "CHR ''/''" "[]" t] by simp
  qed
qed

lemma flush_name_facts:
  assumes T: "uuid_text_ok T"
  shows "starts_with (flush_name T c idx i) (uuid_fmt T c @ ''-'')" "ends_with (flush_name T c idx i) ''.parquet''"
    "flush_name T c idx i \<noteq> uuid_fmt T w" "flush_name T c idx i \<noteq> ''..''" "flush_name T c idx i \<noteq> []"
proof -
  obtain r where r: "flush_name T c idx i = (uuid_fmt T c @ ''-'') @ r" by (cases idx) (auto simp: flush_name_def)
  show "starts_with (flush_name T c idx i) (uuid_fmt T c @ ''-'')" unfolding r starts_with_iff by blast
  obtain q where q: "flush_name T c idx i = q @ ''.parquet''" by (cases idx) (auto simp: flush_name_def)
  then show "ends_with (flush_name T c idx i) ''.parquet''" by (simp add: ends_with_def)
  have "CHR ''.'' \<in> set (flush_name T c idx i)" unfolding q by simp
  then show "flush_name T c idx i \<noteq> uuid_fmt T w" using uuid_fmt_plain(3)[OF T] by metis
  have "CHR ''p'' \<in> set (flush_name T c idx i)" unfolding q by simp
  then show "flush_name T c idx i \<noteq> ''..''" "flush_name T c idx i \<noteq> []" by auto
qed

text \<open>The segments of the key of a flushed file. \<open>ps\<close> are those of the partition directory.\<close>

lemma flush_key_segments:
  assumes T: "uuid_text_ok T" and root: "key_normal (ol_key (tm_table_location m))" "ol_key (tm_table_location m) \<noteq> []"
    and f: "flush_file T m w c path idx f"
    and path: "path = None \<and> ps = [] \<or> (\<exists>p. path = Some p \<and> split_on (CHR ''/'') p = ps)"
  shows "\<exists>i. ol_key (df_path f) = flush_dir T m w path @ flush_name T c idx i \<and>
    split_on (CHR ''/'') (ol_key (df_path f)) =
      split_on (CHR ''/'') (ol_key (tm_table_location m)) @ ''data'' # ps @ [uuid_fmt T w, flush_name T c idx i]"
proof -
  obtain i where key: "ol_key (df_path f) = flush_dir T m w path @ flush_name T c idx i" using f by (auto simp: flush_file_def)
  have rt: "flush_root m = ol_key (tm_table_location m)" unfolding flush_root_def by (rule normal_root(1)[OF root])
  let ?r = "ol_key (tm_table_location m)" and ?W = "uuid_fmt T w" and ?n = "flush_name T c idx i"
  have tl: "split_on (CHR ''/'') (?W @ CHR ''/'' # ?n) = [?W, ?n]"
    using split_on_sep[of "CHR ''/''" ?W ?n] uuid_fmt_plain(2)[OF T, of w] flush_name_plain[OF T] by (simp add: split_on_single)
  have "split_on (CHR ''/'') (?r @ CHR ''/'' # ''data'' @ CHR ''/'' # rest) = split_on (CHR ''/'') ?r @ ''data'' # split_on (CHR ''/'') rest" for rest
    unfolding split_on_sep by (simp add: split_on_single)
  moreover have "split_on (CHR ''/'') ((case path of None \<Rightarrow> [] | Some p \<Rightarrow> p @ ''/'') @ ?W @ CHR ''/'' # ?n) = ps @ [?W, ?n]"
    using path tl split_on_sep[of "CHR ''/''" _ "?W @ CHR ''/'' # ?n"] by auto
  ultimately show ?thesis using key by (intro exI[of _ i]) (simp add: flush_dir_def rt)
qed

lemma find_same:
  assumes "find (\<lambda>x. g x = k) xs = Some y"
  shows "g y = k" "find (\<lambda>x. g x = g y) xs = Some y"
  using assms by (auto simp: find_Some_iff)

lemma flush_member_path:
  assumes "flush_member E m ctx schema spec n f"
  shows "\<exists>path idx ps. flush_file (we_text E) m (fw_writer_id ctx) (fw_commit_id ctx) path idx f \<and> [] \<notin> set ps \<and> ''..'' \<notin> set ps \<and>
    (path = None \<and> ps = [] \<or> (\<exists>p. path = Some p \<and> split_on (CHR ''/'') p = ps)) \<and>
    (if sp_fields spec = [] then path = None else map_sum id Some (iceberg_partition_path (we_values E) schema spec (df_partition_values f)) = Inr path)"
proof (cases "sp_fields spec = []")
  case True
  then show ?thesis using assms by (intro exI[of _ None] exI[of _ "None"] exI[of _ "[]"]) (simp add: flush_member_def)
next
  case False
  then obtain p j where p: "iceberg_partition_path (we_values E) schema spec (df_partition_values f) = Inr p"
    "flush_file (we_text E) m (fw_writer_id ctx) (fw_commit_id ctx) (Some p) (Some j) f"
    using assms by (auto simp: flush_member_def)
  obtain hs where hs: "split_on (CHR ''/'') p = map2 path_component (sp_fields spec) hs" using partition_path_parts[OF p(1) False] by blast
  have "x \<noteq> [] \<and> x \<noteq> ''..''" if "x \<in> set (split_on (CHR ''/'') p)" for x using that path_component_props(2,3) unfolding hs by auto
  then show ?thesis using p False by (intro exI[of _ "Some p"] exI[of _ "Some j"] exI[of _ "split_on (CHR ''/'') p"]) auto
qed

lemma flush_member_valid:
  assumes T: "uuid_text_ok (we_text E)" and root: "key_normal (ol_key (tm_table_location m))" "ol_key (tm_table_location m) \<noteq> []"
    and cur: "current_schema m = Inr schema" "current_partition_spec m = Inr spec" and f: "flush_member E m ctx schema spec n f"
    and p: "pf_writer_id p = fw_writer_id ctx" "pf_commit_id p = fw_commit_id ctx"
  shows "validate_prepared_file (we_values E) (we_text E) m p table f = Inr ()" "validate_file (we_text E) p f = Inr ()"
proof -
  let ?T = "we_text E" and ?w = "fw_writer_id ctx" and ?c = "fw_commit_id ctx"
  obtain path idx ps where fl: "flush_file ?T m ?w ?c path idx f" and ps: "[] \<notin> set ps" "''..'' \<notin> set ps"
    and pp: "path = None \<and> ps = [] \<or> (\<exists>p. path = Some p \<and> split_on (CHR ''/'') p = ps)"
    and dir: "if sp_fields spec = [] then path = None else map_sum id Some (iceberg_partition_path (we_values E) schema spec (df_partition_values f)) = Inr path"
    using flush_member_path[OF f] by blast
  obtain i where key: "ol_key (df_path f) = flush_dir ?T m ?w path @ flush_name ?T ?c idx i"
    and seg: "split_on (CHR ''/'') (ol_key (df_path f)) =
      split_on (CHR ''/'') (ol_key (tm_table_location m)) @ ''data'' # ps @ [uuid_fmt ?T ?w, flush_name ?T ?c idx i]"
    using flush_key_segments[OF T root fl pp] by blast
  note N = flush_name_facts[OF T, of ?c idx i]
  have rt: "flush_root m = ol_key (tm_table_location m)" unfolding flush_root_def by (rule normal_root(1)[OF root])
  have abs: "\<not> starts_with (ol_key (df_path f)) ''/''"
  proof -
    obtain a as where "ol_key (tm_table_location m) = a # as" using root(2) by (cases "ol_key (tm_table_location m)") auto
    then show ?thesis using normal_root(2)[OF root] by (simp add: key flush_dir_def rt starts_with_def)
  qed
  have rs: "[] \<notin> set (split_on (CHR ''/'') (ol_key (tm_table_location m)))" "''..'' \<notin> set (split_on (CHR ''/'') (ol_key (tm_table_location m)))"
    using root by (auto simp: key_normal_def list_all_iff)
  have wr: "uuid_fmt ?T ?w \<noteq> []" "uuid_fmt ?T ?w \<noteq> ''..''"
    using uuid_fmt_plain(1,3)[OF T, of ?w] by auto
  have comps: "\<not> list_ex (\<lambda>c. c = [] \<or> c = ''..'') (split_on (CHR ''/'') (ol_key (df_path f)))"
    unfolding seg using rs ps wr N(4,5) by (auto simp: list_ex_iff)
  have mem: "df_content f = Data" "df_schema_id f = tm_current_schema_id m" "df_partition_spec_id f = sp_spec_id spec"
    using f by (simp_all add: flush_member_def)
  have loc: "ol_scheme (df_path f) = ol_scheme (tm_table_location m)" "ol_bucket (df_path f) = ol_bucket (tm_table_location m)"
    using fl by (simp_all add: flush_file_def)
  have sch: "find (\<lambda>s. sd_schema_id s = df_schema_id f) (tm_schemas m) = Some schema"
    using cur(1) by (auto simp: current_schema_def ok_or_def mem(2) split: option.splits)
  have "find (\<lambda>s. sp_spec_id s = tm_current_partition_spec_id m) (tm_partition_specs m) = Some spec"
    using cur(2) by (auto simp: current_partition_spec_def ok_or_def split: option.splits)
  then have spc: "find (\<lambda>s. sp_spec_id s = df_partition_spec_id f) (tm_partition_specs m) = Some spec"
    unfolding mem(3) by (rule find_same(2))
  have prefix: "(if sp_fields spec = [] then Inr (trim_end_slash (ol_key (tm_table_location m)) @ ''/data/'' @ uuid_fmt ?T ?w @ ''/'')
      else bind_r (iceberg_partition_path (we_values E) schema spec (df_partition_values f)) (\<lambda>path.
        Inr (trim_end_slash (ol_key (tm_table_location m)) @ ''/data/'' @ path @ ''/'' @ uuid_fmt ?T ?w @ ''/''))) = Inr (flush_dir ?T m ?w path)"
    using dir by (auto simp: flush_dir_def flush_root_def)
  have strip: "strip_prefix (flush_dir ?T m ?w path) (ol_key (df_path f)) = Some (flush_name ?T ?c idx i)"
    by (simp add: strip_prefix_Some key)
  have dots: "\<not> list_ex (\<lambda>c. c = ''..'') (split_on (CHR ''/'') (ol_key (df_path f)))" using comps by (auto simp: list_ex_iff)
  show "validate_prepared_file (we_values E) ?T m p table f = Inr ()"
    unfolding validate_prepared_file_def Let_def sch spc p
    using abs dots loc mem(1) N(1,5) flush_name_plain[OF T, of ?c idx i]
    by (simp only: ok_or_def option.case bind_r.simps append_assoc prefix strip) simp
  have "df_format f = FileFormat.Parquet" by (cases "df_format f") simp
  then show "validate_file ?T p f = Inr ()"
    unfolding validate_file_def Let_def p using abs comps mem(1) N(1,2) writer_owned[OF N(3)[of ?w], of "split_on (CHR ''/'') (ol_key (tm_table_location m))" ps]
    by (simp add: seg)
qed

lemma validate_each_ok: "(\<And>x. x \<in> set xs \<Longrightarrow> check x = Inr ()) \<Longrightarrow> validate_each check xs = Inr ()"
  by (induction xs) auto

lemma validate_files_ok:
  assumes "\<And>f. f \<in> set fs \<Longrightarrow> validate_file T p f = Inr ()" "distinct (map (unique_path \<circ> df_path) fs)"
    "(unique_path \<circ> df_path) ` set fs \<inter> seen = {}" "n + sum_list (map df_record_count fs) < u64_bound"
  shows "validate_files T p fs seen n = Inr (n + sum_list (map df_record_count fs))"
  using assms
proof (induction fs arbitrary: seen n)
  case (Cons f fs)
  then have "validate_files T p fs (insert (unique_path (df_path f)) seen) (n + df_record_count f) =
      Inr (n + df_record_count f + sum_list (map df_record_count fs))"
    by (intro Cons.IH) auto
  then show ?case using Cons.prems by auto
qed simp

lemma record_counts:
  assumes "stored S fr s s' fs"
  shows "sum_list (map df_record_count fs) = length (concat (map (rows_at S fr s') fs))"
proof -
  have "map df_record_count fs = map length (map (rows_at S fr s') fs)" using assms by (simp add: stored_def)
  then show ?thesis by (simp only: length_concat)
qed

text \<open>With no file in the way and no I/O failure, the size limits decide whether an intent is stored.\<close>

lemma persist_decided:
  assumes v: "validate_prepared T (pl_writer L) (pl_max_files L) p = (if length (pf_data_files p) \<le> pl_max_files L then Inr () else Inl e)"
    and fresh: "map_of dir (path_for T (pf_table_uuid p)) = None" "map_of dir (prepared_tmp T (pf_table_uuid p) u) = None" "io_fail io = None"
  shows "if length (pf_data_files p) \<le> pl_max_files L \<and> (\<exists>payload. pc_enc C p = Some payload \<and> length payload \<le> pl_max_bytes L)
    then snd (persist_prepared T C L (u, io) p dir) = Some (Inr ())
    else \<exists>e. persist_prepared T C L (u, io) p dir = (dir, Some (Inl e))"
  using v fresh by (auto simp: persist_prepared_def bind_io_lift Let_def replace_file_def split: option.split)

section \<open>Properties\<close>

text \<open>Property C6. A flush writes every row once. If the files of a flush were written, then the objects in the store under their
  paths hold together exactly the rows of the flushed batches, whatever the partitioning, sorting and rolling; the
  paths are pairwise distinct, the record counts add up to the number of rows, and no other object was touched.\<close>

theorem flush_writes_every_row:
  assumes "arrow_documented (we_arrow E) rows" "parquet_documented (we_parquet E) rows content fr"
    and "storage_documented (we_storage E)" "order_documented (we_part E)" "uuid_text_ok (we_text E)"
    and "write_flush_data_files E resolved m batches ctx s = (s', Inr fs)"
    and "2 * length (concat (map rows batches)) + length batches < 2 ^ 32"
  shows "mset (concat (map (rows_at (we_storage E) fr s') fs)) = mset (concat (map rows batches)) \<and>
    distinct (map (ol_key \<circ> df_path) fs) \<and> sum_list (map df_record_count fs) = length (concat (map rows batches)) \<and>
    (\<forall>q. q \<notin> (ol_key \<circ> df_path) ` set fs \<longrightarrow> sto_get (we_storage E) s' q = sto_get (we_storage E) s q)"
proof -
  have st: "stored (we_storage E) fr s s' fs" "mset (concat (map (rows_at (we_storage E) fr s') fs)) = mset (concat (map rows batches))"
    using write_flush_ok[OF assms] by blast+
  have "sum_list (map df_record_count fs) = length (concat (map rows batches))"
    unfolding record_counts[OF st(1)] using st(2) by (metis size_mset)
  then show ?thesis using st by (simp add: stored_def)
qed

text \<open>Property C12. Only the size limits can refuse the intent of a flush. For a table in a normal location, an
  intent built from the files of a flush of at least one row passes the check against the loaded table; and the prepared-flush store,
  when the table has no intent yet and no system call fails, persists it exactly when it has at most \<open>pl_max_files\<close> files and its serialized form exists and has
  at most \<open>pl_max_bytes\<close> bytes. Otherwise the store answers an error and the directory is unchanged. A flush is thus never
  refused because of the paths, counts or partitions of the files it wrote itself, but a flush with more files than the limit is refused after they are written.\<close>

theorem flush_intent_valid:
  assumes "arrow_documented (we_arrow E) rows" "parquet_documented (we_parquet E) rows content fr"
    and "storage_documented (we_storage E)" "order_documented (we_part E)" "uuid_text_ok (we_text E)"
    and "write_flush_data_files E resolved m batches ctx s = (s', Inr fs)"
    and "2 * length (concat (map rows batches)) + length batches < 2 ^ 32" "concat (map rows batches) \<noteq> []"
    and "key_normal (ol_key (tm_table_location m))" "ol_key (tm_table_location m) \<noteq> []"
    and "\<not> is_nil (tm_table_uuid m)" "\<not> is_nil (fw_writer_id ctx)" "\<not> is_nil (fw_commit_id ctx)"
    and "0 < epoch" "0 < gr_lo (fw_generations ctx)" "gr_lo (fw_generations ctx) \<le> gr_hi (fw_generations ctx)"
    and "0 \<le> now" "pl_writer L = fw_writer_id ctx"
    and fresh: "map_of dir (path_for (we_text E) (tm_table_uuid m)) = None" "map_of dir (prepared_tmp (we_text E) (tm_table_uuid m) u) = None" "io_fail io = None"
    and p: "p = PreparedFlush_new (TableIdent_new (tm_namespace m) (tm_table_name m)) (tm_table_uuid m) (fw_writer_id ctx) epoch
      (fw_commit_id ctx) (fw_generations ctx) (sum_list (map (ar_num_rows (we_arrow E)) batches)) now fs snapshot"
  shows "validate_prepared_data_files (we_values E) (we_text E) m p = Inr () \<and>
    (if length fs \<le> pl_max_files L \<and> (\<exists>payload. pc_enc C p = Some payload \<and> length payload \<le> pl_max_bytes L)
     then snd (persist_prepared (we_text E) C L (u, io) p dir) = Some (Inr ())
     else \<exists>e. persist_prepared (we_text E) C L (u, io) p dir = (dir, Some (Inl e)))"
proof -
  obtain schema spec where cur: "current_schema m = Inr schema" "current_partition_spec m = Inr spec"
    and st: "stored (we_storage E) fr s s' fs" and mem: "list_all (flush_member E m ctx schema spec 0) fs"
    and ms: "mset (concat (map (rows_at (we_storage E) fr s') fs)) = mset (concat (map rows batches))"
    using write_flush_ok[OF assms(1-7)] by blast
  have count: "sum_list (map df_record_count fs) = length (concat (map rows batches))"
    unfolding record_counts[OF st] using ms by (metis size_mset)
  have "map (ar_num_rows (we_arrow E)) batches = map length (map rows batches)" using assms(1) by (simp add: arrow_documented_def)
  then have total: "sum_list (map (ar_num_rows (we_arrow E)) batches) = length (concat (map rows batches))"
    by (simp only: length_concat)
  have pos: "0 < length (concat (map rows batches))" using assms(8) unfolding length_greater_0_conv .
  have ne: "fs \<noteq> []" using count pos by auto
  have pw: "pf_writer_id p = fw_writer_id ctx" "pf_commit_id p = fw_commit_id ctx" by (simp_all add: p PreparedFlush_new_def)
  note V = flush_member_valid[OF assms(5,9,10) cur _ pw]
  have v: "validate_prepared_file (we_values E) (we_text E) m p t f = Inr ()" "validate_file (we_text E) p f = Inr ()" if "f \<in> set fs" for f t
    using V mem that by (auto simp: list_all_iff)
  have "distinct (map (unique_path \<circ> df_path) fs)"
  proof -
    have "inj_on (unique_path \<circ> df_path) (set fs)"
    proof (rule inj_onI)
      fix f g assume fg: "f \<in> set fs" "g \<in> set fs" "(unique_path \<circ> df_path) f = (unique_path \<circ> df_path) g"
      have "ol_scheme (df_path x) = ol_scheme (tm_table_location m) \<and> ol_bucket (df_path x) = ol_bucket (tm_table_location m)"
        if "x \<in> set fs" for x
        using mem that flush_member_path by (metis (no_types, lifting) flush_file_def list_all_iff)
      then have "ol_key (df_path f) = ol_key (df_path g)" using fg by (simp add: unique_path_def)
      then show "f = g" using st fg(1,2) by (auto simp: stored_def distinct_map inj_on_def)
    qed
    then show ?thesis using st by (auto simp: stored_def distinct_map)
  qed
  moreover have "length (concat (map rows batches)) < u64_bound" using assms(7) by (simp add: u64_bound_def)
  ultimately have "validate_files (we_text E) p fs {} 0 = Inr (length (concat (map rows batches)))"
    using validate_files_ok[of fs "we_text E" p "{}" 0] v(2) count by simp
  then have "validate_prepared (we_text E) (pl_writer L) (pl_max_files L) p =
      (if length (pf_data_files p) \<le> pl_max_files L then Inr () else Inl (wal ''prepared intent has too many files''))"
    using assms(11-18) ne pos total by (auto simp: validate_prepared_def p PreparedFlush_new_def)
  from persist_decided[OF this, of dir u io C] fresh
  have "if length fs \<le> pl_max_files L \<and> (\<exists>payload. pc_enc C p = Some payload \<and> length payload \<le> pl_max_bytes L)
     then snd (persist_prepared (we_text E) C L (u, io) p dir) = Some (Inr ())
     else \<exists>e. persist_prepared (we_text E) C L (u, io) p dir = (dir, Some (Inl e))"
    by (simp add: p PreparedFlush_new_def)
  moreover have "validate_prepared_data_files (we_values E) (we_text E) m p = Inr ()"
    using ne validate_each_ok[OF v(1)] by (simp add: validate_prepared_data_files_def p PreparedFlush_new_def Let_def)
  ultimately show ?thesis by blast
qed


section \<open>Witnesses\<close>

text \<open>A batch is a list of bytes, one per row, and so is a file. The store is an association list.\<close>

definition demo_arrow :: "byte list arrow_ops" where
  "demo_arrow = \<lparr>ar_num_rows = length, ar_slice = (\<lambda>b o' n. take n (drop o' b)), ar_concat = (\<lambda>_ bs. Inr (concat bs)),
     ar_lexsort = (\<lambda>_ b. Inr [0..<length b]), ar_take = (\<lambda>is b. Inr (map ((!) b) is))\<rparr>"

definition demo_parquet :: "(byte list, byte list) parquet_ops" where
  "demo_parquet = \<lparr>pq_try_new = (\<lambda>_ _. Inr []), pq_write = (\<lambda>b w. Inr (w @ b)), pq_encoded = length, pq_into_inner = Inr,
     pq_footer = (\<lambda>b. Inr [\<lparr>rg_num_rows = int (length b), rg_columns = []\<rparr>]), pq_level_error = (\<lambda>_. None), pq_sort_json = (\<lambda>_. None)\<rparr>"

definition demo_storage :: "(string \<times> byte list) list storage_ops" where
  "demo_storage = \<lparr>sto_put = (\<lambda>k b s. (al_put k b s, Inr ())), sto_get = map_of\<rparr>"

definition demo_part :: "byte list part_ops" where
  "demo_part = \<lparr>po_cell = (\<lambda>b _ row. A_Utf8 (if b ! row = 1 then ''eu'' else ''us'')),
     po_key_json = (\<lambda>vs. case vs of [(_, SUtf8 s)] \<Rightarrow> Some s | _ \<Rightarrow> None), po_rows_order = (\<lambda>m. m), po_groups_order = (\<lambda>m. m)\<rparr>"

definition demo_env :: "(byte list, byte list, (string \<times> byte list) list) write_env" where
  "demo_env = \<lparr>we_arrow = demo_arrow, we_parquet = demo_parquet, we_storage = demo_storage, we_part = demo_part,
     we_values = demo_values, we_text = demo_text\<rparr>"

definition demo_flush_table :: TableMetadata where
  "demo_flush_table = demo_metadata\<lparr>tm_table_location := demo_location ''t'', tm_current_schema_id := 0, tm_current_partition_spec_id := 1,
     tm_schemas := [demo_path_schema], tm_partition_specs := [demo_path_spec]\<rparr>"

definition demo_flush_context :: FlushWriteContext where
  "demo_flush_context = \<lparr>fw_writer_id = 7, fw_commit_id = 9, fw_generations = \<lparr>gr_lo = 1, gr_hi = 2\<rparr>\<rparr>"

definition demo_flush :: "(string \<times> byte list) list \<times> DataFile list teo_result" where
  "demo_flush = write_flush_data_files demo_env (Inr ()) demo_flush_table [[1, 2, 1]] demo_flush_context []"

definition demo_flush_files :: "DataFile list" where
  "demo_flush_files = (case snd demo_flush of Inr fs \<Rightarrow> fs | Inl _ \<Rightarrow> [])"

lemma demo_arrow_ok: "arrow_documented demo_arrow (\<lambda>b. b)"
  by (simp add: arrow_documented_def demo_arrow_def)

lemma demo_parquet_ok: "parquet_documented demo_parquet (\<lambda>b. b) (\<lambda>w. w) (\<lambda>b. b)"
  by (auto simp: parquet_documented_def demo_parquet_def)

lemma demo_storage_ok: "storage_documented demo_storage"
  by (auto simp: storage_documented_def demo_storage_def)

lemma demo_part_ok: "order_documented demo_part"
  by (simp add: order_documented_def demo_part_def)

lemma demo_key:
  "partition_key_for_row demo_part demo_values b row demo_path_schema demo_path_spec =
    (let region = (if b ! row = 1 then ''eu'' else ''us'') in Inr (region, [(1000, SUtf8 region)]))"
proof -
  have "apply_partition_transform_to_scalar demo_values (SUtf8 t) DUtf8 Identity = Inr (SUtf8 t)" for t
    by (simp add: apply_partition_transform_to_scalar_def demo_values_def datum_def is_null_def datum_to_teo_scalar_def primitive_literal_to_teo_scalar_def)
  then show ?thesis
    by (simp add: partition_key_for_row_def demo_path_spec_def demo_path_schema_def demo_part_def scalar_at_def ok_or_def Let_def)
qed

lemma demo_groups:
  "partition_batches demo_arrow demo_part demo_values [[1, 2, 1]] demo_path_schema demo_path_spec =
    Inr [\<lparr>pb_partition_values = [(1000, SUtf8 ''eu'')], pb_batches = [[1, 1]]\<rparr>,
         \<lparr>pb_partition_values = [(1000, SUtf8 ''us'')], pb_batches = [[2]]\<rparr>]"
proof -
  have "ar_num_rows demo_arrow [1, 2, 1] = 3" "[0..<3] = [0, 1, 2]" by (simp_all add: demo_arrow_def upt_rec)
  then have "rows_by_key demo_part demo_values [1, 2, 1] demo_path_schema demo_path_spec [0..<ar_num_rows demo_arrow [1, 2, 1]] [] =
      Inr [(''eu'', [(1000, SUtf8 ''eu'')], [0, 2]), (''us'', [(1000, SUtf8 ''us'')], [1])]"
    by (simp add: demo_key push_row_def Let_def)
  moreover have "po_rows_order demo_part = (\<lambda>m. m)" "po_groups_order demo_part = (\<lambda>m. m)" by (simp_all add: demo_part_def)
  moreover have "take_rows demo_arrow [1, 2, 1] [0, 2] = Inr [1, 1]" "take_rows demo_arrow [1, 2, 1] [1] = Inr [2]"
    by (simp_all add: take_rows_def demo_arrow_def)
  ultimately show ?thesis by (simp add: partition_batches_def push_batch_def)
qed

lemma demo_paths:
  "iceberg_partition_path demo_values demo_path_schema demo_path_spec [(1000, SUtf8 ''eu'')] = Inr ''region=eu''"
  "iceberg_partition_path demo_values demo_path_schema demo_path_spec [(1000, SUtf8 ''us'')] = Inr ''region=us''"
  by code_simp+

lemma demo_write:
  assumes "b \<noteq> []" "length b < 4" "flush_spec demo_flush_table schema demo_path_spec values gens = Inr spec"
  shows "\<exists>f. write_sorted_rolled demo_arrow demo_parquet demo_storage target [b] spec s = (al_put (ol_key target) b s, Inr [f])"
  using assms
  by (auto simp: flush_spec_def build_spec_def WriteSpecBuilder_new_def ok_or_def flush_sort_order_def demo_flush_table_def demo_metadata_def
      write_sorted_rolled_def sort_batches_def write_sorted_stream_def writer_properties_def to_parquet_def CompressionCodec_default_def
      slice_batch_def finish_file_def extract_data_file_from_bytes_def parquet_err_def demo_arrow_def demo_parquet_def demo_storage_def
      u64_bound_def Let_def)

lemma demo_flush_ok:
  "\<exists>f g. demo_flush = ([(''t/data/region=eu/7/9-p0000-f0000.parquet'', [1, 1]), (''t/data/region=us/7/9-p0001-f0000.parquet'', [2])], Inr [f, g])"
proof -
  let ?V = "\<lambda>r. [(1000, SUtf8 r)]" and ?G = "fw_generations demo_flush_context"
  have spec: "\<exists>w. flush_spec demo_flush_table demo_path_schema demo_path_spec vs ?G = Inr w" for vs
    by (simp add: flush_spec_def build_spec_def WriteSpecBuilder_new_def ok_or_def)
  obtain w1 w2 where w: "flush_spec demo_flush_table demo_path_schema demo_path_spec (?V ''eu'') ?G = Inr w1"
    "flush_spec demo_flush_table demo_path_schema demo_path_spec (?V ''us'') ?G = Inr w2" using spec by blast
  let ?L = "\<lambda>path idx. flush_file_location demo_text demo_flush_table 7 9 (Some (path, idx))"
  obtain f where f: "write_sorted_rolled demo_arrow demo_parquet demo_storage (?L ''region=eu'' 0) [[1, 1]] w1 [] =
      (al_put (ol_key (?L ''region=eu'' 0)) [1, 1] [], Inr [f])"
    using demo_write[OF _ _ w(1), of "[1, 1]"] by fastforce
  obtain g where g: "write_sorted_rolled demo_arrow demo_parquet demo_storage (?L ''region=us'' 1) [[2]] w2
      (al_put (ol_key (?L ''region=eu'' 0)) [1, 1] []) =
      (al_put (ol_key (?L ''region=us'' 1)) [2] (al_put (ol_key (?L ''region=eu'' 0)) [1, 1] []), Inr [g])"
    using demo_write[OF _ _ w(2), of "[2]"] by fastforce
  have "pad4 0 = ''0000''" "pad4 1 = ''0001''" by code_simp+
  then have k: "ol_key (?L ''region=eu'' 0) = ''t/data/region=eu/7/9-p0000-f0000.parquet''"
    "ol_key (?L ''region=us'' 1) = ''t/data/region=us/7/9-p0001-f0000.parquet''"
    by (simp_all add: flush_file_location_def demo_fmt demo_flush_table_def demo_location_def trim_end_slash_def del: One_nat_def)
  have cur: "current_schema demo_flush_table = Inr demo_path_schema" "current_partition_spec demo_flush_table = Inr demo_path_spec"
    by (simp_all add: current_schema_def current_partition_spec_def ok_or_def demo_flush_table_def demo_path_schema_def demo_path_spec_def)
  have "sp_fields demo_path_spec \<noteq> []" by (simp add: demo_path_spec_def)
  then show ?thesis
    using f g w unfolding k demo_flush_def write_flush_data_files_def
    by (simp add: cur demo_env_def demo_groups demo_paths demo_flush_context_def)
qed

lemma demo_flush_run:
  "write_flush_data_files demo_env (Inr ()) demo_flush_table [[1, 2, 1]] demo_flush_context [] = (fst demo_flush, Inr demo_flush_files)"
  "is_ok (snd demo_flush)" "length demo_flush_files = 2"
proof -
  obtain s f g where run: "demo_flush = (s, Inr [f, g])" using demo_flush_ok by blast
  have fs: "demo_flush_files = [f, g]" unfolding demo_flush_files_def run by simp
  show "write_flush_data_files demo_env (Inr ()) demo_flush_table [[1, 2, 1]] demo_flush_context [] = (fst demo_flush, Inr demo_flush_files)"
    unfolding demo_flush_def[symmetric] fs unfolding run by simp
  show "is_ok (snd demo_flush)" "length demo_flush_files = 2" unfolding run fs by simp_all
qed

theorem flush_writes_every_row_witness:
  "is_ok (snd demo_flush) \<and> length demo_flush_files = 2 \<and>
    mset (concat (map (rows_at demo_storage (\<lambda>b. b) (fst demo_flush)) demo_flush_files)) = {#1, 1, 2#}"
proof -
  note T = flush_writes_every_row[OF _ _ _ _ _ demo_flush_run(1), of "\<lambda>b. b" "\<lambda>w. w" "\<lambda>b. b"]
  have "mset (concat (map (rows_at demo_storage (\<lambda>b. b) (fst demo_flush)) demo_flush_files)) = mset (concat (map (\<lambda>b. b) [[1, 2, 1]]))"
    using T demo_arrow_ok demo_parquet_ok demo_storage_ok demo_part_ok demo_text_ok by (simp add: demo_env_def)
  then show ?thesis using demo_flush_run by (simp add: add_mset_commute)
qed

definition demo_intent :: PreparedFlush where
  "demo_intent = PreparedFlush_new (TableIdent_new ''ns'' ''t'') 3 7 1 9 \<lparr>gr_lo = 1, gr_hi = 2\<rparr> 3 0 demo_flush_files None"

definition demo_intent_codec :: prepared_codec where
  "demo_intent_codec = \<lparr>pc_enc = (\<lambda>p. Some (replicate (length (pf_data_files p)) 1)), pc_dec = (\<lambda>_. None)\<rparr>"

theorem flush_intent_valid_witness:
  "length demo_flush_files = 2 \<and> validate_prepared_data_files demo_values demo_text demo_flush_table demo_intent = Inr () \<and>
    snd (persist_prepared demo_text demo_intent_codec demo_limits (1, io_good) demo_intent []) = Some (Inr ()) \<and>
    (\<exists>e. persist_prepared demo_text demo_intent_codec (demo_limits\<lparr>pl_max_files := 1\<rparr>) (1, io_good) demo_intent [] = ([], Some (Inl e)))"
proof -
  note T = flush_intent_valid[OF _ _ _ _ _ demo_flush_run(1), of "\<lambda>b. b" "\<lambda>w. w" "\<lambda>b. b" 1 0 _ "[]" 1 io_good demo_intent None demo_intent_codec]
  have m: "tm_table_location demo_flush_table = demo_location ''t''" "tm_table_uuid demo_flush_table = 3"
    "tm_namespace demo_flush_table = ''ns''" "tm_table_name demo_flush_table = ''t''"
    by (simp_all add: demo_flush_table_def demo_metadata_def)
  have i: "demo_intent = PreparedFlush_new (TableIdent_new (tm_namespace demo_flush_table) (tm_table_name demo_flush_table)) (tm_table_uuid demo_flush_table)
      (fw_writer_id demo_flush_context) 1 (fw_commit_id demo_flush_context) (fw_generations demo_flush_context)
      (sum_list (map (ar_num_rows (we_arrow demo_env)) [[1, 2, 1]])) 0 demo_flush_files None"
    by (simp add: demo_intent_def m demo_flush_context_def demo_env_def demo_arrow_def numeral_3_eq_3)
  have g: "io_fail io_good = None" by (simp add: io_good_def)
  have k: "key_normal ''t''" by code_simp
  have "validate_prepared_data_files demo_values demo_text demo_flush_table demo_intent = Inr () \<and>
    (if length demo_flush_files \<le> pl_max_files L \<and> (\<exists>payload. pc_enc demo_intent_codec demo_intent = Some payload \<and> length payload \<le> pl_max_bytes L)
     then snd (persist_prepared demo_text demo_intent_codec L (1, io_good) demo_intent []) = Some (Inr ())
     else \<exists>e. persist_prepared demo_text demo_intent_codec L (1, io_good) demo_intent [] = ([], Some (Inl e)))" if "pl_writer L = 7" for L
    using T[OF _ _ _ _ _ _ _ _ _ _ _ _ _ _ _ _ _ _ _ _ i, of L] that k demo_arrow_ok demo_parquet_ok demo_storage_ok demo_part_ok demo_text_ok
    by (simp add: demo_env_def m demo_location_def demo_flush_context_def is_nil_def g cong: if_cong split del: if_split)
  note W = this[of demo_limits] this[of "demo_limits\<lparr>pl_max_files := 1\<rparr>"]
  have "pf_data_files demo_intent = demo_flush_files" by (simp add: demo_intent_def PreparedFlush_new_def)
  then show ?thesis using W demo_flush_run(3) by (simp add: demo_limits_def demo_intent_codec_def)
qed

end
