(* ===== verification/Table_Buffer.thy ===== *)
theory Table_Buffer
  imports Wal_Prepared
begin

text \<open>The hot buffer of a table (\<open>crates/teodb-ingest/src/buffer/table.rs\<close>): entries waiting for a flush, entries in
  flight, capacity and generation reservations, the prepared or blocked flush that owns the in-flight
  set, and the committed high-water generation.

  Every method of the source takes the state lock once, so each is one function on the buffer; the
  clock is an argument. A record batch is opaque: \<open>batch_ops\<close> gives the memory of its columns and its
  number of rows. Hash and tree maps are association lists without repeated keys.\<close>

section \<open>State\<close>

record 'b batch_ops =
  bo_column_bytes :: "'b \<Rightarrow> nat list"
  bo_num_rows :: "'b \<Rightarrow> nat"

record 'b BufferEntry =
  be_batch_id :: uuid
  be_generation :: generation
  be_created_at_ms :: int
  be_batch :: 'b
  be_byte_size :: nat

record BufferStats =
  st_pending_bytes :: nat
  st_in_flight_bytes :: nat
  st_recently_committed_bytes :: nat
  st_reserved_bytes :: nat
  st_pending_entries :: nat
  st_in_flight_entries :: nat
  st_oldest_uncommitted_created_at_ms :: "int option"

record InsertOk =
  io_generation :: generation
  io_backpressure_signal :: bool

record 'b BufferSnapshot =
  qs_committed_high_water :: generation
  qs_batches :: "'b BufferEntry list"

record BlockedFlush =
  bf_prepared :: PreparedFlush
  bf_since_ms :: int
  bf_last_error :: string
  bf_last_error_class :: string
  bf_status_check_attempts :: nat
  bf_last_recheck_ms :: int

datatype TableFlushState = Idle | Prepared PreparedFlush | Blocked BlockedFlush

record 'b BufferState =
  bs_next_gen :: generation
  bs_committed_high_water :: generation
  bs_pending :: "'b BufferEntry list"
  bs_in_flight :: "'b BufferEntry list"
  bs_recently_committed :: "(nat \<times> 'b BufferEntry list) list"
  bs_pending_bytes :: nat
  bs_in_flight_bytes :: nat
  bs_reserved_bytes :: nat
  bs_reserved_generations :: "(generation \<times> nat) list"
  bs_flush_state :: TableFlushState

record Reservation =
  rv_generation :: generation
  rv_byte_size :: nat

record 'b TableBuffer =
  tb_ident :: TableIdent
  tb_state :: "'b BufferState"
  tb_metadata :: TableMetadata
  tb_max_bytes :: nat
  tb_soft_watermark_bytes :: nat
  tb_committed_grace :: nat

record EvictionStats =
  es_rows :: nat
  es_entries :: nat
  es_bytes :: nat

section \<open>Operations\<close>

definition TableBuffer_new ::
    "TableIdent \<Rightarrow> TableMetadata \<Rightarrow> generation \<Rightarrow> nat \<Rightarrow> nat \<Rightarrow> 'b TableBuffer" where
  "TableBuffer_new ident metadata committed_generation max_bytes soft_watermark_bytes =
    \<lparr>tb_ident = ident,
     tb_state = \<lparr>bs_next_gen = min (committed_generation + 1) u64_max,
       bs_committed_high_water = committed_generation, bs_pending = [], bs_in_flight = [],
       bs_recently_committed = [], bs_pending_bytes = 0, bs_in_flight_bytes = 0, bs_reserved_bytes = 0,
       bs_reserved_generations = [], bs_flush_state = Idle\<rparr>,
     tb_metadata = metadata, tb_max_bytes = max_bytes, tb_soft_watermark_bytes = soft_watermark_bytes,
     tb_committed_grace = 0\<rparr>"

definition with_committed_grace :: "nat \<Rightarrow> 'b TableBuffer \<Rightarrow> 'b TableBuffer" where
  "with_committed_grace grace tb = tb\<lparr>tb_committed_grace := grace\<rparr>"

definition table_uuid :: "'b TableBuffer \<Rightarrow> uuid" where
  "table_uuid tb = tm_table_uuid (tb_metadata tb)"

definition batch_byte_size :: "'b batch_ops \<Rightarrow> 'b \<Rightarrow> nat" where
  "batch_byte_size B batch = sum_list (bo_column_bytes B batch)"

definition ensure_capacity :: "'b TableBuffer \<Rightarrow> 'b BufferState \<Rightarrow> nat \<Rightarrow> bool \<Rightarrow> unit teo_result" where
  "ensure_capacity tb state byte_size include_reserved =
    (let total = bs_pending_bytes state + bs_in_flight_bytes state + bs_reserved_bytes state + byte_size in
     if total \<ge> u64_bound then Inl (Backpressure ''buffer byte accounting overflow'')
     else if total \<le> tb_max_bytes tb then Inr ()
     else if include_reserved then Inl (Backpressure ''buffer would exceed limit (currently, reserved)'')
     else Inl (Backpressure ''buffer would exceed limit (currently)''))"

definition ensure_generation_available :: "'b TableBuffer \<Rightarrow> generation \<Rightarrow> unit teo_result" where
  "ensure_generation_available tb generation =
    (if generation = 0 \<or> generation = u64_max
     then Inl (WriteProtocol (tb_ident tb) ''writer-local generation space is exhausted'')
     else Inr ())"

text \<open>\<open>generation.checked_add(1).expect(..)\<close>: every caller has excluded the maximal generation.\<close>

definition admit_entry ::
    "'b TableBuffer \<Rightarrow> 'b BufferState \<Rightarrow> 'b BufferEntry \<Rightarrow> 'b BufferState \<times> InsertOk" where
  "admit_entry tb state entry =
    (let state' = state\<lparr>bs_pending := bs_pending state @ [entry],
           bs_pending_bytes := bs_pending_bytes state + be_byte_size entry,
           bs_next_gen := max (bs_next_gen state) (be_generation entry + 1)\<rparr>
     in (state', \<lparr>io_generation = be_generation entry,
           io_backpressure_signal =
             bs_pending_bytes state' + bs_in_flight_bytes state' > tb_soft_watermark_bytes tb\<rparr>))"

definition insert_batch ::
    "'b batch_ops \<Rightarrow> int \<Rightarrow> uuid \<Rightarrow> 'b \<Rightarrow> 'b TableBuffer \<Rightarrow> 'b TableBuffer \<times> InsertOk teo_result" where
  "insert_batch B now batch_id batch tb =
    (let byte_size = batch_byte_size B batch; state = tb_state tb in
     case bind_r (ensure_capacity tb state byte_size False) (\<lambda>_.
       ensure_generation_available tb (bs_next_gen state)) of
       Inl e \<Rightarrow> (tb, Inl e)
     | Inr _ \<Rightarrow>
         let (state', inserted) = admit_entry tb state
           \<lparr>be_batch_id = batch_id, be_generation = bs_next_gen state, be_created_at_ms = now,
            be_batch = batch, be_byte_size = byte_size\<rparr>
         in (tb\<lparr>tb_state := state'\<rparr>, Inr inserted))"

definition reserve ::
    "'b batch_ops \<Rightarrow> 'b \<Rightarrow> 'b TableBuffer \<Rightarrow> 'b TableBuffer \<times> Reservation teo_result" where
  "reserve B batch tb =
    (let byte_size = batch_byte_size B batch; state = tb_state tb in
     case bs_flush_state state of
       Blocked blocked \<Rightarrow>
         (tb, Inl (FlushBlocked (tb_ident tb) (pf_commit_id (bf_prepared blocked))))
     | _ \<Rightarrow>
        (case bind_r (ensure_capacity tb state byte_size True) (\<lambda>_.
           ensure_generation_available tb (bs_next_gen state)) of
           Inl e \<Rightarrow> (tb, Inl e)
         | Inr _ \<Rightarrow>
             let generation = bs_next_gen state in
             (tb\<lparr>tb_state := state\<lparr>bs_next_gen := generation + 1,
                bs_reserved_bytes := bs_reserved_bytes state + byte_size,
                bs_reserved_generations := al_put generation byte_size (bs_reserved_generations state)\<rparr>\<rparr>,
              Inr \<lparr>rv_generation = generation, rv_byte_size = byte_size\<rparr>)))"

definition take_reservation :: "generation \<Rightarrow> 'b BufferState \<Rightarrow> 'b BufferState" where
  "take_reservation generation state =
    (case map_of (bs_reserved_generations state) generation of
       None \<Rightarrow> state
     | Some byte_size \<Rightarrow>
         state\<lparr>bs_reserved_generations := al_del generation (bs_reserved_generations state),
               bs_reserved_bytes := bs_reserved_bytes state - byte_size\<rparr>)"

definition release_reservation :: "Reservation \<Rightarrow> 'b TableBuffer \<Rightarrow> 'b TableBuffer" where
  "release_reservation reservation tb =
    tb\<lparr>tb_state := take_reservation (rv_generation reservation) (tb_state tb)\<rparr>"

definition insert_reserved_at ::
    "'b batch_ops \<Rightarrow> uuid \<Rightarrow> Reservation \<Rightarrow> int \<Rightarrow> 'b \<Rightarrow> 'b TableBuffer \<Rightarrow> 'b TableBuffer \<times> InsertOk" where
  "insert_reserved_at B batch_id reservation created_at_ms batch tb =
    (let state = take_reservation (rv_generation reservation) (tb_state tb);
         (state', inserted) = admit_entry tb state
           \<lparr>be_batch_id = batch_id, be_generation = rv_generation reservation,
            be_created_at_ms = created_at_ms, be_batch = batch, be_byte_size = batch_byte_size B batch\<rparr>
     in (tb\<lparr>tb_state := state'\<rparr>, inserted))"

definition insert_with_generation_at ::
    "'b batch_ops \<Rightarrow> uuid \<Rightarrow> generation \<Rightarrow> int \<Rightarrow> 'b \<Rightarrow> 'b TableBuffer \<Rightarrow> 'b TableBuffer \<times> InsertOk teo_result" where
  "insert_with_generation_at B batch_id generation created_at_ms batch tb =
    (let byte_size = batch_byte_size B batch; state = tb_state tb in
     case bind_r (ensure_capacity tb state byte_size False) (\<lambda>_. ensure_generation_available tb generation) of
       Inl e \<Rightarrow> (tb, Inl e)
     | Inr _ \<Rightarrow>
         let (state', inserted) = admit_entry tb state
           \<lparr>be_batch_id = batch_id, be_generation = generation, be_created_at_ms = created_at_ms,
            be_batch = batch, be_byte_size = byte_size\<rparr>
         in (tb\<lparr>tb_state := state'\<rparr>, Inr inserted))"

definition snapshot_for_query :: "nat \<Rightarrow> 'b TableBuffer \<Rightarrow> 'b BufferSnapshot" where
  "snapshot_for_query now tb =
    (let state = tb_state tb in
     \<lparr>qs_committed_high_water = bs_committed_high_water state,
      qs_batches = bs_pending state @ bs_in_flight state @
        concat (map snd (filter (\<lambda>(at, _). now - at \<le> tb_committed_grace tb) (bs_recently_committed state)))\<rparr>)"

definition lowest_reserved :: "'b BufferState \<Rightarrow> generation option" where
  "lowest_reserved state =
    (case map fst (bs_reserved_generations state) of [] \<Rightarrow> None | ks \<Rightarrow> Some (min_list ks))"

definition entry_bytes :: "'b BufferEntry list \<Rightarrow> nat" where
  "entry_bytes es = sum_list (map be_byte_size es)"

definition drain_pending_to_in_flight :: "'b TableBuffer \<Rightarrow> 'b TableBuffer \<times> 'b BufferEntry list" where
  "drain_pending_to_in_flight tb =
    (let state = tb_state tb in
     if bs_in_flight state \<noteq> [] then (tb, bs_in_flight state)
     else if bs_pending state = [] then (tb, [])
     else
       let (drained, remaining) = partition (\<lambda>e.
             case lowest_reserved state of None \<Rightarrow> True | Some r \<Rightarrow> be_generation e < r) (bs_pending state)
       in if drained = []
          then (tb\<lparr>tb_state := state\<lparr>bs_pending := remaining, bs_pending_bytes := entry_bytes remaining\<rparr>\<rparr>, [])
          else (tb\<lparr>tb_state := state\<lparr>bs_pending := remaining, bs_in_flight := drained,
                  bs_in_flight_bytes := entry_bytes drained, bs_pending_bytes := entry_bytes remaining\<rparr>\<rparr>,
                drained))"

definition gen_min :: "'b BufferEntry list \<Rightarrow> generation option" where
  "gen_min es = (case map be_generation es of [] \<Rightarrow> None | gs \<Rightarrow> Some (min_list gs))"

definition gen_max :: "'b BufferEntry list \<Rightarrow> generation option" where
  "gen_max es = (case map be_generation es of [] \<Rightarrow> None | gs \<Rightarrow> Some (max_list gs))"

definition set_prepared :: "PreparedFlush \<Rightarrow> 'b TableBuffer \<Rightarrow> 'b TableBuffer \<times> unit teo_result" where
  "set_prepared prepared tb =
    (let state = tb_state tb in
     if gen_min (bs_in_flight state) \<noteq> Some (gr_lo (pf_generations prepared))
        \<or> gen_max (bs_in_flight state) \<noteq> Some (gr_hi (pf_generations prepared))
        \<or> pf_table_uuid prepared \<noteq> table_uuid tb
     then (tb, Inl (WriteProtocol (tb_ident tb) ''prepared range does not match in-flight range''))
     else (case bs_flush_state state of
         Idle \<Rightarrow> (tb\<lparr>tb_state := state\<lparr>bs_flush_state := Prepared prepared\<rparr>\<rparr>, Inr ())
       | Prepared existing \<Rightarrow>
           if prepared_eq existing prepared then (tb, Inr ())
           else (tb, Inl (WriteProtocol (tb_ident tb) ''a different prepared flush already owns this table''))
       | Blocked existing \<Rightarrow>
           if prepared_eq (bf_prepared existing) prepared then (tb, Inr ())
           else (tb, Inl (WriteProtocol (tb_ident tb) ''a different prepared flush already owns this table''))))"

definition restore_prepared :: "PreparedFlush \<Rightarrow> 'b TableBuffer \<Rightarrow> 'b TableBuffer \<times> unit teo_result" where
  "restore_prepared prepared tb =
    (let state = tb_state tb in
     if bs_in_flight state \<noteq> []
     then (tb, Inl (WriteProtocol (tb_ident tb) ''cannot restore prepared intent over existing in-flight entries''))
     else if gr_hi (pf_generations prepared) \<le> bs_committed_high_water state
     then (tb\<lparr>tb_state := state\<lparr>bs_flush_state := Prepared prepared\<rparr>\<rparr>, Inr ())
     else
       let (restored, remaining) =
             partition (\<lambda>e. range_contains (pf_generations prepared) (be_generation e)) (bs_pending state)
       in if gen_min restored \<noteq> Some (gr_lo (pf_generations prepared))
             \<or> gen_max restored \<noteq> Some (gr_hi (pf_generations prepared))
          then
            let pending = sort_key be_generation (restored @ remaining) in
            (tb\<lparr>tb_state := state\<lparr>bs_pending := pending, bs_pending_bytes := entry_bytes pending\<rparr>\<rparr>,
             Inl (WriteProtocol (tb_ident tb) ''prepared sidecar range is not fully represented in WAL''))
          else
            (tb\<lparr>tb_state := state\<lparr>bs_in_flight_bytes := entry_bytes restored,
               bs_pending_bytes := entry_bytes remaining, bs_in_flight := restored,
               bs_pending := remaining, bs_flush_state := Prepared prepared\<rparr>\<rparr>, Inr ()))"

definition prepared_flush :: "'b TableBuffer \<Rightarrow> PreparedFlush option" where
  "prepared_flush tb =
    (case bs_flush_state (tb_state tb) of
       Prepared p \<Rightarrow> Some p | Blocked b \<Rightarrow> Some (bf_prepared b) | Idle \<Rightarrow> None)"

definition blocked_flush :: "'b TableBuffer \<Rightarrow> BlockedFlush option" where
  "blocked_flush tb = (case bs_flush_state (tb_state tb) of Blocked b \<Rightarrow> Some b | _ \<Rightarrow> None)"

definition mark_flush_blocked_with_class ::
    "int \<Rightarrow> PreparedFlush \<Rightarrow> string \<Rightarrow> string \<Rightarrow> nat \<Rightarrow> 'b TableBuffer \<Rightarrow> 'b TableBuffer \<times> unit teo_result" where
  "mark_flush_blocked_with_class now prepared last_error last_error_class status_check_attempts tb =
    (let state = tb_state tb;
         block = (\<lambda>since. tb\<lparr>tb_state := state\<lparr>bs_flush_state := Blocked
           \<lparr>bf_prepared = prepared, bf_since_ms = since, bf_last_error = last_error,
            bf_last_error_class = last_error_class, bf_status_check_attempts = status_check_attempts,
            bf_last_recheck_ms = now\<rparr>\<rparr>\<rparr>);
         refuse = (tb, Inl (WriteProtocol (tb_ident tb) ''cannot block a flush that does not own prepared state''))
     in case bs_flush_state state of
          Prepared existing \<Rightarrow> if prepared_eq existing prepared then (block now, Inr ()) else refuse
        | Blocked existing \<Rightarrow>
            if prepared_eq (bf_prepared existing) prepared then (block (bf_since_ms existing), Inr ()) else refuse
        | Idle \<Rightarrow> refuse)"

definition mark_flush_blocked ::
    "int \<Rightarrow> PreparedFlush \<Rightarrow> string \<Rightarrow> nat \<Rightarrow> 'b TableBuffer \<Rightarrow> 'b TableBuffer \<times> unit teo_result" where
  "mark_flush_blocked now prepared last_error status_check_attempts tb =
    mark_flush_blocked_with_class now prepared last_error ''commit_status_unknown'' status_check_attempts tb"

definition mark_blocked_recheck :: "int \<Rightarrow> string \<Rightarrow> nat \<Rightarrow> 'b TableBuffer \<Rightarrow> 'b TableBuffer" where
  "mark_blocked_recheck now last_error attempts tb =
    (case bs_flush_state (tb_state tb) of
       Blocked blocked \<Rightarrow>
         tb\<lparr>tb_state := (tb_state tb)\<lparr>bs_flush_state := Blocked (blocked\<lparr>bf_last_error := last_error,
           bf_last_error_class := ''commit_status_unknown'', bf_status_check_attempts := attempts,
           bf_last_recheck_ms := now\<rparr>)\<rparr>\<rparr>
     | _ \<Rightarrow> tb)"

definition mark_committed ::
    "nat \<Rightarrow> generation \<Rightarrow> TableMetadata \<Rightarrow> 'b TableBuffer \<Rightarrow> 'b TableBuffer \<times> unit teo_result" where
  "mark_committed now gen_hi new_metadata tb =
    (let state = tb_state tb; actual_hi = gen_max (bs_in_flight state) in
     if (case actual_hi of None \<Rightarrow> False | Some hi \<Rightarrow> hi \<noteq> gen_hi)
     then (tb, Inl (WriteProtocol (tb_ident tb) ''flush completion generation does not match in-flight high generation''))
     else if actual_hi = None \<and> gen_hi > bs_committed_high_water state
     then (tb, Inl (WriteProtocol (tb_ident tb) ''flush completion has no matching in-flight entries''))
     else
       let committed = bs_in_flight state;
           recently = (if tb_committed_grace tb \<noteq> 0 \<and> committed \<noteq> []
             then bs_recently_committed state @ [(now, committed)] else bs_recently_committed state)
       in (tb\<lparr>tb_state := state\<lparr>bs_in_flight := [],
              bs_recently_committed := filter (\<lambda>(at, _). now - at \<le> tb_committed_grace tb) recently,
              bs_in_flight_bytes := 0,
              bs_committed_high_water := max (bs_committed_high_water state) gen_hi,
              bs_flush_state := Idle\<rparr>,
            tb_metadata := new_metadata\<rparr>, Inr ()))"

definition merge_in_flight_back_to_pending :: "'b BufferState \<Rightarrow> 'b BufferState" where
  "merge_in_flight_back_to_pending state =
    state\<lparr>bs_in_flight := [], bs_pending := bs_in_flight state @ bs_pending state,
      bs_pending_bytes := bs_pending_bytes state + bs_in_flight_bytes state, bs_in_flight_bytes := 0\<rparr>"

definition rollback_unprepared_flush :: "'b TableBuffer \<Rightarrow> 'b TableBuffer \<times> unit teo_result" where
  "rollback_unprepared_flush tb =
    (if bs_flush_state (tb_state tb) \<noteq> Idle
     then (tb, Inl (WriteProtocol (tb_ident tb) ''cannot roll back an unprepared flush while a prepared owner exists''))
     else (tb\<lparr>tb_state := merge_in_flight_back_to_pending (tb_state tb)\<rparr>, Inr ()))"

definition mark_flush_failed :: "PreparedFlush \<Rightarrow> 'b TableBuffer \<Rightarrow> 'b TableBuffer \<times> unit teo_result" where
  "mark_flush_failed prepared tb =
    (let owns_state = (case bs_flush_state (tb_state tb) of
           Prepared existing \<Rightarrow> prepared_eq existing prepared
         | Blocked existing \<Rightarrow> prepared_eq (bf_prepared existing) prepared
         | Idle \<Rightarrow> False)
     in if \<not> owns_state
        then (tb, Inl (WriteProtocol (tb_ident tb) ''cannot fail a flush that does not own prepared state''))
        else (tb\<lparr>tb_state := (merge_in_flight_back_to_pending (tb_state tb))\<lparr>bs_flush_state := Idle\<rparr>\<rparr>, Inr ()))"

definition refresh_metadata :: "TableMetadata \<Rightarrow> 'b TableBuffer \<Rightarrow> 'b TableBuffer" where
  "refresh_metadata new_metadata tb = tb\<lparr>tb_metadata := new_metadata\<rparr>"

definition committed_high_water :: "'b TableBuffer \<Rightarrow> generation" where
  "committed_high_water tb = bs_committed_high_water (tb_state tb)"

definition has_pending :: "'b TableBuffer \<Rightarrow> bool" where
  "has_pending tb \<longleftrightarrow> bs_pending (tb_state tb) \<noteq> [] \<or> bs_in_flight (tb_state tb) \<noteq> [] \<or>
    bs_flush_state (tb_state tb) \<noteq> Idle"

definition buffer_stats :: "'b TableBuffer \<Rightarrow> BufferStats" where
  "buffer_stats tb =
    (let state = tb_state tb in
     \<lparr>st_pending_bytes = bs_pending_bytes state, st_in_flight_bytes = bs_in_flight_bytes state,
      st_recently_committed_bytes = entry_bytes (concat (map snd (bs_recently_committed state))),
      st_reserved_bytes = bs_reserved_bytes state, st_pending_entries = length (bs_pending state),
      st_in_flight_entries = length (bs_in_flight state),
      st_oldest_uncommitted_created_at_ms =
        (case map be_created_at_ms (bs_pending state @ bs_in_flight state) of
           [] \<Rightarrow> None | ts \<Rightarrow> Some (min_list ts))\<rparr>)"

definition unflushed_stats :: "'b batch_ops \<Rightarrow> 'b TableBuffer \<Rightarrow> EvictionStats" where
  "unflushed_stats B tb =
    (let state = tb_state tb in
     \<lparr>es_rows = sum_list (map (bo_num_rows B \<circ> be_batch) (bs_pending state @ bs_in_flight state)),
      es_entries = length (bs_pending state) + length (bs_in_flight state),
      es_bytes = bs_pending_bytes state + bs_in_flight_bytes state\<rparr>)"

end
