(* ===== verification/Table_Buffer_Sound.thy ===== *)
theory Table_Buffer_Sound
  imports Table_Buffer "HOL-Library.Multiset"
begin

text \<open>Correctness of the hot buffer: a state invariant preserved by every operation (byte accounting, the memory
  bound, distinct generations above the watermark, ownership of the in-flight set), and the exactness of
  the committed watermark over every sequence of operations.\<close>

section \<open>The invariant\<close>

definition live_gens :: "'b BufferState \<Rightarrow> generation list" where
  "live_gens st = map be_generation (bs_pending st) @ map be_generation (bs_in_flight st) @
    map fst (bs_reserved_generations st)"

definition bytes_ok :: "'b BufferState \<Rightarrow> bool" where
  "bytes_ok st \<longleftrightarrow> bs_pending_bytes st = entry_bytes (bs_pending st) \<and>
    bs_in_flight_bytes st = entry_bytes (bs_in_flight st) \<and>
    bs_reserved_bytes st = sum_list (map snd (bs_reserved_generations st))"

definition cap_ok :: "nat \<Rightarrow> 'b BufferState \<Rightarrow> bool" where
  "cap_ok max_bytes st \<longleftrightarrow> bs_pending_bytes st + bs_in_flight_bytes st + bs_reserved_bytes st \<le> max_bytes"

definition gens_ok :: "'b BufferState \<Rightarrow> bool" where
  "gens_ok st \<longleftrightarrow> distinct (live_gens st) \<and>
    (\<forall>g \<in> set (live_gens st). bs_committed_high_water st < g \<and> g < bs_next_gen st) \<and>
    bs_next_gen st \<le> u64_max \<and>
    (bs_committed_high_water st < bs_next_gen st \<or> bs_next_gen st = u64_max) \<and>
    (\<forall>e \<in> set (bs_in_flight st). \<forall>g \<in> be_generation ` set (bs_pending st) \<union> fst ` set (bs_reserved_generations st).
      be_generation e < g)"

definition owns :: "PreparedFlush \<Rightarrow> 'b BufferState \<Rightarrow> bool" where
  "owns p st \<longleftrightarrow>
    gen_min (bs_in_flight st) = Some (gr_lo (pf_generations p)) \<and> gen_max (bs_in_flight st) = Some (gr_hi (pf_generations p))
    \<or> bs_in_flight st = [] \<and> gr_hi (pf_generations p) \<le> bs_committed_high_water st"

definition owner_ok :: "'b BufferState \<Rightarrow> bool" where
  "owner_ok st \<longleftrightarrow> (case bs_flush_state st of Idle \<Rightarrow> True | Prepared p \<Rightarrow> owns p st | Blocked b \<Rightarrow> owns (bf_prepared b) st)"

definition buf_inv :: "'b TableBuffer \<Rightarrow> bool" where
  "buf_inv tb \<longleftrightarrow> bytes_ok (tb_state tb) \<and> cap_ok (tb_max_bytes tb) (tb_state tb) \<and> gens_ok (tb_state tb) \<and>
    owner_ok (tb_state tb)"

lemmas [buffer_simps] = live_gens_def bytes_ok_def cap_ok_def gens_ok_def owner_ok_def buf_inv_def

section \<open>Helpers\<close>

lemma entry_bytes_simps [simp]:
  "entry_bytes [] = 0" "entry_bytes (es @ fs) = entry_bytes es + entry_bytes fs" "entry_bytes [e] = be_byte_size e"
  by (simp_all add: entry_bytes_def)

lemma entry_bytes_partition: "entry_bytes (filter P es) + entry_bytes (filter (\<lambda>e. \<not> P e) es) = entry_bytes es"
  by (induction es) (auto simp: entry_bytes_def)

lemma al_put_fresh: "k \<notin> fst ` set m \<Longrightarrow> al_put k v m = m @ [(k, v)]"
  by (induction m) auto

lemma sum_al_del:
  fixes m :: "('k \<times> nat) list"
  shows "distinct (map fst m) \<Longrightarrow> map_of m k = Some v \<Longrightarrow> sum_list (map snd m) = v + sum_list (map snd (al_del k m))"
proof (induction m)
  case (Cons p m)
  have "al_del (fst p) m = m" if "fst p \<notin> fst ` set m"
    unfolding al_del_def using that by (intro filter_True) (metis imageI)
  then show ?case using Cons by (cases p) (auto simp: al_del_def split: if_splits)
qed simp

lemma map_fst_al_del: "map fst (al_del k m) = filter (\<lambda>g. g \<noteq> k) (map fst m)"
  by (induction m) (auto simp: al_del_def)

lemma set_al_del: "set (al_del k m) = {p \<in> set m. fst p \<noteq> k}"
  by (auto simp: al_del_def)

lemma gen_max_Some: "gen_max es = Some g \<longleftrightarrow> es \<noteq> [] \<and> g = max_list (map be_generation es)"
  by (auto simp: gen_max_def split: list.splits)

lemma gen_max_bound: "gen_max es = Some g \<Longrightarrow> (\<forall>e \<in> set es. be_generation e \<le> g) \<and> g \<in> be_generation ` set es"
  using max_list_ge[of _ "map be_generation es"] max_list_in[of "map be_generation es"]
  by (auto simp: gen_max_Some)

lemma gen_max_None [simp]: "gen_max es = None \<longleftrightarrow> es = []"
  by (auto simp: gen_max_def split: list.splits)

lemma lowest_reserved_bound:
  assumes "lowest_reserved st = Some r" "g \<in> fst ` set (bs_reserved_generations st)"
  shows "r \<le> g"
proof -
  have ne: "map fst (bs_reserved_generations st) \<noteq> []" using assms(2) by auto
  then have "r = min_list (map fst (bs_reserved_generations st))"
    using assms(1) by (auto simp: lowest_reserved_def split: list.splits)
  then have "r = Min (fst ` set (bs_reserved_generations st))" using min_list_Min[OF ne] by simp
  then show ?thesis using assms(2) by simp
qed

lemma lowest_reserved_None: "lowest_reserved st = None \<longleftrightarrow> bs_reserved_generations st = []"
  by (auto simp: lowest_reserved_def split: list.splits)

section \<open>Every operation keeps the invariant\<close>

lemma new_inv: "buf_inv (TableBuffer_new ident m c max_bytes soft)"
  by (auto simp: TableBuffer_new_def buffer_simps)

lemma grace_inv [simp]: "buf_inv (with_committed_grace g tb) \<longleftrightarrow> buf_inv tb"
  by (simp add: with_committed_grace_def buffer_simps)

text \<open>Admission of a generation that is new, above the watermark and above everything in flight.\<close>

lemma admit_sel [simp]:
  "bs_pending (fst (admit_entry tb st e)) = bs_pending st @ [e]"
  "bs_in_flight (fst (admit_entry tb st e)) = bs_in_flight st"
  "bs_reserved_generations (fst (admit_entry tb st e)) = bs_reserved_generations st"
  "bs_pending_bytes (fst (admit_entry tb st e)) = bs_pending_bytes st + be_byte_size e"
  "bs_in_flight_bytes (fst (admit_entry tb st e)) = bs_in_flight_bytes st"
  "bs_reserved_bytes (fst (admit_entry tb st e)) = bs_reserved_bytes st"
  "bs_next_gen (fst (admit_entry tb st e)) = max (bs_next_gen st) (Suc (be_generation e))"
  "bs_committed_high_water (fst (admit_entry tb st e)) = bs_committed_high_water st"
  "bs_flush_state (fst (admit_entry tb st e)) = bs_flush_state st"
  "bs_recently_committed (fst (admit_entry tb st e)) = bs_recently_committed st"
  "io_generation (snd (admit_entry tb st e)) = be_generation e"
  by (simp_all add: admit_entry_def Let_def)

lemma gens_okI:
  assumes "distinct (live_gens st)" "\<And>g. g \<in> set (live_gens st) \<Longrightarrow> bs_committed_high_water st < g"
    "\<And>g. g \<in> set (live_gens st) \<Longrightarrow> g < bs_next_gen st" "bs_next_gen st \<le> u64_max"
    "bs_committed_high_water st < bs_next_gen st \<or> bs_next_gen st = u64_max"
    "\<And>e g. e \<in> set (bs_in_flight st) \<Longrightarrow> g \<in> be_generation ` set (bs_pending st) \<Longrightarrow> be_generation e < g"
    "\<And>e g. e \<in> set (bs_in_flight st) \<Longrightarrow> g \<in> fst ` set (bs_reserved_generations st) \<Longrightarrow> be_generation e < g"
  shows "gens_ok st"
  using assms unfolding gens_ok_def by blast

lemma gens_okD:
  assumes "gens_ok st"
  shows "distinct (live_gens st)" "\<And>g. g \<in> set (live_gens st) \<Longrightarrow> bs_committed_high_water st < g"
    "\<And>g. g \<in> set (live_gens st) \<Longrightarrow> g < bs_next_gen st" "bs_next_gen st \<le> u64_max"
    "bs_committed_high_water st < bs_next_gen st \<or> bs_next_gen st = u64_max"
    "\<And>e f. e \<in> set (bs_in_flight st) \<Longrightarrow> f \<in> set (bs_pending st) \<Longrightarrow> be_generation e < be_generation f"
    "\<And>e g. e \<in> set (bs_in_flight st) \<Longrightarrow> g \<in> fst ` set (bs_reserved_generations st) \<Longrightarrow> be_generation e < g"
  using assms unfolding gens_ok_def by blast+

lemma owner_cong:
  assumes "bs_in_flight st' = bs_in_flight st" "bs_committed_high_water st' = bs_committed_high_water st"
    "bs_flush_state st' = bs_flush_state st"
  shows "owner_ok st' \<longleftrightarrow> owner_ok st"
  using assms by (simp add: owner_ok_def owns_def split: TableFlushState.split)

lemma admit_gens:
  assumes ok: "gens_ok st" and e: "be_generation e \<notin> set (live_gens st)" "bs_committed_high_water st < be_generation e"
    "be_generation e < u64_max" "\<forall>f \<in> set (bs_in_flight st). be_generation f < be_generation e"
  shows "gens_ok (fst (admit_entry tb st e))" (is "gens_ok ?st")
proof (rule gens_okI)
  have lg: "set (live_gens ?st) = insert (be_generation e) (set (live_gens st))" by (auto simp: live_gens_def)
  show "distinct (live_gens ?st)" using gens_okD(1)[OF ok] e(1) by (auto simp: live_gens_def)
  show "bs_committed_high_water ?st < g" if "g \<in> set (live_gens ?st)" for g
    using that gens_okD(2)[OF ok] e(2) unfolding lg by auto
  show "g < bs_next_gen ?st" if "g \<in> set (live_gens ?st)" for g
    using that gens_okD(3)[OF ok] unfolding lg by (auto simp: less_max_iff_disj)
  show "bs_next_gen ?st \<le> u64_max" using gens_okD(4)[OF ok] e(3) by simp
  show "bs_committed_high_water ?st < bs_next_gen ?st \<or> bs_next_gen ?st = u64_max" using e(2) by (simp add: less_max_iff_disj)
  show "be_generation f < g" if "f \<in> set (bs_in_flight ?st)" "g \<in> be_generation ` set (bs_pending ?st)" for f g
    using that gens_okD(6)[OF ok] e(4) by auto
  show "be_generation f < g" if "f \<in> set (bs_in_flight ?st)" "g \<in> fst ` set (bs_reserved_generations ?st)" for f g
    using that gens_okD(7)[OF ok] by auto
qed

lemma admit_inv:
  assumes "bytes_ok st" "gens_ok st" "owner_ok st"
    and "be_generation e \<notin> set (live_gens st)" "bs_committed_high_water st < be_generation e"
    and "be_generation e < u64_max" "\<forall>f \<in> set (bs_in_flight st). be_generation f < be_generation e"
  shows "bytes_ok (fst (admit_entry tb st e)) \<and> gens_ok (fst (admit_entry tb st e)) \<and> owner_ok (fst (admit_entry tb st e))"
  using assms admit_gens[OF assms(2,4-7)] owner_cong[of "fst (admit_entry tb st e)" st]
  by (simp add: bytes_ok_def)

lemma admit_cap:
  "cap_ok m (fst (admit_entry tb st e)) \<longleftrightarrow>
    bs_pending_bytes st + bs_in_flight_bytes st + bs_reserved_bytes st + be_byte_size e \<le> m"
  by (simp add: cap_ok_def add.commute add.left_commute)

lemma next_gen_fresh:
  assumes "gens_ok st" "bs_next_gen st \<noteq> u64_max"
  shows "bs_next_gen st \<notin> set (live_gens st)" "bs_committed_high_water st < bs_next_gen st" "bs_next_gen st < u64_max"
    "\<forall>f \<in> set (bs_in_flight st). be_generation f < bs_next_gen st"
  using gens_okD(3)[OF assms(1)] gens_okD(4,5)[OF assms(1)] assms(2) by (auto simp: live_gens_def)

lemma ensure_capacity_Inr: "ensure_capacity tb st n b = Inr () \<longleftrightarrow>
    (let total = bs_pending_bytes st + bs_in_flight_bytes st + bs_reserved_bytes st + n in total < u64_bound \<and> total \<le> tb_max_bytes tb)"
  by (auto simp: ensure_capacity_def Let_def)

lemma ensure_generation_Inr: "ensure_generation_available tb g = Inr () \<longleftrightarrow> g \<noteq> 0 \<and> g \<noteq> u64_max"
  by (auto simp: ensure_generation_available_def)

definition entry_for :: "'b batch_ops \<Rightarrow> uuid \<Rightarrow> generation \<Rightarrow> int \<Rightarrow> 'b \<Rightarrow> 'b BufferEntry" where
  "entry_for B i g now b = \<lparr>be_batch_id = i, be_generation = g, be_created_at_ms = now, be_batch = b,
     be_byte_size = batch_byte_size B b\<rparr>"

definition same_commits :: "'b TableBuffer \<Rightarrow> 'b TableBuffer \<Rightarrow> bool" where
  "same_commits tb tb' \<longleftrightarrow> committed_high_water tb' = committed_high_water tb \<and>
    bs_recently_committed (tb_state tb') = bs_recently_committed (tb_state tb)"

lemma same_commits_refl [simp]: "same_commits tb tb"
  by (simp add: same_commits_def)

lemma insert_batch_ok:
  assumes inv: "buf_inv tb" and ins: "insert_batch B now i b tb = (tb', Inr ok)"
  shows "buf_inv tb' \<and> bs_pending (tb_state tb') = bs_pending (tb_state tb) @ [entry_for B i (io_generation ok) now b] \<and>
    bs_in_flight (tb_state tb') = bs_in_flight (tb_state tb) \<and> same_commits tb tb'"
proof -
  define e where "e = \<lparr>be_batch_id = i, be_generation = bs_next_gen (tb_state tb), be_created_at_ms = now,
    be_batch = b, be_byte_size = batch_byte_size B b\<rparr>"
  have g: "bs_next_gen (tb_state tb) \<noteq> 0" "bs_next_gen (tb_state tb) \<noteq> u64_max"
    and c: "bs_pending_bytes (tb_state tb) + bs_in_flight_bytes (tb_state tb) + bs_reserved_bytes (tb_state tb) + be_byte_size e
      \<le> tb_max_bytes tb"
    and tb': "tb' = tb\<lparr>tb_state := fst (admit_entry tb (tb_state tb) e)\<rparr>" "ok = snd (admit_entry tb (tb_state tb) e)"
    using ins by (auto simp: insert_batch_def Let_def e_def[symmetric] ensure_capacity_Inr ensure_generation_Inr
        split: sum.splits prod.splits) (simp_all add: e_def)
  have go: "gens_ok (tb_state tb)" using inv by (simp add: buf_inv_def)
  have "bytes_ok (tb_state tb')" "gens_ok (tb_state tb')" "owner_ok (tb_state tb')"
    using admit_inv[of "tb_state tb" e tb] inv next_gen_fresh[OF go g(2)] by (simp_all add: tb' buf_inv_def e_def)
  moreover have "cap_ok (tb_max_bytes tb') (tb_state tb')" using c by (simp add: tb' admit_cap)
  ultimately show ?thesis by (simp add: buf_inv_def tb' admit_entry_def same_commits_def committed_high_water_def) (simp add: e_def entry_for_def)
qed


subsection \<open>Reservations\<close>

lemma reserve_ok:
  assumes inv: "buf_inv tb" and r: "reserve B b tb = (tb', r)"
  shows "buf_inv tb' \<and> bs_pending (tb_state tb') = bs_pending (tb_state tb) \<and>
    bs_in_flight (tb_state tb') = bs_in_flight (tb_state tb) \<and> same_commits tb tb'"
proof (cases r)
  case (Inl e)
  then have "tb' = tb" using r by (auto simp: reserve_def Let_def split: TableFlushState.splits sum.splits)
  then show ?thesis using inv by simp
next
  case (Inr rv)
  let ?st = "tb_state tb"
  let ?g = "bs_next_gen ?st" and ?n = "batch_byte_size B b"
  have ok: "bytes_ok ?st" "gens_ok ?st" "owner_ok ?st" using inv by (auto simp: buf_inv_def)
  have g: "?g \<noteq> u64_max"
    and c: "bs_pending_bytes ?st + bs_in_flight_bytes ?st + bs_reserved_bytes ?st + ?n \<le> tb_max_bytes tb"
    and tb': "tb' = tb\<lparr>tb_state := ?st\<lparr>bs_next_gen := ?g + 1, bs_reserved_bytes := bs_reserved_bytes ?st + ?n,
      bs_reserved_generations := al_put ?g ?n (bs_reserved_generations ?st)\<rparr>\<rparr>"
    using r Inr by (auto simp: reserve_def Let_def ensure_capacity_Inr ensure_generation_Inr
        split: TableFlushState.splits sum.splits)
  note fresh = next_gen_fresh[OF ok(2) g]
  have "?g \<notin> fst ` set (bs_reserved_generations ?st)" using fresh(1) by (simp add: live_gens_def)
  then have put: "al_put ?g ?n (bs_reserved_generations ?st) = bs_reserved_generations ?st @ [(?g, ?n)]" by (rule al_put_fresh)
  let ?st' = "tb_state tb'"
  have lg: "set (live_gens ?st') = insert ?g (set (live_gens ?st))" by (auto simp: tb' live_gens_def put)
  have "gens_ok ?st'"
  proof (rule gens_okI)
    show "distinct (live_gens ?st')" using gens_okD(1)[OF ok(2)] fresh(1) by (auto simp: tb' live_gens_def put)
    show "bs_committed_high_water ?st' < g" if "g \<in> set (live_gens ?st')" for g
      using that gens_okD(2)[OF ok(2)] fresh(2) unfolding lg by (auto simp: tb')
    show "g < bs_next_gen ?st'" if "g \<in> set (live_gens ?st')" for g
      using that gens_okD(3)[OF ok(2)] unfolding lg by (auto simp: tb' less_Suc_eq)
    show "bs_next_gen ?st' \<le> u64_max" using fresh(3) by (simp add: tb')
    show "bs_committed_high_water ?st' < bs_next_gen ?st' \<or> bs_next_gen ?st' = u64_max" using fresh(2) by (simp add: tb')
    show "be_generation f < h" if "f \<in> set (bs_in_flight ?st')" "h \<in> be_generation ` set (bs_pending ?st')" for f h
      using that gens_okD(6)[OF ok(2)] by (auto simp: tb')
    show "be_generation f < h" if "f \<in> set (bs_in_flight ?st')" "h \<in> fst ` set (bs_reserved_generations ?st')" for f h
      using that gens_okD(7)[OF ok(2)] fresh(4) by (auto simp: tb' put)
  qed
  moreover have "bytes_ok ?st'" using ok(1) by (simp add: bytes_ok_def tb' put)
  moreover have "owner_ok ?st'" using ok(3) owner_cong[of ?st' ?st] by (simp add: tb')
  moreover have "cap_ok (tb_max_bytes tb') ?st'" using c by (simp add: cap_ok_def tb')
  ultimately show ?thesis by (simp add: buf_inv_def tb' same_commits_def committed_high_water_def)
qed

lemma take_reservation_sel [simp]:
  "bs_pending (take_reservation g st) = bs_pending st" "bs_in_flight (take_reservation g st) = bs_in_flight st"
  "bs_pending_bytes (take_reservation g st) = bs_pending_bytes st"
  "bs_in_flight_bytes (take_reservation g st) = bs_in_flight_bytes st"
  "bs_next_gen (take_reservation g st) = bs_next_gen st"
  "bs_committed_high_water (take_reservation g st) = bs_committed_high_water st"
  "bs_flush_state (take_reservation g st) = bs_flush_state st"
  "bs_recently_committed (take_reservation g st) = bs_recently_committed st"
  by (simp_all add: take_reservation_def split: option.split)

lemma take_reservation_reserved:
  "bs_reserved_generations (take_reservation g st) = al_del g (bs_reserved_generations st)"
proof (cases "map_of (bs_reserved_generations st) g")
  case None
  then have "\<forall>p \<in> set (bs_reserved_generations st). fst p \<noteq> g" by (auto simp: map_of_eq_None_iff)
  then show ?thesis using None by (simp add: take_reservation_def al_del_def)
qed (simp add: take_reservation_def)

lemma live_gens_take: "set (live_gens (take_reservation g st)) \<subseteq> set (live_gens st)"
  by (auto simp: live_gens_def take_reservation_reserved set_al_del)

lemma reserved_distinct: "gens_ok st \<Longrightarrow> distinct (map fst (bs_reserved_generations st))"
  by (auto simp: gens_ok_def live_gens_def)

lemma take_reservation_ok:
  assumes "bytes_ok st" "gens_ok st" "owner_ok st"
  shows "bytes_ok (take_reservation g st)" "gens_ok (take_reservation g st)" "owner_ok (take_reservation g st)"
proof -
  show "owner_ok (take_reservation g st)" using owner_cong[of "take_reservation g st" st] assms(3) by simp
  show "bytes_ok (take_reservation g st)"
    using assms(1) sum_al_del[OF reserved_distinct[OF assms(2)], of g]
    by (auto simp: bytes_ok_def take_reservation_def split: option.split)
  show "gens_ok (take_reservation g st)"
  proof (rule gens_okI)
    show "distinct (live_gens (take_reservation g st))"
      using gens_okD(1)[OF assms(2)] by (auto simp: live_gens_def take_reservation_reserved map_fst_al_del)
    show "bs_committed_high_water (take_reservation g st) < h" if "h \<in> set (live_gens (take_reservation g st))" for h
      using that live_gens_take gens_okD(2)[OF assms(2)] by fastforce
    show "h < bs_next_gen (take_reservation g st)" if "h \<in> set (live_gens (take_reservation g st))" for h
      using that live_gens_take gens_okD(3)[OF assms(2)] by fastforce
    show "bs_next_gen (take_reservation g st) \<le> u64_max" using gens_okD(4)[OF assms(2)] by simp
    show "bs_committed_high_water (take_reservation g st) < bs_next_gen (take_reservation g st) \<or>
        bs_next_gen (take_reservation g st) = u64_max" using gens_okD(5)[OF assms(2)] by simp
    show "be_generation f < h" if "f \<in> set (bs_in_flight (take_reservation g st))"
        "h \<in> be_generation ` set (bs_pending (take_reservation g st))" for f h
      using that gens_okD(6)[OF assms(2)] by auto
    show "be_generation f < h" if "f \<in> set (bs_in_flight (take_reservation g st))"
        "h \<in> fst ` set (bs_reserved_generations (take_reservation g st))" for f h
      using that gens_okD(7)[OF assms(2)] by (auto simp: take_reservation_reserved set_al_del)
  qed
qed

lemma take_reservation_bytes: "bs_reserved_bytes (take_reservation g st) \<le> bs_reserved_bytes st"
  by (simp add: take_reservation_def split: option.split)

lemma release_ok:
  assumes "buf_inv tb"
  shows "buf_inv (release_reservation rv tb)"
  using assms take_reservation_ok[of "tb_state tb" "rv_generation rv"]
    take_reservation_bytes[of "rv_generation rv" "tb_state tb"]
  by (simp add: buf_inv_def release_reservation_def cap_ok_def)

text \<open>A live reservation for this batch: the reserved generation is in the table with the size of the batch.\<close>

definition reservation_live :: "'b batch_ops \<Rightarrow> 'b \<Rightarrow> Reservation \<Rightarrow> 'b TableBuffer \<Rightarrow> bool" where
  "reservation_live B b rv tb \<longleftrightarrow>
    map_of (bs_reserved_generations (tb_state tb)) (rv_generation rv) = Some (batch_byte_size B b)"

lemma insert_reserved_ok:
  assumes inv: "buf_inv tb" and live: "reservation_live B b rv tb"
    and ins: "insert_reserved_at B i rv now b tb = (tb', ok)"
  shows "buf_inv tb' \<and> bs_pending (tb_state tb') = bs_pending (tb_state tb) @ [entry_for B i (rv_generation rv) now b] \<and>
    bs_in_flight (tb_state tb') = bs_in_flight (tb_state tb) \<and> same_commits tb tb'"
proof -
  let ?st = "tb_state tb" and ?g = "rv_generation rv"
  let ?st1 = "take_reservation ?g ?st"
  define e where "e = \<lparr>be_batch_id = i, be_generation = ?g, be_created_at_ms = now, be_batch = b,
    be_byte_size = batch_byte_size B b\<rparr>"
  have tb': "tb' = tb\<lparr>tb_state := fst (admit_entry tb ?st1 e)\<rparr>"
    using ins by (auto simp: insert_reserved_at_def Let_def e_def[symmetric] split: prod.splits)
  have ok: "bytes_ok ?st" "gens_ok ?st" "owner_ok ?st" "cap_ok (tb_max_bytes tb) ?st" using inv by (auto simp: buf_inv_def)
  have mem: "?g \<in> fst ` set (bs_reserved_generations ?st)"
    using live by (force simp: reservation_live_def dest: map_of_SomeD)
  have lg: "?g \<in> set (live_gens ?st)" using mem by (auto simp: live_gens_def)
  have "?g \<notin> set (live_gens ?st1)"
    using mem gens_okD(1)[OF ok(2)] by (auto simp: live_gens_def take_reservation_reserved set_al_del)
  moreover have "bs_committed_high_water ?st1 < ?g" using gens_okD(2)[OF ok(2) lg] by simp
  moreover have "?g < u64_max" using gens_okD(3)[OF ok(2) lg] gens_okD(4)[OF ok(2)] by simp
  moreover have "\<forall>f \<in> set (bs_in_flight ?st1). be_generation f < ?g" using gens_okD(7)[OF ok(2) _ mem] by simp
  ultimately have "bytes_ok (tb_state tb') \<and> gens_ok (tb_state tb') \<and> owner_ok (tb_state tb')"
    using admit_inv[OF take_reservation_ok[OF ok(1-3)], of e ?g tb] by (simp add: tb' e_def)
  moreover have "bs_reserved_bytes ?st1 + batch_byte_size B b \<le> bs_reserved_bytes ?st"
    using live ok(1) sum_al_del[OF reserved_distinct[OF ok(2)]]
    by (simp add: reservation_live_def take_reservation_def bytes_ok_def)
  then have "cap_ok (tb_max_bytes tb') (tb_state tb')" using ok(4) by (simp add: tb' admit_cap cap_ok_def e_def)
  ultimately show ?thesis by (simp add: buf_inv_def tb' same_commits_def committed_high_water_def) (simp add: e_def entry_for_def)
qed

lemma insert_with_generation_ok:
  assumes inv: "buf_inv tb" and empty: "bs_in_flight (tb_state tb) = []"
    and g: "committed_high_water tb < g" "g \<notin> set (live_gens (tb_state tb))" "g < u64_bound"
    and ins: "insert_with_generation_at B i g now b tb = (tb', Inr ok)"
  shows "buf_inv tb' \<and> bs_pending (tb_state tb') = bs_pending (tb_state tb) @ [entry_for B i g now b] \<and>
    bs_in_flight (tb_state tb') = bs_in_flight (tb_state tb) \<and> same_commits tb tb'"
proof -
  define e where "e = \<lparr>be_batch_id = i, be_generation = g, be_created_at_ms = now, be_batch = b,
    be_byte_size = batch_byte_size B b\<rparr>"
  let ?st = "tb_state tb"
  have tb': "tb' = tb\<lparr>tb_state := fst (admit_entry tb ?st e)\<rparr>" and "g \<noteq> u64_max"
    and c: "bs_pending_bytes ?st + bs_in_flight_bytes ?st + bs_reserved_bytes ?st + be_byte_size e \<le> tb_max_bytes tb"
    using ins by (auto simp: insert_with_generation_at_def Let_def e_def[symmetric] ensure_capacity_Inr ensure_generation_Inr
        split: sum.splits prod.splits) (simp_all add: e_def)
  then have "g < u64_max" using g(3) by (simp add: less_u64_bound_iff)
  then have "bytes_ok (tb_state tb') \<and> gens_ok (tb_state tb') \<and> owner_ok (tb_state tb')"
    using admit_inv[of ?st e tb] inv g empty by (simp add: tb' buf_inv_def e_def committed_high_water_def)
  moreover have "cap_ok (tb_max_bytes tb') (tb_state tb')" using c by (simp add: tb' admit_cap)
  ultimately show ?thesis by (simp add: buf_inv_def tb' same_commits_def committed_high_water_def) (simp add: e_def entry_for_def)
qed


subsection \<open>Flush transitions\<close>

lemma gens_rearrange:
  assumes ok: "gens_ok st" and lg: "mset (live_gens st') = mset (live_gens st)"
    and same: "bs_next_gen st' = bs_next_gen st" "bs_committed_high_water st' = bs_committed_high_water st"
    and ord: "\<And>e f. e \<in> set (bs_in_flight st') \<Longrightarrow> f \<in> set (bs_pending st') \<Longrightarrow> be_generation e < be_generation f"
      "\<And>e g. e \<in> set (bs_in_flight st') \<Longrightarrow> g \<in> fst ` set (bs_reserved_generations st') \<Longrightarrow> be_generation e < g"
  shows "gens_ok st'"
proof (rule gens_okI)
  have s: "set (live_gens st') = set (live_gens st)" using lg by (rule mset_eq_setD)
  show "distinct (live_gens st')" using gens_okD(1)[OF ok] mset_eq_imp_distinct_iff[OF lg] by simp
  show "bs_committed_high_water st' < g" if "g \<in> set (live_gens st')" for g
    using that gens_okD(2)[OF ok] unfolding s same by simp
  show "g < bs_next_gen st'" if "g \<in> set (live_gens st')" for g
    using that gens_okD(3)[OF ok] unfolding s same by simp
  show "bs_next_gen st' \<le> u64_max" using gens_okD(4)[OF ok] same by simp
  show "bs_committed_high_water st' < bs_next_gen st' \<or> bs_next_gen st' = u64_max" using gens_okD(5)[OF ok] same by simp
  show "be_generation e < g" if "e \<in> set (bs_in_flight st')" "g \<in> be_generation ` set (bs_pending st')" for e g
    using that ord(1) by blast
  show "be_generation e < g" if "e \<in> set (bs_in_flight st')" "g \<in> fst ` set (bs_reserved_generations st')" for e g
    using that ord(2) by blast
qed

definition unflushed :: "'b TableBuffer \<Rightarrow> 'b BufferEntry multiset" where
  "unflushed tb = mset (bs_pending (tb_state tb)) + mset (bs_in_flight (tb_state tb))"

lemma mset_split: "mset (filter P xs) + mset (filter (\<lambda>x. \<not> P x) xs) = mset xs"
  by (induction xs) auto

lemma entry_bytes_perm: "mset es = mset fs \<Longrightarrow> entry_bytes es = entry_bytes fs"
  unfolding entry_bytes_def by (metis mset_map sum_mset_sum_list)

lemma mset_map_split: "mset (map f (filter P xs)) + mset (map f (filter (\<lambda>x. \<not> P x) xs)) = mset (map f xs)"
  by (induction xs) auto

lemma live_gens_split:
  assumes "bs_pending st' = filter (\<lambda>e. \<not> P e) (bs_pending st)" "bs_in_flight st' = filter P (bs_pending st)"
    "bs_reserved_generations st' = bs_reserved_generations st" "bs_in_flight st = []"
  shows "mset (live_gens st') = mset (live_gens st)"
  using mset_map_split[of be_generation P "bs_pending st", symmetric]
  by (simp add: live_gens_def assms ac_simps del: mset_map mset_filter)

text \<open>What a step that neither inserts nor commits guarantees.\<close>

definition silent :: "'b TableBuffer \<Rightarrow> 'b TableBuffer \<Rightarrow> bool" where
  "silent tb tb' \<longleftrightarrow> buf_inv tb' \<and> unflushed tb' = unflushed tb \<and> same_commits tb tb'"

lemma silent_refl [simp]: "silent tb tb \<longleftrightarrow> buf_inv tb"
  by (simp add: silent_def same_commits_def)

lemma drain_ok:
  assumes inv: "buf_inv tb" and idle: "bs_flush_state (tb_state tb) = Idle \<or> bs_in_flight (tb_state tb) \<noteq> []"
    and d: "drain_pending_to_in_flight tb = (tb', es)"
  shows "silent tb tb' \<and> es = bs_in_flight (tb_state tb')"
proof -
  let ?st = "tb_state tb"
  have ok: "bytes_ok ?st" "gens_ok ?st" "owner_ok ?st" "cap_ok (tb_max_bytes tb) ?st" using inv by (auto simp: buf_inv_def)
  define P :: "'a BufferEntry \<Rightarrow> bool"
    where "P = (\<lambda>e. case lowest_reserved ?st of None \<Rightarrow> True | Some r \<Rightarrow> be_generation e < r)"
  let ?P = P
  let ?D = "filter P (bs_pending ?st)" and ?R = "filter (\<lambda>e. \<not> P e) (bs_pending ?st)"
  have low: "P e \<longleftrightarrow> (\<forall>r. lowest_reserved ?st = Some r \<longrightarrow> be_generation e < r)" for e by (simp add: P_def split: option.split)
  define T2 where "T2 = tb\<lparr>tb_state := ?st\<lparr>bs_pending := ?R, bs_pending_bytes := entry_bytes ?R\<rparr>\<rparr>"
  define T3 where "T3 = tb\<lparr>tb_state := ?st\<lparr>bs_pending := ?R, bs_in_flight := ?D,
    bs_in_flight_bytes := entry_bytes ?D, bs_pending_bytes := entry_bytes ?R\<rparr>\<rparr>"
  have step: "drain_pending_to_in_flight tb = (if bs_in_flight ?st \<noteq> [] then (tb, bs_in_flight ?st)
     else if bs_pending ?st = [] then (tb, []) else if ?D = [] then (T2, []) else (T3, ?D))"
    unfolding drain_pending_to_in_flight_def Let_def partition_filter_conv prod.case comp_def P_def T2_def T3_def by (rule refl)
  consider "tb' = tb" "es = bs_in_flight ?st" | "bs_in_flight ?st = []" "?D = []" "es = []" "tb' = T2"
    | "bs_in_flight ?st = []" "es = ?D" "tb' = T3"
    using d unfolding step by (auto split: if_splits)
  then show ?thesis
  proof cases
    case 1
    then show ?thesis using inv by simp
  next
    case 2
    then have "?R = bs_pending ?st" by (metis (no_types, lifting) filter_True filter_empty_conv)
    then have "tb' = tb" using 2(4) ok(1) by (simp add: bytes_ok_def T2_def)
    then show ?thesis using 2 inv by simp
  next
    case 3
    note 3 = 3[unfolded T3_def]
    let ?st' = "tb_state tb'"
    have "gens_ok ?st'"
    proof (rule gens_rearrange[OF ok(2)])
      show "mset (live_gens ?st') = mset (live_gens ?st)" by (rule live_gens_split[where P = P]) (simp_all add: 3)
      show "be_generation e < be_generation f" if "e \<in> set (bs_in_flight ?st')" "f \<in> set (bs_pending ?st')" for e f
        using that by (auto simp: 3 low not_less)
      show "be_generation e < g" if "e \<in> set (bs_in_flight ?st')" "g \<in> fst ` set (bs_reserved_generations ?st')" for e g
      proof (cases "lowest_reserved ?st")
        case None
        then show ?thesis using that lowest_reserved_None[of ?st] by (simp add: 3)
      next
        case (Some r)
        then have "be_generation e < r" "r \<le> g" using that lowest_reserved_bound[of ?st r g] by (auto simp: 3 low)
        then show ?thesis by simp
      qed
    qed (simp_all add: 3)
    moreover have "bytes_ok ?st'" using ok(1) by (simp add: bytes_ok_def 3)
    moreover have "cap_ok (tb_max_bytes tb') ?st'"
      using ok(1,4) entry_bytes_partition[of ?P "bs_pending ?st"] 3(1) by (simp add: cap_ok_def bytes_ok_def 3)
    moreover have "owner_ok ?st'" using idle 3(1) by (simp add: owner_ok_def 3(3))
    ultimately have "buf_inv tb'" by (simp add: buf_inv_def)
    moreover have "unflushed tb' = unflushed tb"
      using mset_split[of ?P "bs_pending ?st"] 3(1) by (simp add: unflushed_def 3(3) add.commute)
    ultimately show ?thesis by (simp add: silent_def same_commits_def committed_high_water_def 3)
  qed
qed

text \<open>Steps that only change the flush state.\<close>

lemma flush_state_step:
  assumes "buf_inv tb" "owner_ok ((tb_state tb)\<lparr>bs_flush_state := fs\<rparr>)"
  shows "silent tb (tb\<lparr>tb_state := (tb_state tb)\<lparr>bs_flush_state := fs\<rparr>\<rparr>)"
  using assms by (auto simp: silent_def same_commits_def buf_inv_def unflushed_def committed_high_water_def bytes_ok_def cap_ok_def
      gens_ok_def live_gens_def)

lemma set_prepared_ok:
  assumes inv: "buf_inv tb" and s: "set_prepared p tb = (tb', r)"
  shows "silent tb tb' \<and> (r = Inr () \<longrightarrow> (\<exists>q. prepared_flush tb' = Some q \<and> (q = p \<or> prepared_eq q p)))"
proof (cases "gen_min (bs_in_flight (tb_state tb)) \<noteq> Some (gr_lo (pf_generations p))
    \<or> gen_max (bs_in_flight (tb_state tb)) \<noteq> Some (gr_hi (pf_generations p)) \<or> pf_table_uuid p \<noteq> table_uuid tb")
  case True
  then have "tb' = tb" "r \<noteq> Inr ()" using s unfolding set_prepared_def Let_def by auto
  then show ?thesis using inv by simp
next
  case False
  then have own: "owner_ok ((tb_state tb)\<lparr>bs_flush_state := Prepared p\<rparr>)" by (simp add: owner_ok_def owns_def)
  show ?thesis
  proof (cases "bs_flush_state (tb_state tb)")
    case Idle
    then have "tb' = tb\<lparr>tb_state := (tb_state tb)\<lparr>bs_flush_state := Prepared p\<rparr>\<rparr>"
      using s False unfolding set_prepared_def Let_def by simp
    then show ?thesis using flush_state_step[OF inv own] by (simp add: prepared_flush_def)
  next
    case (Prepared q)
    then have "tb' = tb" "r = Inr () \<longrightarrow> prepared_eq q p"
      using s False unfolding set_prepared_def Let_def by (auto split: if_splits)
    then show ?thesis using inv Prepared by (simp add: prepared_flush_def)
  next
    case (Blocked b)
    then have "tb' = tb" "r = Inr () \<longrightarrow> prepared_eq (bf_prepared b) p"
      using s False unfolding set_prepared_def Let_def by (auto split: if_splits)
    then show ?thesis using inv Blocked by (simp add: prepared_flush_def)
  qed
qed

lemma block_ok:
  assumes "buf_inv tb" "mark_flush_blocked_with_class now p err cls n tb = (tb', r)"
    and eq: "\<And>q. prepared_eq q p \<Longrightarrow> pf_generations q = pf_generations p"
  shows "silent tb tb'"
proof -
  have own: "owner_ok ((tb_state tb)\<lparr>bs_flush_state := Blocked b\<rparr>)"
    if "bs_flush_state (tb_state tb) = Prepared q \<or> bs_flush_state (tb_state tb) = Blocked c \<and> bf_prepared c = q"
      "prepared_eq q p" "bf_prepared b = p" for b c q
    using that assms(1) eq[of q] by (auto simp: buf_inv_def owner_ok_def owns_def)
  show ?thesis
  proof (cases "bs_flush_state (tb_state tb)")
    case (Prepared q)
    then show ?thesis using assms(1,2) own[of q]
      by (auto simp: mark_flush_blocked_with_class_def split: if_splits intro!: flush_state_step)
  next
    case (Blocked c)
    then show ?thesis using assms(1,2) own[of "bf_prepared c" c]
      by (auto simp: mark_flush_blocked_with_class_def split: if_splits intro!: flush_state_step)
  qed (use assms in \<open>auto simp: mark_flush_blocked_with_class_def\<close>)
qed

lemma prepared_eq_generations: "prepared_eq q p \<Longrightarrow> pf_generations q = pf_generations p"
  by (cases q; cases p) (simp add: prepared_eq_def)

lemma recheck_ok: "buf_inv tb \<Longrightarrow> silent tb (mark_blocked_recheck now err n tb)"
  by (auto simp: mark_blocked_recheck_def buf_inv_def owner_ok_def owns_def split: TableFlushState.splits
      intro!: flush_state_step)

lemma merge_ok:
  assumes inv: "buf_inv tb"
  shows "silent tb (tb\<lparr>tb_state := (merge_in_flight_back_to_pending (tb_state tb))\<lparr>bs_flush_state := Idle\<rparr>\<rparr>)"
proof -
  let ?st = "tb_state tb"
  let ?st' = "(merge_in_flight_back_to_pending ?st)\<lparr>bs_flush_state := Idle\<rparr>"
  have ok: "bytes_ok ?st" "gens_ok ?st" "cap_ok (tb_max_bytes tb) ?st" using inv by (auto simp: buf_inv_def)
  have "gens_ok ?st'"
    by (rule gens_rearrange[OF ok(2)]) (auto simp: merge_in_flight_back_to_pending_def live_gens_def)
  then show ?thesis using ok
    by (simp add: silent_def same_commits_def buf_inv_def unflushed_def committed_high_water_def bytes_ok_def cap_ok_def owner_ok_def
        merge_in_flight_back_to_pending_def add.commute)
qed

lemma rollback_ok:
  assumes "buf_inv tb" "rollback_unprepared_flush tb = (tb', r)"
  shows "silent tb tb'"
proof (cases "bs_flush_state (tb_state tb) = Idle")
  case True
  then have "(merge_in_flight_back_to_pending (tb_state tb))\<lparr>bs_flush_state := Idle\<rparr> = merge_in_flight_back_to_pending (tb_state tb)"
    by (simp add: merge_in_flight_back_to_pending_def)
  then show ?thesis using merge_ok[OF assms(1)] assms(2) True by (simp add: rollback_unprepared_flush_def)
qed (use assms in \<open>auto simp: rollback_unprepared_flush_def\<close>)

lemma failed_ok:
  assumes "buf_inv tb" "mark_flush_failed p tb = (tb', r)"
  shows "silent tb tb'"
  using assms merge_ok[OF assms(1)] by (auto simp: mark_flush_failed_def Let_def split: if_splits)

text \<open>Restoring a sidecar at start-up: nothing is reserved yet and the replayed records start at its range.\<close>

lemma restore_ok:
  assumes inv: "buf_inv tb" and boot: "bs_reserved_generations (tb_state tb) = []"
    "\<forall>e \<in> set (bs_pending (tb_state tb)). gr_lo (pf_generations p) \<le> be_generation e"
    and r: "restore_prepared p tb = (tb', r)"
  shows "silent tb tb'"
proof -
  let ?st = "tb_state tb"
  let ?P = "\<lambda>e. range_contains (pf_generations p) (be_generation e)"
  let ?D = "filter ?P (bs_pending ?st)" and ?R = "filter (\<lambda>e. \<not> ?P e) (bs_pending ?st)"
  have ok: "bytes_ok ?st" "gens_ok ?st" "owner_ok ?st" "cap_ok (tb_max_bytes tb) ?st" using inv by (auto simp: buf_inv_def)
  have split: "mset ?D + mset ?R = mset (bs_pending ?st)" by (rule mset_split)
  let ?S = "sort_key be_generation (?D @ ?R)"
  have ms: "mset ?S = mset (bs_pending ?st)" using split by simp
  define T2 where "T2 = tb\<lparr>tb_state := ?st\<lparr>bs_flush_state := Prepared p\<rparr>\<rparr>"
  define T3 where "T3 = tb\<lparr>tb_state := ?st\<lparr>bs_pending := ?S, bs_pending_bytes := entry_bytes ?S\<rparr>\<rparr>"
  define T4 where "T4 = tb\<lparr>tb_state := ?st\<lparr>bs_in_flight_bytes := entry_bytes ?D, bs_pending_bytes := entry_bytes ?R,
    bs_in_flight := ?D, bs_pending := ?R, bs_flush_state := Prepared p\<rparr>\<rparr>"
  note step = restore_prepared_def[of p tb, unfolded Let_def partition_filter_conv prod.case comp_def,
      folded T2_def T3_def T4_def]
  consider "tb' = tb" | "bs_in_flight ?st = []" "gr_hi (pf_generations p) \<le> bs_committed_high_water ?st" "tb' = T2"
    | "bs_in_flight ?st = []" "tb' = T3"
    | "bs_in_flight ?st = []" "gen_min ?D = Some (gr_lo (pf_generations p))" "gen_max ?D = Some (gr_hi (pf_generations p))" "tb' = T4"
    using r unfolding step by (auto split: if_splits)
  then show ?thesis
  proof cases
    case 1
    then show ?thesis using inv by simp
  next
    case 2
    note 2 = 2[unfolded T2_def]
    show ?thesis unfolding 2(3) by (intro flush_state_step[OF inv]) (simp add: owner_ok_def owns_def 2(1,2))
  next
    case 3
    note 3 = 3[unfolded T3_def]
    have "entry_bytes ?S = entry_bytes (bs_pending ?st)" by (rule entry_bytes_perm[OF ms])
    moreover have "gens_ok (tb_state tb')"
      by (rule gens_rearrange[OF ok(2)])
        (use arg_cong[OF ms, of "image_mset be_generation"] in \<open>simp_all add: 3 live_gens_def boot\<close>)
    moreover have "owner_ok (tb_state tb')" using ok(3) owner_cong[of "tb_state tb'" ?st] by (simp add: 3(2))
    ultimately show ?thesis using ok ms
      by (simp add: silent_def same_commits_def buf_inv_def unflushed_def committed_high_water_def bytes_ok_def cap_ok_def 3(2))
  next
    case 4
    note 4 = 4[unfolded T4_def]
    have "gens_ok (tb_state tb')"
    proof (rule gens_rearrange[OF ok(2)])
      show "mset (live_gens (tb_state tb')) = mset (live_gens ?st)"
        by (rule live_gens_split[where P = "\<lambda>e. range_contains (pf_generations p) (be_generation e)"]) (simp_all add: 4)
      show "be_generation e < be_generation f" if "e \<in> set (bs_in_flight (tb_state tb'))" "f \<in> set (bs_pending (tb_state tb'))" for e f
        using that boot(2) by (auto simp: 4(4) range_contains_def)
    qed (simp_all add: 4 boot)
    moreover have "cap_ok (tb_max_bytes tb') (tb_state tb')"
      using ok(1,4) entry_bytes_partition[of ?P "bs_pending ?st"] 4(1) by (simp add: cap_ok_def bytes_ok_def 4(4))
    ultimately show ?thesis using ok(1) split 4(1-3)
      by (simp add: silent_def same_commits_def buf_inv_def unflushed_def committed_high_water_def bytes_ok_def owner_ok_def owns_def 4(4) add.commute)
  qed
qed

lemma commit_ok:
  assumes inv: "buf_inv tb" and c: "mark_committed now hi m tb = (tb', Inr ())"
  shows "buf_inv tb' \<and> mset (bs_in_flight (tb_state tb)) + unflushed tb' = unflushed tb \<and>
    committed_high_water tb' = max (committed_high_water tb) hi \<and>
    (\<forall>e \<in> set (bs_in_flight (tb_state tb)). be_generation e \<le> hi) \<and>
    (\<forall>e \<in># unflushed tb'. hi < be_generation e)"
proof -
  let ?st = "tb_state tb"
  have ok: "bytes_ok ?st" "gens_ok ?st" "cap_ok (tb_max_bytes tb) ?st" using inv by (auto simp: buf_inv_def)
  obtain rc where tb': "tb' = tb\<lparr>tb_state := ?st\<lparr>bs_in_flight := [], bs_recently_committed := rc, bs_in_flight_bytes := 0,
      bs_committed_high_water := max (bs_committed_high_water ?st) hi, bs_flush_state := Idle\<rparr>, tb_metadata := m\<rparr>"
    using c by (auto simp: mark_committed_def Let_def split: if_splits)
  have hi: "gen_max (bs_in_flight ?st) = Some hi \<or> bs_in_flight ?st = [] \<and> hi \<le> bs_committed_high_water ?st"
    using c by (auto simp: mark_committed_def Let_def split: if_splits option.splits)
  have le: "be_generation e \<le> hi" if "e \<in> set (bs_in_flight ?st)" for e using hi that gen_max_bound by force
  have above: "hi < g" if "g \<in> be_generation ` set (bs_pending ?st) \<union> fst ` set (bs_reserved_generations ?st)" for g
    using hi
  proof
    assume "gen_max (bs_in_flight ?st) = Some hi"
    then obtain f where "f \<in> set (bs_in_flight ?st)" "be_generation f = hi" using gen_max_bound by blast
    then show ?thesis using that gens_okD(6,7)[OF ok(2)] by blast
  next
    assume "bs_in_flight ?st = [] \<and> hi \<le> bs_committed_high_water ?st"
    moreover have "bs_committed_high_water ?st < g" using that by (intro gens_okD(2)[OF ok(2)]) (auto simp: live_gens_def)
    ultimately show ?thesis by simp
  qed
  have "gens_ok (tb_state tb')"
  proof (rule gens_okI)
    have lg: "set (live_gens (tb_state tb')) = be_generation ` set (bs_pending ?st) \<union> fst ` set (bs_reserved_generations ?st)"
      by (simp add: tb' live_gens_def)
    have sub: "set (live_gens (tb_state tb')) \<subseteq> set (live_gens ?st)" unfolding lg by (auto simp: live_gens_def)
    show "distinct (live_gens (tb_state tb'))" using gens_okD(1)[OF ok(2)] by (auto simp: tb' live_gens_def)
    show "bs_committed_high_water (tb_state tb') < g" if "g \<in> set (live_gens (tb_state tb'))" for g
      using that above gens_okD(2)[OF ok(2)] sub unfolding lg by (simp add: tb') blast
    show "g < bs_next_gen (tb_state tb')" if "g \<in> set (live_gens (tb_state tb'))" for g
      using that gens_okD(3)[OF ok(2)] sub by (simp add: tb') blast
    show "bs_next_gen (tb_state tb') \<le> u64_max" using gens_okD(4)[OF ok(2)] by (simp add: tb')
    show "bs_committed_high_water (tb_state tb') < bs_next_gen (tb_state tb') \<or> bs_next_gen (tb_state tb') = u64_max"
    proof -
      have "hi < bs_next_gen ?st \<or> hi \<le> bs_committed_high_water ?st"
        using hi gen_max_bound[of "bs_in_flight ?st" hi] gens_okD(3)[OF ok(2)] by (auto simp: live_gens_def)
      then show ?thesis using gens_okD(5)[OF ok(2)] by (auto simp: tb' max_def)
    qed
  qed (simp_all add: tb')
  moreover have "bytes_ok (tb_state tb')" "cap_ok (tb_max_bytes tb') (tb_state tb')" "owner_ok (tb_state tb')"
    using ok(1,3) by (simp_all add: tb' bytes_ok_def cap_ok_def owner_ok_def)
  ultimately show ?thesis using le above
    by (simp add: buf_inv_def unflushed_def committed_high_water_def tb' add.commute)
qed

lemma refresh_ok: "buf_inv tb \<Longrightarrow> silent tb (refresh_metadata m tb)"
  by (simp add: silent_def same_commits_def refresh_metadata_def buf_inv_def unflushed_def committed_high_water_def)


section \<open>Histories\<close>

text \<open>One call on a table buffer, with the entries it inserts and the entries it commits. A reserved insert
  presents a reservation that is still held for a batch of the reserved size; a replayed insert happens before any flush, with a
  generation above the watermark that no other record has; a drain happens when no prepared flush is waiting; a
  sidecar is restored before any reservation, and its range starts at or below the replayed records.\<close>

inductive buf_step :: "'b batch_ops \<Rightarrow> 'b TableBuffer \<Rightarrow> 'b BufferEntry list \<Rightarrow> 'b BufferEntry list \<Rightarrow> 'b TableBuffer \<Rightarrow> bool"
  for B where
  bs_insert: "insert_batch B now i b tb = (tb', Inr ok) \<Longrightarrow> buf_step B tb [entry_for B i (io_generation ok) now b] [] tb'"
| bs_insert_err: "insert_batch B now i b tb = (tb', Inl e) \<Longrightarrow> buf_step B tb [] [] tb'"
| bs_reserve: "reserve B b tb = (tb', r) \<Longrightarrow> buf_step B tb [] [] tb'"
| bs_release: "buf_step B tb [] [] (release_reservation rv tb)"
| bs_insert_reserved: "reservation_live B b rv tb \<Longrightarrow> insert_reserved_at B i rv now b tb = (tb', ok) \<Longrightarrow>
    buf_step B tb [entry_for B i (rv_generation rv) now b] [] tb'"
| bs_replay: "bs_in_flight (tb_state tb) = [] \<Longrightarrow> committed_high_water tb < g \<Longrightarrow> g \<notin> set (live_gens (tb_state tb)) \<Longrightarrow>
    g < u64_bound \<Longrightarrow> insert_with_generation_at B i g now b tb = (tb', Inr ok) \<Longrightarrow>
    buf_step B tb [entry_for B i g now b] [] tb'"
| bs_replay_err: "insert_with_generation_at B i g now b tb = (tb', Inl e) \<Longrightarrow> buf_step B tb [] [] tb'"
| bs_drain: "bs_flush_state (tb_state tb) = Idle \<or> bs_in_flight (tb_state tb) \<noteq> [] \<Longrightarrow>
    drain_pending_to_in_flight tb = (tb', es) \<Longrightarrow> buf_step B tb [] [] tb'"
| bs_set_prepared: "set_prepared p tb = (tb', r) \<Longrightarrow> buf_step B tb [] [] tb'"
| bs_restore: "bs_reserved_generations (tb_state tb) = [] \<Longrightarrow>
    \<forall>e \<in> set (bs_pending (tb_state tb)). gr_lo (pf_generations p) \<le> be_generation e \<Longrightarrow>
    restore_prepared p tb = (tb', r) \<Longrightarrow> buf_step B tb [] [] tb'"
| bs_block: "mark_flush_blocked_with_class now' p err cls n tb = (tb', r) \<Longrightarrow> buf_step B tb [] [] tb'"
| bs_recheck: "buf_step B tb [] [] (mark_blocked_recheck now' err n tb)"
| bs_commit: "mark_committed at hi m tb = (tb', Inr ()) \<Longrightarrow> buf_step B tb [] (bs_in_flight (tb_state tb)) tb'"
| bs_commit_err: "mark_committed at hi m tb = (tb', Inl e) \<Longrightarrow> buf_step B tb [] [] tb'"
| bs_rollback: "rollback_unprepared_flush tb = (tb', r) \<Longrightarrow> buf_step B tb [] [] tb'"
| bs_failed: "mark_flush_failed p tb = (tb', r) \<Longrightarrow> buf_step B tb [] [] tb'"
| bs_refresh: "buf_step B tb [] [] (refresh_metadata m tb)"

inductive buf_run :: "'b batch_ops \<Rightarrow> 'b TableBuffer \<Rightarrow> 'b BufferEntry list \<Rightarrow> 'b BufferEntry list \<Rightarrow> 'b TableBuffer \<Rightarrow> bool"
  for B tb0 where
  br_start: "buf_run B tb0 [] [] tb0"
| br_step: "buf_run B tb0 ins com tb \<Longrightarrow> buf_step B tb i c tb' \<Longrightarrow> buf_run B tb0 (ins @ i) (com @ c) tb'"

definition recent_ok :: "'b TableBuffer \<Rightarrow> bool" where
  "recent_ok tb \<longleftrightarrow> (\<forall>p \<in> set (bs_recently_committed (tb_state tb)). \<forall>e \<in> set (snd p).
     be_generation e \<le> committed_high_water tb)"

definition hist_ok :: "'b TableBuffer \<Rightarrow> 'b BufferEntry list \<Rightarrow> 'b BufferEntry list \<Rightarrow> bool" where
  "hist_ok tb ins com \<longleftrightarrow> buf_inv tb \<and> recent_ok tb \<and> mset ins = mset com + unflushed tb \<and>
    (\<forall>e \<in> set com. be_generation e \<le> committed_high_water tb) \<and> distinct (map be_generation ins)"

lemma hist_ok_inv: "hist_ok tb ins com \<Longrightarrow> buf_inv tb"
  by (simp add: hist_ok_def)

lemma hist_silent: "hist_ok tb ins com \<Longrightarrow> silent tb tb' \<Longrightarrow> hist_ok tb' ins com"
  by (simp add: hist_ok_def silent_def same_commits_def recent_ok_def)

lemma unflushed_above: "buf_inv tb \<Longrightarrow> e \<in># unflushed tb \<Longrightarrow> committed_high_water tb < be_generation e"
  by (auto simp: buf_inv_def unflushed_def committed_high_water_def live_gens_def intro!: gens_okD(2)[of "tb_state tb"])

lemma hist_insert:
  assumes h: "hist_ok tb ins com" and new: "buf_inv tb' \<and> bs_pending (tb_state tb') = bs_pending (tb_state tb) @ [e] \<and>
    bs_in_flight (tb_state tb') = bs_in_flight (tb_state tb) \<and> same_commits tb tb'"
  shows "hist_ok tb' (ins @ [e]) com"
proof -
  have sc: "committed_high_water tb' = committed_high_water tb" using new by (simp add: same_commits_def)
  have un: "unflushed tb' = unflushed tb + {#e#}" using new by (simp add: unflushed_def)
  have ms: "mset ins = mset com + unflushed tb" using h by (simp add: hist_ok_def)
  have "be_generation e \<noteq> be_generation f" if "f \<in> set ins" for f
  proof -
    have "f \<in># mset com + unflushed tb" using that ms by (metis set_mset_mset)
    then consider "f \<in> set com" | "f \<in># unflushed tb" by auto
    then show ?thesis
    proof cases
      case 1
      then have "be_generation f \<le> committed_high_water tb" using h by (simp add: hist_ok_def)
      moreover have "committed_high_water tb' < be_generation e" using new un by (intro unflushed_above) auto
      ultimately show ?thesis using sc by simp
    next
      case 2
      have "distinct (live_gens (tb_state tb'))" using new by (simp add: buf_inv_def gens_ok_def)
      then show ?thesis using 2 new by (auto simp: live_gens_def unflushed_def image_iff)
    qed
  qed
  moreover have "recent_ok tb'" using h new by (simp add: hist_ok_def recent_ok_def same_commits_def)
  ultimately show ?thesis using h new sc un by (auto simp: hist_ok_def image_iff)
qed

lemma mark_committed_recent:
  assumes "mark_committed at hi m tb = (tb', Inr ())"
  shows "p \<in> set (bs_recently_committed (tb_state tb')) \<Longrightarrow>
    p \<in> set (bs_recently_committed (tb_state tb)) \<or> snd p = bs_in_flight (tb_state tb)"
  using assms by (auto simp: mark_committed_def Let_def split: if_splits)

lemma hist_commit:
  assumes h: "hist_ok tb ins com" and c: "mark_committed at hi m tb = (tb', Inr ())"
  shows "hist_ok tb' ins (com @ bs_in_flight (tb_state tb))"
proof -
  have inv: "buf_inv tb" using h by (simp add: hist_ok_def)
  note ok = commit_ok[OF inv c]
  have le: "committed_high_water tb \<le> committed_high_water tb'" "hi \<le> committed_high_water tb'" using ok by simp_all
  have "recent_ok tb'"
    unfolding recent_ok_def
  proof (intro ballI)
    fix p e assume p: "p \<in> set (bs_recently_committed (tb_state tb'))" "e \<in> set (snd p)"
    from mark_committed_recent[OF c p(1)] show "be_generation e \<le> committed_high_water tb'"
    proof
      assume "p \<in> set (bs_recently_committed (tb_state tb))"
      then have "be_generation e \<le> committed_high_water tb" using h p(2) by (auto simp: hist_ok_def recent_ok_def)
      then show ?thesis using le(1) by simp
    next
      assume "snd p = bs_in_flight (tb_state tb)"
      then have "be_generation e \<le> hi" using ok p(2) by simp
      then show ?thesis using le(2) by simp
    qed
  qed
  moreover have "mset ins = mset (com @ bs_in_flight (tb_state tb)) + unflushed tb'"
    using h conjunct1[OF conjunct2[OF ok]] by (simp add: hist_ok_def ac_simps)
  moreover have "be_generation e \<le> committed_high_water tb'" if "e \<in> set (com @ bs_in_flight (tb_state tb))" for e
    using that h ok le by (auto simp: hist_ok_def intro: order_trans)
  ultimately show ?thesis using h ok by (simp add: hist_ok_def)
qed

lemma error_keeps_buffer:
  "insert_batch B now i b tb = (tb', Inl e) \<Longrightarrow> tb' = tb"
  "insert_with_generation_at B i g now b tb = (tb', Inl e) \<Longrightarrow> tb' = tb"
  "mark_committed at hi m tb = (tb', Inl e) \<Longrightarrow> tb' = tb"
  by (auto simp: insert_batch_def insert_with_generation_at_def mark_committed_def Let_def split: sum.splits prod.splits if_splits)

lemma silent_same: "buf_inv tb' \<Longrightarrow> bs_pending (tb_state tb') = bs_pending (tb_state tb) \<Longrightarrow>
    bs_in_flight (tb_state tb') = bs_in_flight (tb_state tb) \<Longrightarrow> same_commits tb tb' \<Longrightarrow> silent tb tb'"
  by (simp add: silent_def unflushed_def)

lemma release_silent: "buf_inv tb \<Longrightarrow> silent tb (release_reservation rv tb)"
  by (rule silent_same) (use release_ok[of tb rv] in \<open>simp_all add: release_reservation_def same_commits_def committed_high_water_def\<close>)

lemma hist_step: "buf_step B tb i c tb' \<Longrightarrow> hist_ok tb ins com \<Longrightarrow> hist_ok tb' (ins @ i) (com @ c)"
proof (induction rule: buf_step.induct)
  case (bs_insert now i b tb tb' ok)
  show ?case using hist_insert[OF bs_insert(2) insert_batch_ok[OF _ bs_insert(1)]] bs_insert(2) by (simp add: hist_ok_inv)
next
  case (bs_reserve b tb tb' r)
  then have "silent tb tb'" using reserve_ok[OF hist_ok_inv bs_reserve(1)] silent_same by blast
  then show ?case using hist_silent[OF bs_reserve(2)] by simp
next
  case (bs_insert_reserved b rv tb i now tb' ok)
  show ?case using hist_insert[OF bs_insert_reserved(3) insert_reserved_ok[OF hist_ok_inv bs_insert_reserved(1,2)]] bs_insert_reserved(3)
    by simp
next
  case (bs_replay tb g i now b tb' ok)
  show ?case using hist_insert[OF bs_replay(6) insert_with_generation_ok[OF hist_ok_inv bs_replay(1-5)]] bs_replay(6) by simp
next
  case (bs_commit at hi m tb tb')
  then show ?case using hist_commit by simp
next
  case (bs_drain tb tb' es)
  then show ?case using hist_silent[of tb ins com tb'] drain_ok[of tb tb' es] by (simp add: hist_ok_inv)
next
  case (bs_set_prepared p tb tb' r)
  then show ?case using hist_silent[of tb ins com tb'] set_prepared_ok[of tb p tb' r] by (simp add: hist_ok_inv)
next
  case (bs_restore tb p tb' r)
  then show ?case using hist_silent[of tb ins com tb'] restore_ok[of tb p tb' r] by (simp add: hist_ok_inv)
next
  case (bs_block now' p err cls n tb tb' r)
  then show ?case
    using hist_silent[of tb ins com tb'] block_ok[OF _ bs_block(1) prepared_eq_generations] by (simp add: hist_ok_inv)
next
  case (bs_rollback tb tb' r)
  then show ?case using hist_silent[of tb ins com tb'] rollback_ok[of tb tb' r] by (simp add: hist_ok_inv)
next
  case (bs_failed p tb tb' r)
  then show ?case using hist_silent[of tb ins com tb'] failed_ok[of tb p tb' r] by (simp add: hist_ok_inv)
next
  case (bs_release tb rv)
  then show ?case using hist_silent[OF bs_release release_silent] by (simp add: hist_ok_inv)
next
  case (bs_recheck tb now' err n)
  then show ?case using hist_silent[OF bs_recheck recheck_ok] by (simp add: hist_ok_inv)
next
  case (bs_refresh tb m)
  then show ?case using hist_silent[OF bs_refresh refresh_ok] by (simp add: hist_ok_inv)
qed (simp_all, metis error_keeps_buffer(1), metis error_keeps_buffer(2), metis error_keeps_buffer(3))

lemma hist_run:
  "buf_run B (TableBuffer_new ident m c max_bytes soft) ins com tb \<Longrightarrow> hist_ok tb ins com"
proof (induction rule: buf_run.induct)
  case br_start
  then show ?case using new_inv by (auto simp: hist_ok_def recent_ok_def unflushed_def TableBuffer_new_def)
qed (rule hist_step)


section \<open>Properties\<close>

lemma max_bytes_same:
  "buf_step B tb i c tb' \<Longrightarrow> tb_max_bytes tb' = tb_max_bytes tb"
proof (induction rule: buf_step.induct)
  case (bs_drain tb tb' es)
  then show ?case by (auto simp: drain_pending_to_in_flight_def Let_def split: if_splits prod.splits)
next
  case (bs_restore tb p tb' r)
  then show ?case by (auto simp: restore_prepared_def Let_def split: if_splits prod.splits)
next
  case (bs_commit at hi m tb tb')
  then show ?case by (auto simp: mark_committed_def Let_def split: if_splits)
next
  case (bs_commit_err at hi m tb tb' e)
  then show ?case by (auto dest: error_keeps_buffer)
next
  case (bs_failed p tb tb' r)
  then show ?case by (auto simp: mark_flush_failed_def Let_def split: if_splits)
qed (auto simp: insert_batch_def reserve_def insert_reserved_at_def insert_with_generation_at_def release_reservation_def
    set_prepared_def mark_flush_blocked_with_class_def mark_blocked_recheck_def rollback_unprepared_flush_def
    refresh_metadata_def Let_def split: if_splits prod.splits sum.splits TableFlushState.splits)

lemma max_bytes_run: "buf_run B tb0 ins com tb \<Longrightarrow> tb_max_bytes tb = tb_max_bytes tb0"
  by (induction rule: buf_run.induct) (simp_all add: max_bytes_same)

lemma filter_mset_none: "(\<And>x. x \<in># M \<Longrightarrow> \<not> P x) \<Longrightarrow> filter_mset P M = {#}"
  by (induction M) auto

lemma filter_mset_all: "(\<And>x. x \<in># M \<Longrightarrow> P x) \<Longrightarrow> filter_mset P M = M"
  by (induction M) auto

lemma filter_snapshot:
  assumes "hist_ok tb ins com"
  shows "filter_mset (\<lambda>e. committed_high_water tb < be_generation e) (mset (qs_batches (snapshot_for_query now tb))) = unflushed tb"
proof -
  let ?rc = "concat (map snd (filter (\<lambda>(at, _). now - at \<le> tb_committed_grace tb) (bs_recently_committed (tb_state tb))))"
  have "be_generation e \<le> committed_high_water tb" if "e \<in> set ?rc" for e
    using that assms by (fastforce simp: hist_ok_def recent_ok_def)
  then have "filter_mset (\<lambda>e. committed_high_water tb < be_generation e) (mset ?rc) = {#}"
    by (intro filter_mset_none) (auto simp: not_less)
  moreover have "filter_mset (\<lambda>e. committed_high_water tb < be_generation e) (unflushed tb) = unflushed tb"
    using unflushed_above[OF hist_ok_inv[OF assms]] by (intro filter_mset_all) blast
  moreover have "mset (qs_batches (snapshot_for_query now tb)) = unflushed tb + mset ?rc"
    by (simp add: snapshot_for_query_def Let_def unflushed_def)
  ultimately show ?thesis by simp
qed

text \<open>Property C4. Exactness of the committed watermark. After any sequence of calls on a fresh table buffer
  (inserts, reservations, replayed inserts, drains, prepared, restored, blocked, committed, failed and rolled-back
  flushes, in any order), no two accepted entries share a generation; the entries that were committed are exactly the
  accepted entries at or below the watermark (\<open>committed_high_water\<close>), so advancing the durable checkpoint
  to it never skips an accepted entry; and the entries of a query snapshot above its watermark are exactly the accepted
  entries above it, each once, so nothing accepted is lost or read twice next to the committed table.\<close>

theorem watermark_exact:
  assumes "buf_run B (TableBuffer_new ident m c max_bytes soft) ins com tb"
  shows "distinct (map be_generation ins) \<and>
    mset com = mset (filter (\<lambda>e. be_generation e \<le> committed_high_water tb) ins) \<and>
    mset (filter (\<lambda>e. be_generation e > qs_committed_high_water (snapshot_for_query now tb)) (qs_batches (snapshot_for_query now tb)))
      = mset (filter (\<lambda>e. be_generation e > committed_high_water tb) ins)"
proof -
  have h: "hist_ok tb ins com" using hist_run[OF assms] .
  then have ms: "mset ins = mset com + unflushed tb" and le: "\<forall>e \<in> set com. be_generation e \<le> committed_high_water tb"
    by (simp_all add: hist_ok_def)
  have above: "\<forall>e \<in># unflushed tb. committed_high_water tb < be_generation e" using unflushed_above[OF hist_ok_inv[OF h]] by blast
  have "filter_mset (\<lambda>e. be_generation e \<le> committed_high_water tb) (mset com) = mset com"
    "filter_mset (\<lambda>e. be_generation e \<le> committed_high_water tb) (unflushed tb) = {#}"
    "filter_mset (\<lambda>e. committed_high_water tb < be_generation e) (mset com) = {#}"
    "filter_mset (\<lambda>e. committed_high_water tb < be_generation e) (unflushed tb) = unflushed tb"
    using le above by (auto intro!: filter_mset_all filter_mset_none simp: not_less not_le)
  then have "mset com = mset (filter (\<lambda>e. be_generation e \<le> committed_high_water tb) ins)"
    "mset (filter (\<lambda>e. committed_high_water tb < be_generation e) ins) = unflushed tb"
    by (simp_all add: ms)
  moreover have "qs_committed_high_water (snapshot_for_query now tb) = committed_high_water tb"
    by (simp add: snapshot_for_query_def Let_def committed_high_water_def)
  ultimately show ?thesis using h filter_snapshot[OF h] by (simp add: hist_ok_def)
qed

text \<open>Property C11. Bounded memory and consistent accounting. After any sequence of calls on a fresh table buffer the
  byte counters equal the sizes of the entries they stand for, and pending, in-flight and reserved bytes together never exceed
  \<open>max_bytes\<close>; generations stay inside the 64-bit range; and a prepared or blocked flush owns exactly the generation
  range in flight, or a range that the watermark already covers.\<close>

theorem buffer_bounded:
  assumes "buf_run B (TableBuffer_new ident m c max_bytes soft) ins com tb"
  shows "st_pending_bytes (buffer_stats tb) = sum_list (map be_byte_size (bs_pending (tb_state tb))) \<and>
    st_in_flight_bytes (buffer_stats tb) = sum_list (map be_byte_size (bs_in_flight (tb_state tb))) \<and>
    st_pending_bytes (buffer_stats tb) + st_in_flight_bytes (buffer_stats tb) + st_reserved_bytes (buffer_stats tb) \<le> max_bytes \<and>
    (\<forall>e \<in># unflushed tb. be_generation e < u64_bound) \<and>
    (\<forall>p. prepared_flush tb = Some p \<longrightarrow> owns p (tb_state tb))"
proof -
  have inv: "buf_inv tb" using hist_ok_inv[OF hist_run[OF assms]] .
  have mb: "tb_max_bytes tb = max_bytes" using max_bytes_run[OF assms] by (simp add: TableBuffer_new_def)
  have "be_generation e < u64_bound" if "e \<in># unflushed tb" for e
  proof -
    have "be_generation e < bs_next_gen (tb_state tb)" "bs_next_gen (tb_state tb) \<le> u64_max"
      using inv that gens_okD(3,4)[of "tb_state tb"] by (auto simp: buf_inv_def unflushed_def live_gens_def)
    then show ?thesis by (simp add: less_u64_bound_iff)
  qed
  then show ?thesis using inv mb
    by (auto simp: buf_inv_def bytes_ok_def cap_ok_def owner_ok_def buffer_stats_def Let_def entry_bytes_def prepared_flush_def
        split: TableFlushState.splits)
qed

text \<open>A buffer that accepts two batches, flushes the first and keeps the second.\<close>

definition demo_batch_ops :: "nat batch_ops" where
  "demo_batch_ops = \<lparr>bo_column_bytes = (\<lambda>n. [n, n]), bo_num_rows = (\<lambda>n. n)\<rparr>"

definition demo_buffer :: "nat TableBuffer" where
  "demo_buffer = TableBuffer_new (TableIdent_new ''ns'' ''t'') demo_metadata 0 100 50"

definition demo_buffer_end :: "nat TableBuffer" where
  "demo_buffer_end = fst (insert_batch demo_batch_ops 2 11 4 (fst (mark_committed 7 1 demo_metadata
     (fst (drain_pending_to_in_flight (fst (insert_batch demo_batch_ops 1 10 3 demo_buffer)))))))"

lemma demo_run: "buf_run demo_batch_ops demo_buffer
    [entry_for demo_batch_ops 10 1 1 3, entry_for demo_batch_ops 11 2 2 4] [entry_for demo_batch_ops 10 1 1 3] demo_buffer_end"
proof -
  let ?B = demo_batch_ops and ?e = "entry_for demo_batch_ops 10 1 1 3" and ?f = "entry_for demo_batch_ops 11 2 2 4"
  define b1 where "b1 = fst (insert_batch ?B 1 10 3 demo_buffer)"
  define b2 where "b2 = fst (drain_pending_to_in_flight b1)"
  define b3 where "b3 = fst (mark_committed 7 1 demo_metadata b2)"
  note run = insert_batch_def ensure_capacity_def ensure_generation_available_def admit_entry_def batch_byte_size_def
    demo_batch_ops_def demo_buffer_def TableBuffer_new_def u64_bound_def u64_max_def entry_for_def
  have 1: "\<exists>ok. insert_batch ?B 1 10 3 demo_buffer = (b1, Inr ok) \<and> io_generation ok = 1"
    by (simp add: b1_def run)
  have s1: "bs_pending (tb_state b1) = [?e]" "bs_in_flight (tb_state b1) = []" "bs_flush_state (tb_state b1) = Idle"
    "bs_reserved_generations (tb_state b1) = []" "bs_next_gen (tb_state b1) = 2" "tb_max_bytes b1 = 100"
    "bs_reserved_bytes (tb_state b1) = 0" "bs_committed_high_water (tb_state b1) = 0"
    by (simp_all add: b1_def run)
  have 2: "drain_pending_to_in_flight b1 = (b2, [?e])"
    by (simp add: b2_def drain_pending_to_in_flight_def Let_def s1 lowest_reserved_def)
  have s2: "bs_pending (tb_state b2) = []" "bs_in_flight (tb_state b2) = [?e]" "bs_next_gen (tb_state b2) = 2"
    "tb_max_bytes b2 = 100" "bs_reserved_bytes (tb_state b2) = 0" "bs_pending_bytes (tb_state b2) = 0"
    by (simp_all add: b2_def drain_pending_to_in_flight_def Let_def s1 lowest_reserved_def)
  have 3: "mark_committed 7 1 demo_metadata b2 = (b3, Inr ())"
    by (simp add: b3_def mark_committed_def Let_def s2 gen_max_def entry_for_def)
  have s3: "bs_pending (tb_state b3) = []" "bs_in_flight_bytes (tb_state b3) = 0" "bs_next_gen (tb_state b3) = 2"
    "tb_max_bytes b3 = 100" "bs_reserved_bytes (tb_state b3) = 0" "bs_pending_bytes (tb_state b3) = 0"
    by (simp_all add: b3_def mark_committed_def Let_def s2 gen_max_def entry_for_def)
  have 4: "\<exists>ok. insert_batch ?B 2 11 4 b3 = (demo_buffer_end, Inr ok) \<and> io_generation ok = 2"
    unfolding demo_buffer_end_def b1_def[symmetric] b2_def[symmetric] b3_def[symmetric]
    by (simp add: insert_batch_def ensure_capacity_def ensure_generation_available_def admit_entry_def batch_byte_size_def
        demo_batch_ops_def u64_bound_def u64_max_def s3)
  obtain ok1 ok2 where ok: "insert_batch ?B 1 10 3 demo_buffer = (b1, Inr ok1)" "io_generation ok1 = 1"
    "insert_batch ?B 2 11 4 b3 = (demo_buffer_end, Inr ok2)" "io_generation ok2 = 2" using 1 4 by blast
  have "buf_run ?B demo_buffer ([] @ [?e]) ([] @ []) b1"
    using br_step[OF br_start bs_insert[OF ok(1)]] ok(2) by simp
  from br_step[OF this bs_drain[OF _ 2]] have "buf_run ?B demo_buffer [?e] [] b2" by (simp add: s1)
  from br_step[OF this bs_commit[OF 3]] have "buf_run ?B demo_buffer [?e] [?e] b3" by (simp add: s2)
  from br_step[OF this bs_insert[OF ok(3)]] show ?thesis by (simp add: ok(4))
qed

lemma watermark_exact_witness:
  "buf_run demo_batch_ops demo_buffer [entry_for demo_batch_ops 10 1 1 3, entry_for demo_batch_ops 11 2 2 4]
     [entry_for demo_batch_ops 10 1 1 3] demo_buffer_end \<and>
   mset [entry_for demo_batch_ops 10 1 1 3] =
     mset (filter (\<lambda>e. be_generation e \<le> committed_high_water demo_buffer_end)
       [entry_for demo_batch_ops 10 1 1 3, entry_for demo_batch_ops 11 2 2 4])"
  using watermark_exact[OF demo_run[unfolded demo_buffer_def]] demo_run by blast

lemma buffer_bounded_witness:
  "buf_run demo_batch_ops demo_buffer [entry_for demo_batch_ops 10 1 1 3, entry_for demo_batch_ops 11 2 2 4]
     [entry_for demo_batch_ops 10 1 1 3] demo_buffer_end \<and>
   st_pending_bytes (buffer_stats demo_buffer_end) + st_in_flight_bytes (buffer_stats demo_buffer_end) +
     st_reserved_bytes (buffer_stats demo_buffer_end) \<le> 100"
  using buffer_bounded[OF demo_run[unfolded demo_buffer_def]] demo_run by blast

end
