(* ===== verification/Catalog_Commit.thy ===== *)
theory Catalog_Commit
  imports Table_Model
begin

text \<open>The commit paths of the Iceberg catalog adapter (\<open>crates/teodb-catalog/src/adapter/commit.rs\<close>,
  \<open>append_attempt_guard.rs\<close>, \<open>commit_error.rs\<close>, \<open>commit_metadata.rs\<close>, \<open>catalog.rs\<close>, \<open>error.rs\<close>).

  The Iceberg crate is code of another package. Its table metadata, errors and transactions appear as the data the
  adapter reads and writes, and its operations are the fields of the parameter \<open>ice_ops\<close>: loading a table, committing a
  transaction through a catalog whose \<open>load_table\<close> is decorated, committing through the plain catalog, and applying a transaction to
  metadata. \<open>ic_commit\<close> also returns the tables that its reload calls presented to the decorator, in
  order, so that the state of the guard is computed from them. What the adapter relies on is stated by
  \<open>apply_documented\<close> and \<open>commit_documented\<close> of the theory \<open>Append_Once\<close>. The conversion of metadata and data files between the two
  models (\<open>crates/teodb-catalog/src/convert/\<close>) is a parameter too. Observers and log lines have no effect on the
  results and are left out.\<close>

section \<open>Iceberg data\<close>

datatype IceErrorKind =
    K_DataInvalid | K_FeatureUnsupported | K_TableAlreadyExists | K_NamespaceAlreadyExists
  | K_TableNotFound | K_NamespaceNotFound | K_PreconditionFailed | K_CatalogCommitConflicts
  | K_Unexpected | K_Other

text \<open>\<open>ie_sources\<close> is the chain of causes: for each, whether it is a failure to connect.\<close>

record IceError =
  ie_kind :: IceErrorKind
  ie_text :: string
  ie_retryable :: bool
  ie_sources :: "bool list"

record IceSnapshot =
  isn_id :: snapshot_id
  isn_parent :: "snapshot_id option"
  isn_timestamp_ms :: int
  isn_props :: props

record IceMetadata =
  imd_uuid :: uuid
  imd_properties :: props
  imd_snapshots :: "IceSnapshot list"
  imd_current_snapshot_id :: "snapshot_id option"
  imd_partition_specs :: "PartitionSpec list"

record IceTableIdent =
  iti_namespace :: "string list"
  iti_name :: string

record IceTable =
  itb_identifier :: IceTableIdent
  itb_metadata :: IceMetadata

text \<open>A transaction: an optional fast append and table property changes.\<close>

record 'f IceAppend =
  iap_commit_uuid :: "uuid option"
  iap_data_files :: "'f list"
  iap_snapshot_properties :: props

record 'f IceTransaction =
  itx_append :: "'f IceAppend option"
  itx_set_properties :: props
  itx_remove_properties :: "string list"

record ('w, 'f) ice_ops =
  ic_load :: "'w \<Rightarrow> IceTableIdent \<Rightarrow> IceError + IceTable"
  ic_commit :: "(IceTable \<Rightarrow> IceError option) \<Rightarrow> IceTableIdent \<Rightarrow> 'f IceTransaction \<Rightarrow> 'w
      \<Rightarrow> 'w \<times> IceTable list \<times> (IceError + IceMetadata)"
  ic_commit_plain :: "IceTableIdent \<Rightarrow> IceMetadata \<Rightarrow> 'f IceTransaction \<Rightarrow> 'w \<Rightarrow> 'w \<times> (IceError + IceMetadata)"
  ic_apply :: "'f IceTransaction \<Rightarrow> IceMetadata \<Rightarrow> IceMetadata"

record 'f convert_ops =
  cv_file :: "DataFile \<Rightarrow> PartitionSpec \<Rightarrow> 'f teo_result"
  cv_metadata :: "TableIdent \<Rightarrow> IceMetadata \<Rightarrow> TableMetadata teo_result"
  cv_paths_json :: "string list \<Rightarrow> string option"
  cv_version :: string

definition NamespaceIdent_from_strs :: "string list \<Rightarrow> string list option" where
  "NamespaceIdent_from_strs parts = (if parts = [] then None else Some parts)"

definition make_namespace :: "string \<Rightarrow> string list" where
  "make_namespace ns = (case NamespaceIdent_from_strs (split_on (CHR ''.'') ns) of None \<Rightarrow> [ns] | Some n \<Rightarrow> n)"

definition make_table_ident :: "TableIdent \<Rightarrow> IceTableIdent" where
  "make_table_ident ident = \<lparr>iti_namespace = make_namespace (ti_namespace ident), iti_name = ti_name ident\<rparr>"

section \<open>Errors\<close>

definition msg_contains :: "string \<Rightarrow> string \<Rightarrow> bool" where
  "msg_contains msg sub \<longleftrightarrow> find_sub sub msg \<noteq> None"

definition map_iceberg_error :: "IceError \<Rightarrow> TeoDBError" where
  "map_iceberg_error e =
    (let msg = ie_text e in
     case ie_kind e of
       K_DataInvalid \<Rightarrow> InvalidArgument ''iceberg'' msg
     | K_FeatureUnsupported \<Rightarrow> CatalogErr (''unsupported: '' @ msg)
     | K_TableAlreadyExists \<Rightarrow> AlreadyExists msg
     | K_NamespaceAlreadyExists \<Rightarrow> AlreadyExists msg
     | K_TableNotFound \<Rightarrow> NotFound msg
     | K_NamespaceNotFound \<Rightarrow> NotFound msg
     | K_PreconditionFailed \<Rightarrow> Conflict msg [] ''<concurrent change>''
     | K_CatalogCommitConflicts \<Rightarrow> Conflict msg [] ''<concurrent change>''
     | K_Unexpected \<Rightarrow>
         if msg_contains msg ''404'' \<or> msg_contains msg ''NoSuchTable'' \<or> msg_contains msg ''not found''
            \<or> msg_contains msg ''does not exist'' then NotFound msg
         else if msg_contains msg ''409'' \<or> msg_contains msg ''already exists'' then AlreadyExists msg
         else if msg_contains msg ''Conflict'' \<or> msg_contains msg ''CommitFailed''
           then Conflict msg [] ''<concurrent change>''
         else if msg_contains msg ''401'' then Unauthorized
         else if msg_contains msg ''403'' then Forbidden ''access denied''
         else CatalogErr msg
     | K_Other \<Rightarrow> CatalogErr (''iceberg error: '' @ msg))"

datatype CommitAttemptError =
  CA_Conflict IceError | CA_StateUnknown IceError | CA_RetryableBeforeCommit IceError | CA_Fatal IceError

fun any_connect :: "bool list \<Rightarrow> bool" where
  "any_connect [] = False"
| "any_connect (cause # rest) = (if cause then True else any_connect rest)"

definition is_pre_dispatch_connect_failure :: "IceError \<Rightarrow> bool" where
  "is_pre_dispatch_connect_failure e = any_connect (ie_sources e)"

definition classify :: "IceError \<Rightarrow> CommitAttemptError" where
  "classify e =
    (if ie_kind e = K_CatalogCommitConflicts \<or> ie_kind e = K_PreconditionFailed then CA_Conflict e
     else if ie_kind e = K_Unexpected \<and> is_pre_dispatch_connect_failure e then CA_RetryableBeforeCommit e
     else if ie_kind e = K_Unexpected then CA_StateUnknown e
     else if ie_retryable e then CA_RetryableBeforeCommit e
     else CA_Fatal e)"

section \<open>The append attempt guard\<close>

datatype GuardRejection =
    AlreadyCommitted IceMetadata
  | G_StaleWriterEpoch nat
  | G_WriterRegistryFull
  | G_TableIncarnationMismatch uuid
  | G_MetadataCorruption string
  | ProtocolViolation string

fun into_teodb_error :: "CommitAppend \<Rightarrow> nat \<Rightarrow> GuardRejection \<Rightarrow> TeoDBError" where
  "into_teodb_error req limit (AlreadyCommitted m) =
    WriteProtocol (ca_table req) ''already committed guard outcome consumed as an error''"
| "into_teodb_error req limit (G_StaleWriterEpoch current) =
    StaleWriterEpoch (ca_table req) (ac_writer_id (ca_identity req)) (ac_writer_epoch (ca_identity req)) current"
| "into_teodb_error req limit G_WriterRegistryFull = WriterRegistryFull (ca_table req) limit"
| "into_teodb_error req limit (G_TableIncarnationMismatch actual) =
    TableIncarnationMismatch (ca_table req) (ca_table_uuid req) actual"
| "into_teodb_error req limit (G_MetadataCorruption message) = MetadataCorruption (ca_table req) message"
| "into_teodb_error req limit (ProtocolViolation message) = WriteProtocol (ca_table req) message"

text \<open>The text of an error is its message, without the prefix that names table and class.\<close>

fun error_text :: "TeoDBError \<Rightarrow> string" where
  "error_text (MetadataCorruption _ m) = m"
| "error_text (WriteProtocol _ m) = m"
| "error_text e = error_code e"

fun match_snapshots ::
    "text_codec \<Rightarrow> TableIdent \<Rightarrow> uuid \<Rightarrow> AppendCommitIdentity \<Rightarrow> IceSnapshot list \<Rightarrow> bool \<Rightarrow> bool teo_result" where
  "match_snapshots T table u i [] found = Inr found"
| "match_snapshots T table u i (s # ss) found =
    bind_r (snapshot_matches_append_identity T table u i (isn_props s)) (\<lambda>matches.
      match_snapshots T table u i ss (found \<or> matches))"

definition exact_checkpoint :: "AppendCommitIdentity \<Rightarrow> WriterCheckpoint option \<Rightarrow> GuardRejection + bool" where
  "exact_checkpoint i own =
    (case own of
       None \<Rightarrow> Inr False
     | Some c \<Rightarrow>
         if wc_commit_id c = ac_commit_id i
         then if wc_epoch c \<noteq> ac_writer_epoch i \<or> wc_generation c \<noteq> gr_hi (ac_generations i)
              then Inl (G_MetadataCorruption ''writer checkpoint reuses commit ID with a mismatched epoch or generation'')
              else Inr True
         else Inr False)"

definition guard_validate :: "text_codec \<Rightarrow> nat \<Rightarrow> CommitAppend \<Rightarrow> IceMetadata \<Rightarrow> GuardRejection + unit" where
  "guard_validate T limit req m =
    (let table = ca_table req; i = ca_identity req; props = imd_properties m;
         corrupt = (\<lambda>e. G_MetadataCorruption (error_text e)) in
     bind_r (map_sum (\<lambda>e. ProtocolViolation (error_text e)) id (identity_validate i table (ca_table_uuid req))) (\<lambda>_.
     if imd_uuid m \<noteq> ca_table_uuid req then Inl (G_TableIncarnationMismatch (imd_uuid m)) else
     bind_r (map_sum corrupt id (validate_writer_checkpoints T table props)) (\<lambda>checkpoint_count.
     bind_r (map_sum corrupt id (parse_writer_checkpoint T table props (ac_writer_id i))) (\<lambda>own_checkpoint.
     bind_r (map_sum corrupt id (match_snapshots T table (ca_table_uuid req) i (imd_snapshots m) False)) (\<lambda>exact_snapshot.
     bind_r (exact_checkpoint i own_checkpoint) (\<lambda>exact_ckpt.
     if exact_snapshot \<or> exact_ckpt then Inl (AlreadyCommitted m)
     else if map_of props (writer_checkpoint_key T (ac_writer_id i)) = None \<and> checkpoint_count \<ge> limit
       then Inl G_WriterRegistryFull
     else case own_checkpoint of
         None \<Rightarrow> Inr ()
       | Some c \<Rightarrow>
           if ac_writer_epoch i < wc_epoch c then Inl (G_StaleWriterEpoch (wc_epoch c))
           else if gr_lo (ac_generations i) \<le> wc_generation c
             then Inl (ProtocolViolation ''generation range overlaps committed generation with a different commit ID'')
           else Inr ()))))))"

record GuardState =
  gs_rejection :: "GuardRejection option"
  gs_invocations :: nat

definition GuardState_default :: GuardState where
  "GuardState_default = \<lparr>gs_rejection = None, gs_invocations = 0\<rparr>"

definition guard_error :: IceError where
  "guard_error = \<lparr>ie_kind = K_PreconditionFailed, ie_text = ''append rejected by typed TeoDB attempt guard'',
    ie_retryable = False, ie_sources = []\<rparr>"

text \<open>\<open>load_table\<close> of the decorator on a loaded table: the guard state afterwards and the error it answers.\<close>

definition guard_load ::
    "text_codec \<Rightarrow> nat \<Rightarrow> CommitAppend \<Rightarrow> IceTableIdent \<Rightarrow> IceTable \<Rightarrow> GuardState \<Rightarrow> GuardState \<times> IceError option" where
  "guard_load T limit req ident loaded gs =
    (if ident = itb_identifier loaded \<and> ident = make_table_ident (ca_table req)
     then let gs = gs\<lparr>gs_invocations := gs_invocations gs + 1\<rparr> in
       (case guard_validate T limit req (itb_metadata loaded) of
          Inl rejection \<Rightarrow> (gs\<lparr>gs_rejection := Some rejection\<rparr>, Some guard_error)
        | Inr _ \<Rightarrow> (gs, None))
     else (gs, None))"

definition guard_refuses :: "text_codec \<Rightarrow> nat \<Rightarrow> CommitAppend \<Rightarrow> IceTableIdent \<Rightarrow> IceTable \<Rightarrow> IceError option" where
  "guard_refuses T limit req ident loaded = snd (guard_load T limit req ident loaded GuardState_default)"

definition guard_after :: "text_codec \<Rightarrow> nat \<Rightarrow> CommitAppend \<Rightarrow> IceTableIdent \<Rightarrow> IceTable list \<Rightarrow> GuardState" where
  "guard_after T limit req ident seen = fold (\<lambda>t gs. fst (guard_load T limit req ident t gs)) seen GuardState_default"

section \<open>Append\<close>

definition ENGINE_NAME :: string where "ENGINE_NAME = ''engine-name''"

definition ENGINE_VERSION :: string where "ENGINE_VERSION = ''engine-version''"

definition RESERVED_KEYS :: "string list" where
  "RESERVED_KEYS = [COMMIT_ID_PROPERTY, WRITER_ID_PROPERTY, WRITER_EPOCH_PROPERTY, GENERATION_MIN_PROPERTY,
     GENERATION_MAX_PROPERTY, TABLE_UUID_PROPERTY, PROTOCOL_VERSION_PROPERTY, ENGINE_NAME, ENGINE_VERSION]"

definition is_reserved_key :: "string \<Rightarrow> bool" where
  "is_reserved_key key \<longleftrightarrow> key \<in> set RESERVED_KEYS \<or> starts_with key ''teodb.''"

definition put_all :: "props \<Rightarrow> props \<Rightarrow> props" where
  "put_all updates ps = fold (\<lambda>(k, v). al_put k v) updates ps"

definition snapshot_properties :: "text_codec \<Rightarrow> string \<Rightarrow> CommitAppend \<Rightarrow> props teo_result" where
  "snapshot_properties T version req =
    (if list_ex (\<lambda>(key, _). is_reserved_key key) (ca_properties req)
     then Inl (InvalidArgument ''properties'' ''reserved snapshot property cannot be overridden'')
     else Inr (put_all [(ENGINE_NAME, ''teodb''), (ENGINE_VERSION, version)]
       (put_all (append_snapshot_identity_properties T (ca_table_uuid req) (ca_identity req)) (ca_properties req))))"

text \<open>The clock is \<open>None\<close> before the epoch, else the milliseconds since it.\<close>

definition checkpoint_property :: "text_codec \<Rightarrow> nat option \<Rightarrow> CommitAppend \<Rightarrow> (string \<times> string) teo_result" where
  "checkpoint_property T clock req =
    (case clock of
       None \<Rightarrow> Inl (Internal ''system clock before UNIX epoch'')
     | Some ms \<Rightarrow>
         if ms \<ge> 2 ^ 63 then Inl (Internal ''commit timestamp exceeds i64'')
         else bind_r (WriterCheckpoint_encode T (WriterCheckpoint_new (ac_writer_epoch (ca_identity req))
                (gr_hi (ac_generations (ca_identity req))) (ac_commit_id (ca_identity req)) (int ms))) (\<lambda>value.
              Inr (writer_checkpoint_key T (ac_writer_id (ca_identity req)), value)))"

fun convert_data_files ::
    "'f convert_ops \<Rightarrow> TableIdent \<Rightarrow> IceMetadata \<Rightarrow> DataFile list \<Rightarrow> 'f list teo_result" where
  "convert_data_files V table m [] = Inr []"
| "convert_data_files V table m (f # fs) =
    bind_r (ok_or (find (\<lambda>s. sp_spec_id s = df_partition_spec_id f) (imd_partition_specs m))
        (MetadataCorruption table ''partition spec is missing'')) (\<lambda>spec.
    bind_r (cv_file V f spec) (\<lambda>file.
    bind_r (convert_data_files V table m fs) (\<lambda>files. Inr (file # files))))"

definition build_append_transaction ::
    "text_codec \<Rightarrow> 'f convert_ops \<Rightarrow> nat option \<Rightarrow> CommitAppend \<Rightarrow> IceTable \<Rightarrow> 'f IceTransaction teo_result" where
  "build_append_transaction T V clock req table =
    bind_r (snapshot_properties T (cv_version V) req) (\<lambda>properties.
    bind_r (checkpoint_property T clock req) (\<lambda>(checkpoint_key, checkpoint_value).
    bind_r (convert_data_files V (ca_table req) (itb_metadata table) (ca_added_data_files req)) (\<lambda>added.
    Inr \<lparr>itx_append = Some \<lparr>iap_commit_uuid = Some (ac_commit_id (ca_identity req)), iap_data_files = added,
           iap_snapshot_properties = properties\<rparr>,
         itx_set_properties = [(checkpoint_key, checkpoint_value)], itx_remove_properties = []\<rparr>)))"

definition guard_result ::
    "nat \<Rightarrow> GuardState \<Rightarrow> CommitAppend \<Rightarrow> IceError \<Rightarrow> IceMetadata teo_result" where
  "guard_result limit gs req e =
    (case gs_rejection gs of
       Some (AlreadyCommitted m) \<Rightarrow> Inr m
     | Some other \<Rightarrow> Inl (into_teodb_error req limit other)
     | None \<Rightarrow>
        (case classify e of
           CA_Conflict e \<Rightarrow> Inl (map_iceberg_error e)
         | CA_StateUnknown e \<Rightarrow> Inl (CommitStateUnknown (ca_table req) (ac_commit_id (ca_identity req)) (ie_text e))
         | CA_RetryableBeforeCommit e \<Rightarrow> Inl (ExternalRetryable (ie_text e))
         | CA_Fatal e \<Rightarrow> Inl (map_iceberg_error e)))"

definition try_commit_append ::
    "text_codec \<Rightarrow> 'f convert_ops \<Rightarrow> ('w, 'f) ice_ops \<Rightarrow> nat \<Rightarrow> nat option \<Rightarrow> CommitAppend \<Rightarrow> 'w
      \<Rightarrow> 'w \<times> IceMetadata teo_result" where
  "try_commit_append T V C limit clock req w =
    (let ident = make_table_ident (ca_table req) in
     case ic_load C w ident of
       Inl e \<Rightarrow> (w, Inl (map_iceberg_error e))
     | Inr table \<Rightarrow>
        (case build_append_transaction T V clock req table of
           Inl e \<Rightarrow> (w, Inl e)
         | Inr tx \<Rightarrow>
             let (w', seen, result) = ic_commit C (guard_refuses T limit req ident) ident tx w in
             (case result of
                Inr updated \<Rightarrow> (w', Inr updated)
              | Inl e \<Rightarrow> (w', guard_result limit (guard_after T limit req ident seen) req e))))"

datatype CatalogCommitOutcome =
    CO_Committed | CO_Conflict | CO_StateUnknown | CO_StaleWriterEpoch | CO_WriterRegistryFull
  | CO_TableIncarnationMismatch | CO_MetadataCorruption | CO_ProtocolError | CO_RetryableError | CO_FatalError

fun commit_outcome :: "IceMetadata teo_result \<Rightarrow> CatalogCommitOutcome" where
  "commit_outcome (Inr _) = CO_Committed"
| "commit_outcome (Inl (Conflict _ _ _)) = CO_Conflict"
| "commit_outcome (Inl (CommitStateUnknown _ _ _)) = CO_StateUnknown"
| "commit_outcome (Inl (StaleWriterEpoch _ _ _ _)) = CO_StaleWriterEpoch"
| "commit_outcome (Inl (WriterRegistryFull _ _)) = CO_WriterRegistryFull"
| "commit_outcome (Inl (TableIncarnationMismatch _ _ _)) = CO_TableIncarnationMismatch"
| "commit_outcome (Inl (MetadataCorruption _ _)) = CO_MetadataCorruption"
| "commit_outcome (Inl (WriteProtocol _ _)) = CO_ProtocolError"
| "commit_outcome (Inl (ExternalRetryable _)) = CO_RetryableError"
| "commit_outcome (Inl (Unavailable _)) = CO_RetryableError"
| "commit_outcome (Inl _) = CO_FatalError"

definition commit_append ::
    "text_codec \<Rightarrow> 'f convert_ops \<Rightarrow> ('w, 'f) ice_ops \<Rightarrow> nat \<Rightarrow> nat option \<Rightarrow> CommitAppend \<Rightarrow> 'w
      \<Rightarrow> 'w \<times> TableMetadata teo_result" where
  "commit_append T V C limit clock req w =
    (let (w', result) = try_commit_append T V C limit clock req w
     in (w', bind_r result (cv_metadata V (ca_table req))))"

section \<open>Status, load, replace and properties\<close>

definition resolve_append_status ::
    "text_codec \<Rightarrow> 'f convert_ops \<Rightarrow> ('w, 'f) ice_ops \<Rightarrow> CommitAppend \<Rightarrow> 'w \<Rightarrow> CommitStatus teo_result" where
  "resolve_append_status T V C req w =
    (let table = ca_table req; i = ca_identity req in
     bind_r (identity_validate i table (ca_table_uuid req)) (\<lambda>_.
     case map_sum map_iceberg_error id (ic_load C w (make_table_ident table)) of
       Inl (NotFound _) \<Rightarrow> Inr NotCommitted
     | Inl e \<Rightarrow> Inr (Unknown (error_code e))
     | Inr loaded \<Rightarrow>
         let m = itb_metadata loaded in
         if imd_uuid m \<noteq> ca_table_uuid req then Inl (TableIncarnationMismatch table (ca_table_uuid req) (imd_uuid m)) else
         bind_r (match_snapshots T table (ca_table_uuid req) i (imd_snapshots m) False) (\<lambda>found_in_history.
         bind_r (validate_writer_checkpoints T table (imd_properties m)) (\<lambda>_.
         bind_r (parse_writer_checkpoint T table (imd_properties m) (ac_writer_id i)) (\<lambda>checkpoint.
         let found_in_checkpoint = (case checkpoint of None \<Rightarrow> False | Some c \<Rightarrow>
               wc_commit_id c = ac_commit_id i \<and> wc_epoch c = ac_writer_epoch i \<and>
               wc_generation c = gr_hi (ac_generations i)) in
         if (case checkpoint of None \<Rightarrow> False | Some c \<Rightarrow> wc_commit_id c = ac_commit_id i) \<and> \<not> found_in_checkpoint
         then Inl (MetadataCorruption table ''writer checkpoint reuses commit ID with a mismatched epoch or generation'')
         else if found_in_history \<or> found_in_checkpoint
         then bind_r (cv_metadata V table m) (\<lambda>d. Inr (Committed d))
         else Inr NotCommitted)))))"

definition load_table ::
    "text_codec \<Rightarrow> 'f convert_ops \<Rightarrow> ('w, 'f) ice_ops \<Rightarrow> TableIdent \<Rightarrow> 'w \<Rightarrow> TableMetadata teo_result" where
  "load_table T V C ident w =
    bind_r (map_sum map_iceberg_error itb_metadata (ic_load C w (make_table_ident ident))) (\<lambda>m.
    bind_r (validate_writer_checkpoints T ident (imd_properties m)) (\<lambda>_. cv_metadata V ident m))"

definition REMOVED_DATA_FILES_PROP :: string where
  "REMOVED_DATA_FILES_PROP = ''teodb.removed_data_files''"

definition imd_current_snapshot :: "IceMetadata \<Rightarrow> IceSnapshot option" where
  "imd_current_snapshot m =
    (case imd_current_snapshot_id m of None \<Rightarrow> None | Some i \<Rightarrow> find (\<lambda>s. isn_id s = i) (imd_snapshots m))"

definition replace_transaction ::
    "'f convert_ops \<Rightarrow> CommitReplace \<Rightarrow> IceMetadata \<Rightarrow> 'f IceTransaction teo_result" where
  "replace_transaction V req m =
    bind_r (ok_or (cv_paths_json V (cr_removed_data_files req))
      (CatalogErr ''failed to serialize removed_data_files'')) (\<lambda>removed_json.
    bind_r (convert_data_files V (cr_table req) m (cr_added_data_files req)) (\<lambda>added.
    Inr \<lparr>itx_append = Some \<lparr>iap_commit_uuid = None, iap_data_files = added,
           iap_snapshot_properties = al_put REMOVED_DATA_FILES_PROP removed_json (cr_properties req)\<rparr>,
         itx_set_properties = [], itx_remove_properties = []\<rparr>))"

definition try_commit_replace ::
    "'f convert_ops \<Rightarrow> ('w, 'f) ice_ops \<Rightarrow> CommitReplace \<Rightarrow> 'w \<Rightarrow> 'w \<times> IceMetadata teo_result" where
  "try_commit_replace V C req w =
    (let ident = make_table_ident (cr_table req) in
     case ic_load C w ident of
       Inl e \<Rightarrow> (w, Inl (map_iceberg_error e))
     | Inr table \<Rightarrow>
         let m = itb_metadata table; actual = map_option isn_id (imd_current_snapshot m) in
         if actual \<noteq> Some (cr_base_snapshot_id req)
         then (w, Inl (Conflict ''table'' ''base_snapshot_id'' ''actual''))
         else
          (case replace_transaction V req m of
             Inl e \<Rightarrow> (w, Inl e)
           | Inr tx \<Rightarrow>
               let (w', result) = ic_commit_plain C ident m tx w in (w', map_sum map_iceberg_error id result)))"

definition commit_is_retryable :: "TeoDBError \<Rightarrow> bool" where
  "commit_is_retryable e = (case e of CatalogErr _ \<Rightarrow> True | _ \<Rightarrow> False)"

text \<open>The backoff policy allows \<open>retries\<close> further attempts.\<close>

fun commit_replace_with_retry ::
    "'f convert_ops \<Rightarrow> ('w, 'f) ice_ops \<Rightarrow> nat \<Rightarrow> CommitReplace \<Rightarrow> 'w \<Rightarrow> 'w \<times> IceMetadata teo_result" where
  "commit_replace_with_retry V C 0 req w = try_commit_replace V C req w"
| "commit_replace_with_retry V C (Suc retries) req w =
    (case try_commit_replace V C req w of
       (w', Inr m) \<Rightarrow> (w', Inr m)
     | (w', Inl e) \<Rightarrow> if commit_is_retryable e then commit_replace_with_retry V C retries req w' else (w', Inl e))"

definition commit_replace ::
    "'f convert_ops \<Rightarrow> ('w, 'f) ice_ops \<Rightarrow> nat \<Rightarrow> CommitReplace \<Rightarrow> 'w \<Rightarrow> 'w \<times> TableMetadata teo_result" where
  "commit_replace V C retries req w =
    (let (w', result) = commit_replace_with_retry V C retries req w
     in (w', bind_r result (cv_metadata V (cr_table req))))"

fun check_expected :: "props \<Rightarrow> props \<Rightarrow> unit teo_result" where
  "check_expected current [] = Inr ()"
| "check_expected current ((key, expected_val) # rest) =
    (let actual = (case map_of current key of None \<Rightarrow> [] | Some v \<Rightarrow> v) in
     if actual \<noteq> expected_val then Inl (Conflict ''property'' expected_val actual)
     else check_expected current rest)"

definition update_table_properties ::
    "'f convert_ops \<Rightarrow> ('w, 'f) ice_ops \<Rightarrow> TableIdent \<Rightarrow> props \<Rightarrow> props \<Rightarrow> string list \<Rightarrow> 'w
      \<Rightarrow> 'w \<times> TableMetadata teo_result" where
  "update_table_properties V C ident expected updates removals w =
    (case bind_r (map_sum map_iceberg_error id (ic_load C w (make_table_ident ident))) (\<lambda>table.
        bind_r (check_expected (imd_properties (itb_metadata table)) expected) (\<lambda>_. Inr table)) of
       Inl e \<Rightarrow> (w, Inl e)
     | Inr table \<Rightarrow>
         let (w', result) = ic_commit_plain C (make_table_ident ident) (itb_metadata table)
               \<lparr>itx_append = None, itx_set_properties = updates, itx_remove_properties = removals\<rparr> w
         in (w', bind_r (map_sum map_iceberg_error id result) (cv_metadata V ident)))"

end
