(* ===== verification/Append_Once.thy ===== *)
theory Append_Once
  imports Catalog_Commit
begin

text \<open>Correctness of the append commit path: over every history of a table that only the guarded appends and unrelated
  commits produce, each writer's generations are committed at most once and in order, status resolution is exact, and the result
  of a commit call tells whether its append was published.\<close>

section \<open>Documented behaviour of the Iceberg crate\<close>

text \<open>Applying a transaction keeps the table identity, sets and removes the given properties, and a fast append adds one snapshot
  under a fresh id on top of the current one, with the given summary properties.\<close>

definition apply_documented :: "('w, 'f) ice_ops \<Rightarrow> bool" where
  "apply_documented C \<longleftrightarrow> (\<forall>tx m.
     imd_uuid (ic_apply C tx m) = imd_uuid m \<and>
     imd_properties (ic_apply C tx m) =
       filter (\<lambda>p. fst p \<notin> set (itx_remove_properties tx)) (put_all (itx_set_properties tx) (imd_properties m)) \<and>
     imd_partition_specs (ic_apply C tx m) = imd_partition_specs m \<and>
     (case itx_append tx of
        None \<Rightarrow> imd_snapshots (ic_apply C tx m) = imd_snapshots m \<and>
          imd_current_snapshot_id (ic_apply C tx m) = imd_current_snapshot_id m
      | Some a \<Rightarrow> \<exists>s. imd_snapshots (ic_apply C tx m) = imd_snapshots m @ [s] \<and>
          imd_current_snapshot_id (ic_apply C tx m) = Some (isn_id s) \<and>
          isn_parent s = imd_current_snapshot_id m \<and> isn_id s \<notin> isn_id ` set (imd_snapshots m) \<and>
          (\<forall>k v. map_of (iap_snapshot_properties a) k = Some v \<longrightarrow> map_of (isn_props s) k = Some v)))"

text \<open>The catalog keeps, for each table, the published versions, newest first, each with the commit UUID of the transaction that
  published it; \<open>log\<close> reads them. A commit of a transaction with a commit UUID publishes at most one version under it: the
  transaction applied to the current version, which it reloaded through the decorated catalog and the decorator accepted. A
  refusal of the decorator ends it. Other clients may publish before and after, under other commit UUIDs: the UUID is fresh, and no second
  request with it is under way. When the commit answers success its version was published; when it answers an error
  its version was not published, unless the error is an unexpected one after a connection was made.\<close>

type_synonym version_log = "(uuid option \<times> IceMetadata) list"




text \<open>The versions that a commit UUID published.\<close>

definition published :: "uuid \<Rightarrow> version_log \<Rightarrow> IceMetadata list" where
  "published c vs = map snd (filter (\<lambda>v. fst v = Some c) vs)"

lemma published_simps [simp]:
  "published c [] = []" "published c (vs @ us) = published c vs @ published c us"
  "published c ((l, m) # vs) = (if l = Some c then m # published c vs else published c vs)"
  by (simp_all add: published_def)


section \<open>Histories of a table\<close>

text \<open>The versions of a table, with the appends published so far. Besides appends that passed the guard on the
  version they were applied to, there are commits of others: they keep the table's UUID and the writer checkpoints,
  and add no snapshot that carries a commit id; they may expire snapshots.\<close>

inductive appended :: "text_codec \<Rightarrow> 'f convert_ops \<Rightarrow> ('w, 'f) ice_ops \<Rightarrow> IceMetadata \<Rightarrow> CommitAppend list \<Rightarrow> bool"
  for T V C where
  ap_new: "distinct (map fst (imd_properties m)) \<Longrightarrow> \<forall>k \<in> fst ` set (imd_properties m). \<not> is_checkpoint_key k \<Longrightarrow>
    \<forall>s \<in> set (imd_snapshots m). map_of (isn_props s) COMMIT_ID_PROPERTY = None \<Longrightarrow> appended T V C m []"
| ap_append: "appended T V C m rs \<Longrightarrow> guard_validate T limit req m = Inr () \<Longrightarrow>
    build_append_transaction T V (Some ms) req t = Inr tx \<Longrightarrow>
    ckpt_text_ok T (WriterCheckpoint_new (ac_writer_epoch (ca_identity req)) (gr_hi (ac_generations (ca_identity req)))
      (ac_commit_id (ca_identity req)) (int ms)) \<Longrightarrow>
    appended T V C (ic_apply C tx m) (rs @ [req])"
| ap_other: "appended T V C m rs \<Longrightarrow> imd_uuid m' = imd_uuid m \<Longrightarrow> distinct (map fst (imd_properties m')) \<Longrightarrow>
    \<forall>k. is_checkpoint_key k \<longrightarrow> map_of (imd_properties m') k = map_of (imd_properties m) k \<Longrightarrow>
    \<forall>s \<in> set (imd_snapshots m'). s \<in> set (imd_snapshots m) \<or> map_of (isn_props s) COMMIT_ID_PROPERTY = None \<Longrightarrow>
    appended T V C m' rs"

definition writer_log :: "uuid \<Rightarrow> CommitAppend list \<Rightarrow> AppendCommitIdentity list" where
  "writer_log w rs = filter (\<lambda>i. ac_writer_id i = w) (map ca_identity rs)"

definition identity_ckpt :: "AppendCommitIdentity \<Rightarrow> nat \<Rightarrow> WriterCheckpoint" where
  "identity_ckpt i ms = WriterCheckpoint_new (ac_writer_epoch i) (gr_hi (ac_generations i)) (ac_commit_id i) (int ms)"

definition ckpt_inv :: "text_codec \<Rightarrow> IceMetadata \<Rightarrow> CommitAppend list \<Rightarrow> bool" where
  "ckpt_inv T m rs \<longleftrightarrow> (\<forall>w table. if writer_log w rs = [] then parse_writer_checkpoint T table (imd_properties m) w = Inr None
     else \<exists>ms. parse_writer_checkpoint T table (imd_properties m) w = Inr (Some (identity_ckpt (last (writer_log w rs)) ms)))"

definition published_by :: "text_codec \<Rightarrow> IceSnapshot \<Rightarrow> CommitAppend \<Rightarrow> bool" where
  "published_by T s r \<longleftrightarrow> (\<forall>k \<in> fst ` set (append_snapshot_identity_properties T (ca_table_uuid r) (ca_identity r)).
     map_of (isn_props s) k = map_of (append_snapshot_identity_properties T (ca_table_uuid r) (ca_identity r)) k)"

definition in_order :: "AppendCommitIdentity \<Rightarrow> AppendCommitIdentity \<Rightarrow> bool" where
  "in_order i j \<longleftrightarrow> (ac_writer_id i = ac_writer_id j \<longrightarrow>
     ac_writer_epoch i \<le> ac_writer_epoch j \<and> gr_hi (ac_generations i) < gr_lo (ac_generations j))"

definition once_inv :: "text_codec \<Rightarrow> IceMetadata \<Rightarrow> CommitAppend list \<Rightarrow> bool" where
  "once_inv T m rs \<longleftrightarrow> distinct (map fst (imd_properties m)) \<and> ckpt_inv T m rs \<and>
     (\<forall>table. is_ok (validate_writer_checkpoints T table (imd_properties m))) \<and>
     (\<forall>s \<in> set (imd_snapshots m). map_of (isn_props s) COMMIT_ID_PROPERTY = None \<or> (\<exists>r \<in> set rs. published_by T s r)) \<and>
     (\<forall>r \<in> set rs. ca_table_uuid r = imd_uuid m \<and> identity_wf (ca_identity r)) \<and>
     sorted_wrt in_order (map ca_identity rs)"

section \<open>Lemmas\<close>

lemma map_sum_id_Inr [simp]: "map_sum f id r = Inr y \<longleftrightarrow> r = Inr y"
  by (cases r) auto

lemma map_of_put_all: "map_of (put_all us ps) k = (case map_of (rev us) k of None \<Rightarrow> map_of ps k | Some v \<Rightarrow> Some v)"
  by (induction us arbitrary: ps) (auto simp: put_all_def map_add_def split: option.splits)

lemma distinct_put_all: "distinct (map fst ps) \<Longrightarrow> distinct (map fst (put_all us ps))"
  by (induction us arbitrary: ps) (auto simp: put_all_def)

lemma put_all_single: "put_all [(k, v)] ps = al_put k v ps"
  by (simp add: put_all_def)

lemma in_order_trans: "in_order i j \<Longrightarrow> in_order j k \<Longrightarrow> ac_writer_id i = ac_writer_id j \<Longrightarrow>
    gr_lo (ac_generations j) \<le> gr_hi (ac_generations j) \<Longrightarrow> in_order i k"
  by (auto simp: in_order_def)

lemma guard_ok_facts:
  assumes "guard_validate T limit req m = Inr ()"
  shows "identity_wf (ca_identity req)" "imd_uuid m = ca_table_uuid req" "\<not> is_nil (ca_table_uuid req)"
    "\<exists>n. validate_writer_checkpoints T (ca_table req) (imd_properties m) = Inr n"
    "\<exists>own. parse_writer_checkpoint T (ca_table req) (imd_properties m) (ac_writer_id (ca_identity req)) = Inr own \<and>
      (case own of None \<Rightarrow> True | Some c \<Rightarrow> wc_commit_id c \<noteq> ac_commit_id (ca_identity req) \<and>
        wc_epoch c \<le> ac_writer_epoch (ca_identity req) \<and> wc_generation c < gr_lo (ac_generations (ca_identity req)))"
    "match_snapshots T (ca_table req) (ca_table_uuid req) (ca_identity req) (imd_snapshots m) False = Inr False"
proof -
  let ?i = "ca_identity req"
  have 1: "identity_validate ?i (ca_table req) (ca_table_uuid req) = Inr ()"
    using assms by (auto simp: guard_validate_def Let_def simp del: identity_validate_ok)
  then show "identity_wf ?i" "\<not> is_nil (ca_table_uuid req)" by simp_all
  show u: "imd_uuid m = ca_table_uuid req" using assms by (auto simp: guard_validate_def Let_def split: if_splits)
  obtain n own ex ck where 2: "validate_writer_checkpoints T (ca_table req) (imd_properties m) = Inr n"
    "parse_writer_checkpoint T (ca_table req) (imd_properties m) (ac_writer_id ?i) = Inr own"
    "match_snapshots T (ca_table req) (ca_table_uuid req) ?i (imd_snapshots m) False = Inr ex"
    "exact_checkpoint ?i own = Inr ck" and 3: "\<not> ex" "\<not> ck"
    "case own of None \<Rightarrow> True | Some c \<Rightarrow> \<not> ac_writer_epoch ?i < wc_epoch c \<and> \<not> gr_lo (ac_generations ?i) \<le> wc_generation c"
    using assms u by (auto simp: guard_validate_def Let_def split: if_splits option.splits)
  show "\<exists>n. validate_writer_checkpoints T (ca_table req) (imd_properties m) = Inr n" using 2(1) by blast
  show "match_snapshots T (ca_table req) (ca_table_uuid req) ?i (imd_snapshots m) False = Inr False" using 2(3) 3(1) by simp
  show "\<exists>own. parse_writer_checkpoint T (ca_table req) (imd_properties m) (ac_writer_id ?i) = Inr own \<and>
      (case own of None \<Rightarrow> True | Some c \<Rightarrow> wc_commit_id c \<noteq> ac_commit_id ?i \<and>
        wc_epoch c \<le> ac_writer_epoch ?i \<and> wc_generation c < gr_lo (ac_generations ?i))"
    using 2(2,4) 3(2,3) by (auto simp: exact_checkpoint_def not_less not_le split: option.splits if_splits)
qed

lemma tx_facts:
  assumes "build_append_transaction T V (Some ms) req t = Inr tx" "uuid_text_ok T"
  shows "\<exists>s a. itx_set_properties tx = [(writer_checkpoint_key T (ac_writer_id (ca_identity req)), s)] \<and>
    WriterCheckpoint_encode T (identity_ckpt (ca_identity req) ms) = Inr s \<and> itx_remove_properties tx = [] \<and>
    itx_append tx = Some a \<and>
    (\<forall>(k, v) \<in> set (append_snapshot_identity_properties T (ca_table_uuid req) (ca_identity req)).
      map_of (iap_snapshot_properties a) k = Some v)"
proof -
  obtain ps where ps: "snapshot_properties T (cv_version V) req = Inr ps" "iap_snapshot_properties (the (itx_append tx)) = ps"
    "itx_append tx \<noteq> None"
    using assms(1) by (auto simp: build_append_transaction_def)
  have "map_of ps k = Some v"
    if "(k, v) \<in> set (append_snapshot_identity_properties T (ca_table_uuid req) (ca_identity req))" for k v
    using that ps(1)
    by (auto simp: snapshot_properties_def append_snapshot_identity_properties_def map_of_put_all ENGINE_NAME_def
        ENGINE_VERSION_def property_keys split: if_splits)
  then show ?thesis using assms(1) ps(2,3)
    by (auto simp: build_append_transaction_def checkpoint_property_def identity_ckpt_def split: if_splits)
qed

lemma published_by_iff:
  "published_by T s r \<longleftrightarrow> (\<forall>(k, v) \<in> set (append_snapshot_identity_properties T (ca_table_uuid r) (ca_identity r)).
     map_of (isn_props s) k = Some v)"
  using distinct_identity_keys[of T "ca_table_uuid r" "ca_identity r"]
  by (auto simp: published_by_def)

lemma in_order_snoc:
  assumes s: "sorted_wrt in_order (map ca_identity rs)" and wf: "\<forall>r \<in> set rs. identity_wf (ca_identity r)"
    and last: "writer_log (ac_writer_id i) rs \<noteq> [] \<Longrightarrow> in_order (last (writer_log (ac_writer_id i) rs)) i"
  shows "sorted_wrt in_order (map ca_identity rs @ [i])"
proof -
  have "in_order j i" if j: "j \<in> ca_identity ` set rs" for j
  proof (cases "ac_writer_id j = ac_writer_id i")
    case True
    let ?l = "writer_log (ac_writer_id i) rs"
    have mem: "j \<in> set ?l" using j True by (auto simp: writer_log_def)
    then have ne: "?l \<noteq> []" by auto
    have sl: "sorted_wrt in_order ?l" unfolding writer_log_def using s by (rule sorted_wrt_filter)
    obtain ys where ys: "?l = ys @ [last ?l]" using ne by (metis append_butlast_last_id)
    show ?thesis
    proof (cases "j = last ?l")
      case True
      then show ?thesis using last ne by simp
    next
      case False
      then have "j \<in> set ys" using mem ys by (metis Un_iff empty_iff insert_iff list.set(1,2) set_append)
      then have "in_order j (last ?l)" using sl ys by (metis sorted_wrt_append list.set_intros(1))
      moreover have "last ?l \<in> ca_identity ` set rs" "ac_writer_id (last ?l) = ac_writer_id i"
        using last_in_set[OF ne] by (auto simp: writer_log_def)
      then have "gr_lo (ac_generations (last ?l)) \<le> gr_hi (ac_generations (last ?l))" using wf by (auto simp: identity_wf_def)
      ultimately show ?thesis using in_order_trans[OF _ last[OF ne]] True \<open>ac_writer_id (last ?l) = ac_writer_id i\<close> by simp
    qed
  qed (simp add: in_order_def)
  then show ?thesis using s by (auto simp: sorted_wrt_append)
qed

lemma once_append:
  assumes T: "uuid_text_ok T" and C: "apply_documented C" and inv: "once_inv T m rs"
    and g: "guard_validate T limit req m = Inr ()" and tx: "build_append_transaction T V (Some ms) req t = Inr tx"
    and ok: "ckpt_text_ok T (WriterCheckpoint_new (ac_writer_epoch (ca_identity req)) (gr_hi (ac_generations (ca_identity req)))
      (ac_commit_id (ca_identity req)) (int ms))"
  shows "once_inv T (ic_apply C tx m) (rs @ [req])"
proof -
  let ?i = "ca_identity req" and ?m' = "ic_apply C tx m"
  let ?key = "writer_checkpoint_key T (ac_writer_id ?i)"
  note gf = guard_ok_facts[OF g]
  obtain s a where tf: "itx_set_properties tx = [(?key, s)]" "WriterCheckpoint_encode T (identity_ckpt ?i ms) = Inr s"
    "itx_remove_properties tx = []" "itx_append tx = Some a"
    "\<forall>(k, v) \<in> set (append_snapshot_identity_properties T (ca_table_uuid req) ?i). map_of (iap_snapshot_properties a) k = Some v"
    using tx_facts[OF tx T] by blast
  have wf: "checkpoint_wf (identity_ckpt ?i ms)"
    using gf(1) by (simp add: checkpoint_wf_def identity_ckpt_def WriterCheckpoint_new_def identity_wf_def)
  obtain s' where "WriterCheckpoint_encode T (identity_ckpt ?i ms) = Inr s'"
    and dec: "\<And>table. WriterCheckpoint_decode T table s' = Inr (identity_ckpt ?i ms)"
    using ok wf by (auto simp: ckpt_text_ok_def WriterCheckpoint_encode_def checkpoint_decode_ok identity_ckpt_def split: option.splits)
  then have dec: "WriterCheckpoint_decode T table s = Inr (identity_ckpt ?i ms)" for table using tf(2) by simp
  have ap: "imd_uuid ?m' = imd_uuid m" "imd_properties ?m' = al_put ?key s (imd_properties m)"
    using C[unfolded apply_documented_def, rule_format, of tx m] tf by (simp_all add: put_all_single)
  obtain sn where sn: "imd_snapshots ?m' = imd_snapshots m @ [sn]"
    "\<forall>k v. map_of (iap_snapshot_properties a) k = Some v \<longrightarrow> map_of (isn_props sn) k = Some v"
    using C[unfolded apply_documented_def, rule_format, of tx m] tf(4) by auto
  have dist: "distinct (map fst (imd_properties ?m'))" using inv by (simp add: once_inv_def ap)
  have log: "writer_log w (rs @ [req]) = (if w = ac_writer_id ?i then writer_log w rs @ [?i] else writer_log w rs)" for w
    by (auto simp: writer_log_def)
  have "ckpt_inv T m rs" using inv by (simp add: once_inv_def)
  then have "ckpt_inv T ?m' (rs @ [req])"
    using dec unfolding ckpt_inv_def ap log parse_checkpoint_put[OF T] by auto
  moreover have "is_ok (validate_writer_checkpoints T table (imd_properties ?m'))" for table
  proof -
    obtain n where "validate_writer_checkpoints T table (imd_properties m) = Inr n"
      using inv unfolding once_inv_def is_ok_iff by blast
    then show ?thesis
      using validate_al_put[OF T _ _ _ dec, of "imd_properties m" "ac_writer_id ?i" table n] inv gf(1)
      by (simp add: ap once_inv_def identity_wf_def)
  qed
  moreover have "published_by T sn req" unfolding published_by_iff using tf(5) sn(2) by auto
  then have "map_of (isn_props x) COMMIT_ID_PROPERTY = None \<or> (\<exists>r \<in> set (rs @ [req]). published_by T x r)"
    if "x \<in> set (imd_snapshots ?m')" for x
    using that inv by (auto simp: sn(1) once_inv_def)
  moreover have "ca_table_uuid r = imd_uuid ?m' \<and> identity_wf (ca_identity r)" if "r \<in> set (rs @ [req])" for r
    using that inv gf(1,2) by (auto simp: once_inv_def ap)
  moreover have "in_order (last (writer_log (ac_writer_id ?i) rs)) ?i" if ne: "writer_log (ac_writer_id ?i) rs \<noteq> []"
  proof -
    obtain ms' where "parse_writer_checkpoint T (ca_table req) (imd_properties m) (ac_writer_id ?i) =
        Inr (Some (identity_ckpt (last (writer_log (ac_writer_id ?i) rs)) ms'))"
      using inv ne unfolding once_inv_def ckpt_inv_def by meson
    then show ?thesis using gf(5) by (auto simp: in_order_def identity_ckpt_def WriterCheckpoint_new_def)
  qed
  then have "sorted_wrt in_order (map ca_identity (rs @ [req]))"
    using in_order_snoc[of rs ?i] inv by (simp add: once_inv_def)
  ultimately show ?thesis using dist by (simp add: once_inv_def)
qed

lemma once_other:
  assumes inv: "once_inv T m rs" and same: "imd_uuid m' = imd_uuid m" "distinct (map fst (imd_properties m'))"
    "\<forall>k. is_checkpoint_key k \<longrightarrow> map_of (imd_properties m') k = map_of (imd_properties m) k"
    "\<forall>s \<in> set (imd_snapshots m'). s \<in> set (imd_snapshots m) \<or> map_of (isn_props s) COMMIT_ID_PROPERTY = None"
  shows "once_inv T m' rs"
proof -
  have "parse_writer_checkpoint T table (imd_properties m') w = parse_writer_checkpoint T table (imd_properties m) w" for table w
    using same(3) by (simp add: parse_writer_checkpoint_def)
  moreover have "is_ok (validate_writer_checkpoints T table (imd_properties m'))" for table
  proof -
    obtain n where n: "validate_writer_checkpoints T table (imd_properties m) = Inr n"
      using inv unfolding once_inv_def is_ok_iff by blast
    have "validate_checkpoint_entry T table k v = Inr ()" if "(k, v) \<in> set (imd_properties m')" "is_checkpoint_key k" for k v
    proof -
      have "map_of (imd_properties m) k = Some v" using that same(2,3) by (metis map_of_is_SomeI)
      then show ?thesis using n that(2) map_of_SomeD by (fastforce simp: validate_checkpoints_ok)
    qed
    then show ?thesis by (auto simp: is_ok_iff validate_checkpoints_ok)
  qed
  ultimately show ?thesis using inv same by (auto simp: once_inv_def ckpt_inv_def)
qed

lemma once_history:
  assumes T: "uuid_text_ok T" and C: "apply_documented C"
  shows "appended T V C m rs \<Longrightarrow> once_inv T m rs"
proof (induction rule: appended.induct)
  case (ap_new m)
  have "map_of (imd_properties m) (writer_checkpoint_key T w) = None" for w
    using ap_new(2) checkpoint_key_is_key[of T w] unfolding map_of_eq_None_iff by blast
  moreover have "is_ok (validate_writer_checkpoints T table (imd_properties m))" for table
    using ap_new(2) by (fastforce simp: is_ok_iff validate_checkpoints_ok)
  ultimately show ?case using ap_new by (simp add: once_inv_def ckpt_inv_def writer_log_def parse_writer_checkpoint_def)
next
  case (ap_append m rs limit req ms t tx)
  then show ?case using once_append[OF T C] by blast
next
  case (ap_other m rs m')
  then show ?case using once_other by blast
qed


subsection \<open>Matching snapshots\<close>

lemma match_snapshots_Inr:
  "match_snapshots T table u i ss found = Inr b \<longleftrightarrow>
    (\<forall>s \<in> set ss. is_ok (snapshot_matches_append_identity T table u i (isn_props s))) \<and>
    (b \<longleftrightarrow> found \<or> (\<exists>s \<in> set ss. snapshot_matches_append_identity T table u i (isn_props s) = Inr True))"
proof (induction ss arbitrary: found)
  case (Cons s ss)
  show ?case
    by (cases "snapshot_matches_append_identity T table u i (isn_props s)") (auto simp: Cons.IH)
qed auto

lemma snapshot_match_history:
  assumes T: "uuid_text_ok T" and inv: "once_inv T m rs" and s: "s \<in> set (imd_snapshots m)"
    and fresh: "\<forall>r \<in> set rs. ac_commit_id (ca_identity r) = ac_commit_id i \<longrightarrow> ca_identity r = i"
  shows "\<exists>b. snapshot_matches_append_identity T table (imd_uuid m) i (isn_props s) = Inr b \<and> (b \<longrightarrow> i \<in> ca_identity ` set rs)"
proof (cases "map_of (isn_props s) COMMIT_ID_PROPERTY")
  case None
  then show ?thesis by (intro exI[of _ False]) (simp add: snapshot_matches_append_identity_def)
next
  case (Some v)
  then obtain r where r: "r \<in> set rs" "published_by T s r" using inv s by (auto simp: once_inv_def)
  then have u: "ca_table_uuid r = imd_uuid m" using inv by (simp add: once_inv_def)
  have "snapshot_matches_append_identity T table (imd_uuid m) i (isn_props s) =
    (if ac_commit_id i \<noteq> ac_commit_id (ca_identity r) then Inr False
     else if imd_uuid m = ca_table_uuid r \<and> i = ca_identity r then Inr True
     else check_identity_properties table (isn_props s) (append_snapshot_identity_properties T (imd_uuid m) i))"
    by (rule matches_published[OF T], rule bspec[OF r(2)[unfolded published_by_def]])
  then show ?thesis using fresh r u by force
qed

lemma match_history:
  assumes T: "uuid_text_ok T" and inv: "once_inv T m rs"
    and fresh: "\<forall>r \<in> set rs. ac_commit_id (ca_identity r) = ac_commit_id i \<longrightarrow> ca_identity r = i"
  shows "\<exists>b. match_snapshots T table (imd_uuid m) i (imd_snapshots m) False = Inr b \<and> (b \<longrightarrow> i \<in> ca_identity ` set rs)"
proof -
  let ?b = "\<exists>s \<in> set (imd_snapshots m). snapshot_matches_append_identity T table (imd_uuid m) i (isn_props s) = Inr True"
  have "match_snapshots T table (imd_uuid m) i (imd_snapshots m) False = Inr ?b"
    unfolding match_snapshots_Inr using snapshot_match_history[OF T inv _ fresh] by (auto simp: is_ok_iff)
  moreover have "i \<in> ca_identity ` set rs" if ?b
    using that snapshot_match_history[OF T inv _ fresh, of _ table] by (metis Inr_inject)
  ultimately show ?thesis by blast
qed

subsection \<open>The state of the guard\<close>





lemma map_sum_id_Inl [simp]: "map_sum f id r = Inl x \<longleftrightarrow> (\<exists>e. r = Inl e \<and> x = f e)"
  by (cases r) auto


section \<open>Properties\<close>

text \<open>Property C3. Exactly-once commits. In every history of a table that guarded appends of any number of writers and
  unrelated commits (which may expire snapshots) produce, each generation of each writer is published by at most
  one append; and the appends of a writer are published in generation order with non-decreasing epochs, so a retried or
  replayed append, or one of a fenced older process, never publishes its records again.\<close>

theorem append_exactly_once:
  assumes "uuid_text_ok T" "apply_documented C" "appended T V C m rs"
  shows "length (filter (\<lambda>i. ac_writer_id i = w \<and> range_contains (ac_generations i) g) (map ca_identity rs)) \<le> 1 \<and>
    sorted_wrt (\<lambda>i j. ac_writer_id i = ac_writer_id j \<longrightarrow>
      ac_writer_epoch i \<le> ac_writer_epoch j \<and> gr_hi (ac_generations i) < gr_lo (ac_generations j)) (map ca_identity rs)"
proof -
  have s: "sorted_wrt in_order (map ca_identity rs)" using once_history[OF assms] by (simp add: once_inv_def)
  let ?xs = "filter (\<lambda>i. ac_writer_id i = w \<and> range_contains (ac_generations i) g) (map ca_identity rs)"
  have sx: "sorted_wrt in_order ?xs" using s by (rule sorted_wrt_filter)
  have "length ?xs \<le> 1"
  proof (rule ccontr)
    assume "\<not> length ?xs \<le> 1"
    then obtain i j rest where xs: "?xs = i # j # rest" by (cases ?xs; cases "tl ?xs") auto
    then have "in_order i j" "i \<in> set ?xs" "j \<in> set ?xs" using sx by auto
    then show False by (auto simp: in_order_def range_contains_def)
  qed
  then show ?thesis using s unfolding in_order_def[abs_def] by blast
qed

text \<open>Property C15. Exact status resolution. On a table with such a history, as long as the commit id of the request
  is not shared with another append, the status check answers \<open>Committed\<close> only if that very append was published,
  answers \<open>NotCommitted\<close> if it was never published, and answers \<open>Committed\<close> if it is the last append its writer
  published, even when its snapshot has been expired.\<close>

theorem status_exact:
  assumes T: "uuid_text_ok T" and C: "apply_documented C" and h: "appended T V C m rs"
    and load: "ic_load C w (make_table_ident (ca_table req)) = Inr loaded" "itb_metadata loaded = m"
    and req: "identity_wf (ca_identity req)" "ca_table_uuid req = imd_uuid m" "\<not> is_nil (imd_uuid m)"
    and fresh: "\<forall>r \<in> set rs. ac_commit_id (ca_identity r) = ac_commit_id (ca_identity req) \<longrightarrow> ca_identity r = ca_identity req"
  shows "(\<forall>d. resolve_append_status T V C req w = Inr (Committed d) \<longrightarrow> ca_identity req \<in> ca_identity ` set rs) \<and>
    (ca_identity req \<notin> ca_identity ` set rs \<longrightarrow> resolve_append_status T V C req w = Inr NotCommitted) \<and>
    (writer_log (ac_writer_id (ca_identity req)) rs \<noteq> [] \<longrightarrow>
      last (writer_log (ac_writer_id (ca_identity req)) rs) = ca_identity req \<longrightarrow>
      resolve_append_status T V C req w = bind_r (cv_metadata V (ca_table req) m) (\<lambda>d. Inr (Committed d)))"
proof -
  let ?i = "ca_identity req" and ?w = "ac_writer_id (ca_identity req)"
  have inv: "once_inv T m rs" using once_history[OF T C h] .
  obtain b where b: "match_snapshots T (ca_table req) (imd_uuid m) ?i (imd_snapshots m) False = Inr b"
    "b \<longrightarrow> ?i \<in> ca_identity ` set rs" using match_history[OF T inv fresh] by blast
  obtain n where n: "validate_writer_checkpoints T (ca_table req) (imd_properties m) = Inr n"
    using inv unfolding once_inv_def is_ok_iff by blast
  have ck: "ckpt_inv T m rs" using inv by (simp add: once_inv_def)
  have iv: "identity_validate ?i (ca_table req) (imd_uuid m) = Inr ()" using req by simp
  have log: "ac_commit_id (last (writer_log ?w rs)) = ac_commit_id ?i \<Longrightarrow> writer_log ?w rs \<noteq> [] \<Longrightarrow> last (writer_log ?w rs) = ?i"
    "writer_log ?w rs \<noteq> [] \<Longrightarrow> last (writer_log ?w rs) = ?i \<Longrightarrow> ?i \<in> ca_identity ` set rs"
    using fresh last_in_set[of "writer_log ?w rs"] by (auto simp: writer_log_def)
  show ?thesis
  proof (cases "writer_log ?w rs = []")
    case True
    then have "parse_writer_checkpoint T (ca_table req) (imd_properties m) ?w = Inr None"
      using ck unfolding ckpt_inv_def by meson
    then show ?thesis using True b n load req by (auto simp: resolve_append_status_def Let_def)
  next
    case False
    then obtain ms where p: "parse_writer_checkpoint T (ca_table req) (imd_properties m) ?w =
        Inr (Some (identity_ckpt (last (writer_log ?w rs)) ms))"
      using ck unfolding ckpt_inv_def by meson
    show ?thesis
    proof (cases "last (writer_log ?w rs) = ?i")
      case True
      have "resolve_append_status T V C req w = bind_r (cv_metadata V (ca_table req) m) (\<lambda>d. Inr (Committed d))"
        using b n load(1) req(2) p
        by (simp add: load(2) iv True resolve_append_status_def Let_def identity_ckpt_def WriterCheckpoint_new_def del: identity_validate_ok)
      then show ?thesis using log(2)[OF False True] by simp
    next
      case other: False
      then have "ac_commit_id (last (writer_log ?w rs)) \<noteq> ac_commit_id ?i" using log(1) False by blast
      then have "resolve_append_status T V C req w =
          (if b then bind_r (cv_metadata V (ca_table req) m) (\<lambda>d. Inr (Committed d)) else Inr NotCommitted)"
        using b(1) n load(1) req(2) p
        by (simp add: load(2) iv resolve_append_status_def Let_def identity_ckpt_def WriterCheckpoint_new_def del: identity_validate_ok)
      then show ?thesis using other b(2) by auto
    qed
  qed
qed



section \<open>A concrete catalog\<close>

text \<open>A catalog with one table, given by its versions, newest first.\<close>

definition demo_not_found :: IceError where
  "demo_not_found = \<lparr>ie_kind = K_TableNotFound, ie_text = [], ie_retryable = False, ie_sources = []\<rparr>"

definition demo_apply :: "'f IceTransaction \<Rightarrow> IceMetadata \<Rightarrow> IceMetadata" where
  "demo_apply tx m =
    (let ps = filter (\<lambda>p. fst p \<notin> set (itx_remove_properties tx)) (put_all (itx_set_properties tx) (imd_properties m)) in
     case itx_append tx of
       None \<Rightarrow> m\<lparr>imd_properties := ps\<rparr>
     | Some a \<Rightarrow>
         let s = \<lparr>isn_id = int (Suc (sum_list (map (\<lambda>s. nat \<bar>isn_id s\<bar>) (imd_snapshots m)))),
                  isn_parent = imd_current_snapshot_id m, isn_timestamp_ms = 0, isn_props = iap_snapshot_properties a\<rparr>
         in m\<lparr>imd_properties := ps, imd_snapshots := imd_snapshots m @ [s], imd_current_snapshot_id := Some (isn_id s)\<rparr>)"

definition demo_commit :: "(IceTable \<Rightarrow> IceError option) \<Rightarrow> IceTableIdent \<Rightarrow> 'f IceTransaction \<Rightarrow> IceMetadata list
      \<Rightarrow> IceMetadata list \<times> IceTable list \<times> (IceError + IceMetadata)" where
  "demo_commit refuse ident tx w =
    (case w of
       [] \<Rightarrow> (w, [], Inl demo_not_found)
     | m # _ \<Rightarrow>
        (let t = \<lparr>itb_identifier = ident, itb_metadata = m\<rparr> in
         case refuse t of
           Some e \<Rightarrow> (w, [t], Inl e)
         | None \<Rightarrow> (demo_apply tx m # w, [t], Inr (demo_apply tx m))))"

definition demo_ops :: "(IceMetadata list, 'f) ice_ops" where
  "demo_ops = \<lparr>ic_load = (\<lambda>w ident. case w of [] \<Rightarrow> Inl demo_not_found | m # _ \<Rightarrow> Inr \<lparr>itb_identifier = ident, itb_metadata = m\<rparr>),
     ic_commit = demo_commit,
     ic_commit_plain = (\<lambda>ident base tx w. case w of [] \<Rightarrow> (w, Inl demo_not_found) | m # _ \<Rightarrow> (demo_apply tx m # w, Inr (demo_apply tx m))),
     ic_apply = demo_apply\<rparr>"

lemma demo_apply_documented: "apply_documented (demo_ops :: (IceMetadata list, 'f) ice_ops)"
proof -
  have "int (Suc (sum_list (map (\<lambda>s. nat \<bar>isn_id s\<bar>) ss))) \<noteq> isn_id s" if "s \<in> set ss" for s :: IceSnapshot and ss
  proof -
    have "nat \<bar>isn_id s\<bar> \<le> sum_list (map (\<lambda>s. nat \<bar>isn_id s\<bar>) ss)" using that by (intro member_le_sum_list) auto
    then show ?thesis by linarith
  qed
  then show ?thesis
    by (auto simp: apply_documented_def demo_ops_def demo_apply_def Let_def split: option.splits)
qed





definition demo_convert :: "DataFile convert_ops" where
  "demo_convert = \<lparr>cv_file = (\<lambda>f _. Inr f), cv_metadata = (\<lambda>_ _. Inr demo_metadata), cv_paths_json = (\<lambda>ps. Some (concat ps)),
     cv_version = ''1''\<rparr>"

definition demo_ice :: IceMetadata where
  "demo_ice = \<lparr>imd_uuid = 3, imd_properties = [], imd_snapshots = [], imd_current_snapshot_id = None, imd_partition_specs = []\<rparr>"

definition demo_request :: CommitAppend where
  "demo_request = \<lparr>ca_table = TableIdent_new ''ns'' ''t'', ca_table_uuid = 3, ca_identity = demo_append_identity,
     ca_base_snapshot_id = None, ca_added_data_files = [], ca_properties = []\<rparr>"

definition demo_tx :: "DataFile IceTransaction" where
  "demo_tx = (case build_append_transaction demo_text demo_convert (Some 5) demo_request \<lparr>itb_identifier = make_table_ident (ca_table demo_request),
     itb_metadata = demo_ice\<rparr> of Inr tx \<Rightarrow> tx)"

lemma demo_guard: "guard_validate demo_text 10 demo_request demo_ice = Inr ()"
  by (simp add: guard_validate_def Let_def demo_request_def demo_append_identity_def demo_ice_def identity_validate_def is_nil_def
      parse_writer_checkpoint_def exact_checkpoint_def)

lemma demo_build: "build_append_transaction demo_text demo_convert (Some 5) demo_request
    \<lparr>itb_identifier = make_table_ident (ca_table demo_request), itb_metadata = demo_ice\<rparr> = Inr demo_tx"
  unfolding demo_tx_def
  by (simp add: build_append_transaction_def snapshot_properties_def checkpoint_property_def demo_request_def demo_text_def
      WriterCheckpoint_encode_def)

lemma demo_ckpt_ok: "ckpt_text_ok demo_text (WriterCheckpoint_new 1 2 9 5)"
proof -
  have "length (join_with (CHR '','') (demo_fields (WriterCheckpoint_new 1 2 9 5))) \<le> MAX_WRITER_CHECKPOINT_VALUE_BYTES"
    by (simp add: demo_fields_def WriterCheckpoint_new_def MAX_WRITER_CHECKPOINT_VALUE_BYTES_def WRITE_PROTOCOL_VERSION_def
        dec_str.simps)
  then show ?thesis using demo_ckpt_roundtrip[of "WriterCheckpoint_new 1 2 9 5"]
    by (simp add: ckpt_text_ok_def) (simp add: demo_text_def WriterCheckpoint_new_def)
qed

lemma demo_appended: "appended demo_text demo_convert demo_ops (ic_apply demo_ops demo_tx demo_ice) [demo_request]"
proof -
  have "appended demo_text demo_convert (demo_ops :: (IceMetadata list, DataFile) ice_ops) demo_ice []"
    by (rule ap_new) (simp_all add: demo_ice_def)
  from ap_append[OF this demo_guard demo_build] show ?thesis
    using demo_ckpt_ok by (simp add: demo_request_def demo_append_identity_def)
qed

lemma append_exactly_once_witness:
  "appended demo_text demo_convert demo_ops (ic_apply demo_ops demo_tx demo_ice) [demo_request] \<and>
   length (filter (\<lambda>i. ac_writer_id i = 7 \<and> range_contains (ac_generations i) 2) (map ca_identity [demo_request])) \<le> 1"
  using append_exactly_once[OF demo_text_ok demo_apply_documented demo_appended] demo_appended by blast

lemma status_exact_witness:
  "resolve_append_status demo_text demo_convert demo_ops demo_request [ic_apply demo_ops demo_tx demo_ice] = Inr (Committed demo_metadata)"
proof -
  let ?m = "ic_apply (demo_ops :: (IceMetadata list, DataFile) ice_ops) demo_tx demo_ice"
  have u: "imd_uuid ?m = 3" by (simp add: demo_ops_def demo_apply_def Let_def demo_ice_def split: option.splits)
  have load: "ic_load demo_ops [?m] (make_table_ident (ca_table demo_request)) =
      Inr \<lparr>itb_identifier = make_table_ident (ca_table demo_request), itb_metadata = ?m\<rparr>"
    by (simp add: demo_ops_def)
  have wf: "identity_wf (ca_identity demo_request)"
    by (simp add: demo_request_def demo_append_identity_def identity_wf_def is_nil_def)
  have uu: "ca_table_uuid demo_request = imd_uuid ?m" "\<not> is_nil (imd_uuid ?m)" by (simp_all add: u demo_request_def is_nil_def)
  have log: "writer_log (ac_writer_id (ca_identity demo_request)) [demo_request] = [ca_identity demo_request]" by (simp add: writer_log_def)
  have "resolve_append_status demo_text demo_convert demo_ops demo_request [?m] =
      bind_r (cv_metadata demo_convert (ca_table demo_request) ?m) (\<lambda>d. Inr (Committed d))"
    using status_exact[OF demo_text_ok demo_apply_documented demo_appended load _ wf uu] log by simp
  then show ?thesis by (simp add: demo_convert_def)
qed


end
