(* ===== verification/Manifests.thy ===== *)
theory Manifests
  imports Append_Once
begin

text \<open>Manifest walking (\<open>crates/teodb-catalog/src/adapter/manifests.rs\<close>) and the snapshot retention policy
  (\<open>crates/teodb-core/src/snapshot_retention.rs\<close>): the live files of a table under the removed-file markers of
  replace commits, the files that snapshots reference, and the files that retained snapshots protect.

  Reading manifest lists and manifests is the Iceberg crate's; the JSON of a marker is \<open>serde_json\<close>'s: both are the fields of
  \<open>manifest_ops\<close>. The walk over the snapshot lineage is a loop that a cyclic lineage would never leave, so it is a partial
  function whose value is \<open>None\<close> when it does not return.\<close>

section \<open>Snapshot retention\<close>

definition i64_max :: int where "i64_max = 2 ^ 63 - 1"

definition i64_min :: int where "i64_min = - (2 ^ 63)"

definition i64_saturating_sub :: "int \<Rightarrow> int \<Rightarrow> int" where
  "i64_saturating_sub a b = max i64_min (min i64_max (a - b))"

record SnapshotRetention =
  sr_max_age_ms :: nat
  sr_keep_last :: nat

definition select_expired_snapshots ::
    "(snapshot_id \<times> int) list \<Rightarrow> snapshot_id option \<Rightarrow> SnapshotRetention \<Rightarrow> snapshot_id set \<Rightarrow> int \<Rightarrow> snapshot_id set" where
  "select_expired_snapshots snapshots current retention protected now_ms =
    (let keep_last = max (sr_keep_last retention) 1;
         cutoff_ms = i64_saturating_sub now_ms (min (int (sr_max_age_ms retention)) i64_max);
         by_recency = sort_key (\<lambda>(_, ts). - ts) snapshots
     in set (map fst (filter (\<lambda>(i, ts). ts < cutoff_ms \<and> Some i \<noteq> current \<and> i \<notin> protected) (drop keep_last by_recency))))"

section \<open>Manifests\<close>

record 'f IceManifest =
  imf_schema_id :: int
  imf_schema :: SchemaDefinition
  imf_partition_spec :: PartitionSpec
  imf_entries :: "(bool \<times> 'f) list"

record 'f manifest_ops =
  mo_manifests :: "IceSnapshot \<Rightarrow> IceError + string list"
  mo_read :: "string \<Rightarrow> IceError + 'f IceManifest"
  mo_path :: "'f \<Rightarrow> string"
  mo_paths_json :: "string \<Rightarrow> string list option"

record 'f LoadedIcebergDataFile =
  lf_file :: 'f
  lf_schema_id :: int
  lf_schema :: SchemaDefinition
  lf_partition_spec_id :: int
  lf_partition_spec :: PartitionSpec

text \<open>\<open>collect\<close> into a hash map keeps the last snapshot of an id.\<close>

definition snapshots_by_id :: "IceSnapshot list \<Rightarrow> snapshot_id \<Rightarrow> IceSnapshot option" where
  "snapshots_by_id ss i = map_of (rev (map (\<lambda>s. (isn_id s, s)) ss)) i"

definition removed_on :: "'f manifest_ops \<Rightarrow> IceSnapshot \<Rightarrow> string set teo_result" where
  "removed_on M s =
    (case map_of (isn_props s) REMOVED_DATA_FILES_PROP of
       None \<Rightarrow> Inr {}
     | Some raw \<Rightarrow> (case mo_paths_json M raw of
         None \<Rightarrow> Inl (CatalogErr ''failed to parse teodb.removed_data_files on snapshot'')
       | Some paths \<Rightarrow> Inr (set paths)))"

partial_function (option) removed_loop ::
    "'f manifest_ops \<Rightarrow> (snapshot_id \<Rightarrow> IceSnapshot option) \<Rightarrow> snapshot_id option \<Rightarrow> string set \<Rightarrow> string set teo_result option" where
  "removed_loop M lookup next removed =
    (case next of
       None \<Rightarrow> Some (Inr removed)
     | Some snapshot_id \<Rightarrow>
        (case lookup snapshot_id of
           None \<Rightarrow> Some (Inl (CatalogErr ''snapshot referenced by current lineage is missing from table metadata''))
         | Some snapshot \<Rightarrow>
            (case removed_on M snapshot of
               Inl e \<Rightarrow> Some (Inl e)
             | Inr paths \<Rightarrow> removed_loop M lookup (isn_parent snapshot) (removed \<union> paths))))"

definition removed_data_file_paths :: "'f manifest_ops \<Rightarrow> IceMetadata \<Rightarrow> string set teo_result option" where
  "removed_data_file_paths M m =
    removed_loop M (snapshots_by_id (imd_snapshots m)) (imd_current_snapshot_id m) {}"

definition read_manifest :: "'f manifest_ops \<Rightarrow> string \<Rightarrow> 'f IceManifest teo_result" where
  "read_manifest M path = map_sum map_iceberg_error id (mo_read M path)"

definition live_entries :: "'f manifest_ops \<Rightarrow> string set \<Rightarrow> 'f IceManifest \<Rightarrow> 'f LoadedIcebergDataFile list" where
  "live_entries M removed f =
    map (\<lambda>(_, file). \<lparr>lf_file = file, lf_schema_id = imf_schema_id f, lf_schema = imf_schema f,
        lf_partition_spec_id = sp_spec_id (imf_partition_spec f), lf_partition_spec = imf_partition_spec f\<rparr>)
      (filter (\<lambda>(alive, file). alive \<and> mo_path M file \<notin> removed) (imf_entries f))"

fun live_of_manifests ::
    "'f manifest_ops \<Rightarrow> string set \<Rightarrow> string list \<Rightarrow> 'f LoadedIcebergDataFile list teo_result" where
  "live_of_manifests M removed [] = Inr []"
| "live_of_manifests M removed (p # ps) =
    bind_r (read_manifest M p) (\<lambda>f.
    bind_r (live_of_manifests M removed ps) (\<lambda>rest. Inr (live_entries M removed f @ rest)))"

definition live_data_files :: "'f manifest_ops \<Rightarrow> IceMetadata \<Rightarrow> 'f LoadedIcebergDataFile list teo_result option" where
  "live_data_files M m =
    (case imd_current_snapshot m of
       None \<Rightarrow> Some (Inr [])
     | Some snapshot \<Rightarrow>
        (case removed_data_file_paths M m of
           None \<Rightarrow> None
         | Some (Inl e) \<Rightarrow> Some (Inl e)
         | Some (Inr removed) \<Rightarrow>
             Some (bind_r (map_sum map_iceberg_error id (mo_manifests M snapshot)) (live_of_manifests M removed))))"

fun reference_manifests ::
    "'f manifest_ops \<Rightarrow> string list \<Rightarrow> string set \<times> string set \<Rightarrow> (string set \<times> string set) teo_result" where
  "reference_manifests M [] acc = Inr acc"
| "reference_manifests M (p # ps) (seen, referenced) =
    (if p \<in> seen then reference_manifests M ps (seen, referenced)
     else bind_r (read_manifest M p) (\<lambda>f.
       reference_manifests M ps (insert p seen, referenced \<union> set (map (\<lambda>(_, file). mo_path M file) (imf_entries f)))))"

fun reference_snapshots ::
    "'f manifest_ops \<Rightarrow> (snapshot_id \<Rightarrow> bool) \<Rightarrow> IceSnapshot list \<Rightarrow> string set \<times> string set
      \<Rightarrow> (string set \<times> string set) teo_result" where
  "reference_snapshots M include [] acc = Inr acc"
| "reference_snapshots M include (s # ss) acc =
    (if \<not> include (isn_id s) then reference_snapshots M include ss acc
     else bind_r (map_sum map_iceberg_error id (mo_manifests M s)) (\<lambda>manifests.
       bind_r (reference_manifests M manifests acc) (reference_snapshots M include ss)))"

definition collect_referenced_paths ::
    "'f manifest_ops \<Rightarrow> (snapshot_id \<Rightarrow> bool) \<Rightarrow> IceMetadata \<Rightarrow> string set teo_result" where
  "collect_referenced_paths M include m = map_sum id snd (reference_snapshots M include (imd_snapshots m) ({}, {}))"

text \<open>The clock is \<open>None\<close> before the epoch, else the milliseconds since it.\<close>

definition retained_file_set ::
    "'f manifest_ops \<Rightarrow> SnapshotRetention \<Rightarrow> snapshot_id set \<Rightarrow> nat option \<Rightarrow> IceMetadata \<Rightarrow> RetainedFileSet teo_result" where
  "retained_file_set M retention protected clock m =
    (let history = map (\<lambda>s. (isn_id s, isn_timestamp_ms s)) (imd_snapshots m);
         now_ms = (case clock of None \<Rightarrow> 0 | Some ms \<Rightarrow> min (int ms) i64_max);
         expired = select_expired_snapshots history (imd_current_snapshot_id m) retention protected now_ms;
         retained = set (filter (\<lambda>i. i \<notin> expired) (map fst history))
     in bind_r (collect_referenced_paths M (\<lambda>i. i \<in> retained) m) (\<lambda>paths.
        Inr \<lparr>rf_paths = paths, rf_retained_snapshots = retained, rf_expired_snapshots = card expired\<rparr>))"

definition load_live_files ::
    "'f manifest_ops \<Rightarrow> ('w, 'f) ice_ops \<Rightarrow> ('f LoadedIcebergDataFile list \<Rightarrow> DataFile list teo_result) \<Rightarrow> TableIdent \<Rightarrow> 'w
      \<Rightarrow> DataFile list teo_result option" where
  "load_live_files M C to_teodb ident w =
    (case map_sum map_iceberg_error id (ic_load C w (make_table_ident ident)) of
       Inl e \<Rightarrow> Some (Inl e)
     | Inr table \<Rightarrow> map_option (\<lambda>r. bind_r r to_teodb) (live_data_files M (itb_metadata table)))"

definition load_all_referenced_file_paths ::
    "'f manifest_ops \<Rightarrow> ('w, 'f) ice_ops \<Rightarrow> TableIdent \<Rightarrow> 'w \<Rightarrow> string set teo_result" where
  "load_all_referenced_file_paths M C ident w =
    bind_r (map_sum map_iceberg_error id (ic_load C w (make_table_ident ident))) (\<lambda>table.
      collect_referenced_paths M (\<lambda>_. True) (itb_metadata table))"

definition load_retained_file_paths ::
    "'f manifest_ops \<Rightarrow> ('w, 'f) ice_ops \<Rightarrow> TableIdent \<Rightarrow> SnapshotRetention \<Rightarrow> snapshot_id set \<Rightarrow> nat option \<Rightarrow> 'w
      \<Rightarrow> RetainedFileSet teo_result" where
  "load_retained_file_paths M C ident retention protected clock w =
    bind_r (map_sum map_iceberg_error id (ic_load C w (make_table_ident ident))) (\<lambda>table.
      retained_file_set M retention protected clock (itb_metadata table))"


section \<open>Lemmas\<close>

subsection \<open>The lineage walk\<close>

text \<open>A lineage is well-formed when ids are distinct and a parent is listed before its child, which is how commits
  build it.\<close>

definition lineage_wf :: "IceSnapshot list \<Rightarrow> bool" where
  "lineage_wf ss \<longleftrightarrow> distinct (map isn_id ss) \<and>
    (\<forall>j < length ss. case isn_parent (ss ! j) of None \<Rightarrow> True | Some p \<Rightarrow> \<exists>i < j. isn_id (ss ! i) = p)"

inductive lineage :: "IceSnapshot list \<Rightarrow> snapshot_id option \<Rightarrow> IceSnapshot \<Rightarrow> bool" for ss where
  ln_here: "snapshots_by_id ss i = Some s \<Longrightarrow> lineage ss (Some i) s"
| ln_up: "snapshots_by_id ss i = Some s \<Longrightarrow> lineage ss (isn_parent s) t \<Longrightarrow> lineage ss (Some i) t"

inductive_simps lineage_None: "lineage ss None t"
inductive_simps lineage_Some: "lineage ss (Some i) t"

lemma snapshots_by_id_nth: "distinct (map isn_id ss) \<Longrightarrow> j < length ss \<Longrightarrow> snapshots_by_id ss (isn_id (ss ! j)) = Some (ss ! j)"
  unfolding snapshots_by_id_def
proof (rule map_of_is_SomeI)
  assume "distinct (map isn_id ss)"
  moreover have "map fst (rev (map (\<lambda>s. (isn_id s, s)) ss)) = rev (map isn_id ss)" by (simp add: rev_map comp_def)
  ultimately show "distinct (map fst (rev (map (\<lambda>s. (isn_id s, s)) ss)))" by (simp only: distinct_rev)
qed auto

lemma snapshots_by_id_Some: "snapshots_by_id ss i = Some s \<Longrightarrow> s \<in> set ss \<and> isn_id s = i"
  by (auto simp: snapshots_by_id_def dest: map_of_SomeD)

definition markers :: "'f manifest_ops \<Rightarrow> IceSnapshot list \<Rightarrow> snapshot_id option \<Rightarrow> string set" where
  "markers M ss i = \<Union> {ps. \<exists>t. lineage ss i t \<and> removed_on M t = Inr ps}"

lemma markers_None [simp]: "markers M ss None = {}"
  by (simp add: markers_def lineage_None)

lemma markers_Some:
  assumes "snapshots_by_id ss i = Some s" "removed_on M s = Inr ps"
  shows "markers M ss (Some i) = ps \<union> markers M ss (isn_parent s)"
  unfolding markers_def lineage_Some using assms by auto

lemma removed_loop_exact:
  assumes wf: "lineage_wf ss" and j: "j < length ss"
    and parse: "\<And>t. lineage ss (Some (isn_id (ss ! j))) t \<Longrightarrow> is_ok (removed_on M t)"
  shows "removed_loop M (snapshots_by_id ss) (Some (isn_id (ss ! j))) R = Some (Inr (R \<union> markers M ss (Some (isn_id (ss ! j)))))"
  using j parse
proof (induction j arbitrary: R rule: less_induct)
  case (less j)
  have look: "snapshots_by_id ss (isn_id (ss ! j)) = Some (ss ! j)" using wf less.prems(1) by (simp add: lineage_wf_def snapshots_by_id_nth)
  obtain ps where ps: "removed_on M (ss ! j) = Inr ps" using less.prems(2)[OF ln_here[OF look]] by (auto simp: is_ok_iff)
  have step: "removed_loop M (snapshots_by_id ss) (Some (isn_id (ss ! j))) R =
      removed_loop M (snapshots_by_id ss) (isn_parent (ss ! j)) (R \<union> ps)"
    by (subst removed_loop.simps) (simp add: look ps)
  show ?case
  proof (cases "isn_parent (ss ! j)")
    case None
    then show ?thesis using step markers_Some[OF look ps] by (simp add: removed_loop.simps)
  next
    case (Some p)
    then obtain i where i: "i < j" "isn_id (ss ! i) = p" using wf less.prems(1) by (auto simp: lineage_wf_def split: option.splits)
    have "removed_loop M (snapshots_by_id ss) (Some p) (R \<union> ps) = Some (Inr (R \<union> ps \<union> markers M ss (Some p)))"
      using less.IH[of i "R \<union> ps"] i less.prems ln_up[OF look] Some by simp
    then show ?thesis using step markers_Some[OF look ps] Some by (simp add: Un_assoc)
  qed
qed

lemma removed_loop_total:
  assumes wf: "lineage_wf ss" and j: "j < length ss"
  shows "removed_loop M (snapshots_by_id ss) (Some (isn_id (ss ! j))) R \<noteq> None"
  using j
proof (induction j arbitrary: R rule: less_induct)
  case (less j)
  have look: "snapshots_by_id ss (isn_id (ss ! j)) = Some (ss ! j)" using wf less.prems(1) by (simp add: lineage_wf_def snapshots_by_id_nth)
  show ?case
  proof (cases "removed_on M (ss ! j)")
    case (Inl e)
    then show ?thesis by (subst removed_loop.simps) (simp add: look)
  next
    case (Inr ps)
    show ?thesis
    proof (cases "isn_parent (ss ! j)")
      case None
      then show ?thesis using Inr by (subst removed_loop.simps) (simp add: look removed_loop.simps)
    next
      case (Some p)
      then obtain i where "i < j" "isn_id (ss ! i) = p" using wf less.prems by (auto simp: lineage_wf_def split: option.splits)
      then show ?thesis using less.IH[of i] less.prems Inr Some by (subst removed_loop.simps) (auto simp: look)
    qed
  qed
qed

text \<open>Metadata that commits build from an empty table.\<close>

definition metadata_wf :: "IceMetadata \<Rightarrow> bool" where
  "metadata_wf m \<longleftrightarrow> lineage_wf (imd_snapshots m) \<and>
    (\<forall>i. imd_current_snapshot_id m = Some i \<longrightarrow> i \<in> isn_id ` set (imd_snapshots m))"

lemma metadata_wf_apply:
  assumes C: "apply_documented C" and wf: "metadata_wf m"
  shows "metadata_wf (ic_apply C tx m)"
proof (cases "itx_append tx")
  case None
  then show ?thesis using C[unfolded apply_documented_def, rule_format, of tx m] wf by (simp add: metadata_wf_def)
next
  case (Some a)
  then obtain s where s: "imd_snapshots (ic_apply C tx m) = imd_snapshots m @ [s]" "imd_current_snapshot_id (ic_apply C tx m) = Some (isn_id s)"
    "isn_parent s = imd_current_snapshot_id m" "isn_id s \<notin> isn_id ` set (imd_snapshots m)"
    using C[unfolded apply_documented_def, rule_format, of tx m] by auto
  let ?ss = "imd_snapshots m @ [s]"
  have "case isn_parent (?ss ! j) of None \<Rightarrow> True | Some p \<Rightarrow> \<exists>i < j. isn_id (?ss ! i) = p" if "j < length ?ss" for j
  proof (cases "j < length (imd_snapshots m)")
    case True
    then have "case isn_parent (imd_snapshots m ! j) of None \<Rightarrow> True | Some p \<Rightarrow> \<exists>i < j. isn_id (imd_snapshots m ! i) = p"
      using wf by (simp add: metadata_wf_def lineage_wf_def)
    then show ?thesis using True by (auto simp: nth_append split: option.splits intro: less_trans)
  next
    case False
    then have j: "j = length (imd_snapshots m)" using that by simp
    show ?thesis
    proof (cases "imd_current_snapshot_id m")
      case (Some p)
      then obtain x where "x \<in> set (imd_snapshots m)" "isn_id x = p" using wf by (auto simp: metadata_wf_def)
      then obtain i where "i < length (imd_snapshots m)" "isn_id (imd_snapshots m ! i) = p" by (metis in_set_conv_nth)
      then show ?thesis using Some s(3) j by (auto simp: nth_append)
    qed (simp add: s(3) j)
  qed
  then have "lineage_wf ?ss" using wf s(4) unfolding metadata_wf_def lineage_wf_def by simp
  then show ?thesis using s by (simp add: metadata_wf_def)
qed

lemma current_index:
  assumes "metadata_wf m" "imd_current_snapshot_id m = Some i"
  obtains j where "j < length (imd_snapshots m)" "isn_id (imd_snapshots m ! j) = i"
  using assms by (auto simp: metadata_wf_def in_set_conv_nth)

lemma removed_paths_total:
  assumes "metadata_wf m"
  shows "removed_data_file_paths M m \<noteq> None"
proof (cases "imd_current_snapshot_id m")
  case None
  then show ?thesis by (simp add: removed_data_file_paths_def removed_loop.simps)
next
  case (Some i)
  then obtain j where "j < length (imd_snapshots m)" "isn_id (imd_snapshots m ! j) = i" using current_index assms by blast
  then show ?thesis using removed_loop_total[of "imd_snapshots m" j M "{}"] assms Some
    by (simp add: removed_data_file_paths_def metadata_wf_def)
qed

lemma removed_paths_exact:
  assumes "metadata_wf m" "\<forall>t. lineage (imd_snapshots m) (imd_current_snapshot_id m) t \<longrightarrow> is_ok (removed_on M t)"
  shows "removed_data_file_paths M m = Some (Inr (markers M (imd_snapshots m) (imd_current_snapshot_id m)))"
proof (cases "imd_current_snapshot_id m")
  case None
  then show ?thesis by (simp add: removed_data_file_paths_def removed_loop.simps)
next
  case (Some i)
  then obtain j where "j < length (imd_snapshots m)" "isn_id (imd_snapshots m ! j) = i" using current_index assms(1) by blast
  then show ?thesis using removed_loop_exact[of "imd_snapshots m" j M "{}"] assms Some
    by (simp add: removed_data_file_paths_def metadata_wf_def)
qed


lemma removed_loop_shift:
  assumes wf: "lineage_wf ss" and d: "distinct (map isn_id (ss @ xs))" and j: "j < length ss"
  shows "removed_loop M (snapshots_by_id (ss @ xs)) (Some (isn_id (ss ! j))) (R \<union> X) =
    map_option (map_sum id (\<lambda>r. r \<union> X)) (removed_loop M (snapshots_by_id ss) (Some (isn_id (ss ! j))) R)"
  using j
proof (induction j arbitrary: R rule: less_induct)
  case (less j)
  have look: "snapshots_by_id ss (isn_id (ss ! j)) = Some (ss ! j)" "snapshots_by_id (ss @ xs) (isn_id (ss ! j)) = Some (ss ! j)"
    using d less.prems snapshots_by_id_nth[of ss j] snapshots_by_id_nth[of "ss @ xs" j] by (simp_all add: nth_append)
  show ?case
  proof (cases "removed_on M (ss ! j)")
    case (Inl e)
    then show ?thesis by (subst (1 2) removed_loop.simps) (simp add: look)
  next
    case (Inr ps)
    then have step: "removed_loop M (snapshots_by_id (ss @ xs)) (Some (isn_id (ss ! j))) (R \<union> X) =
        removed_loop M (snapshots_by_id (ss @ xs)) (isn_parent (ss ! j)) (R \<union> ps \<union> X)"
      "removed_loop M (snapshots_by_id ss) (Some (isn_id (ss ! j))) R = removed_loop M (snapshots_by_id ss) (isn_parent (ss ! j)) (R \<union> ps)"
      by (subst removed_loop.simps, simp add: look Un_ac)+
    show ?thesis
    proof (cases "isn_parent (ss ! j)")
      case None
      then show ?thesis using step by (simp add: removed_loop.simps)
    next
      case (Some p)
      then obtain i where "i < j" "isn_id (ss ! i) = p" using wf less.prems by (auto simp: lineage_wf_def split: option.splits)
      then show ?thesis using less.IH[of i "R \<union> ps"] less.prems step Some by simp
    qed
  qed
qed

lemma removed_shift:
  assumes wf: "metadata_wf m" and d: "distinct (map isn_id (imd_snapshots m @ xs))"
  shows "removed_loop M (snapshots_by_id (imd_snapshots m @ xs)) (imd_current_snapshot_id m) X =
    map_option (map_sum id (\<lambda>r. r \<union> X)) (removed_data_file_paths M m)"
proof (cases "imd_current_snapshot_id m")
  case None
  then show ?thesis by (simp add: removed_data_file_paths_def removed_loop.simps)
next
  case (Some i)
  then obtain j where "j < length (imd_snapshots m)" "isn_id (imd_snapshots m ! j) = i" using current_index wf by blast
  then show ?thesis using removed_loop_shift[of "imd_snapshots m" xs j M "{}" X] wf d Some
    by (simp add: removed_data_file_paths_def metadata_wf_def)
qed

subsection \<open>Live files\<close>

lemma live_more_removed:
  "live_of_manifests M R ps = Inr L \<Longrightarrow>
    live_of_manifests M (R \<union> X) ps = Inr (filter (\<lambda>l. mo_path M (lf_file l) \<notin> X) L)"
proof (induction ps arbitrary: L)
  case (Cons p ps)
  then obtain f L' where f: "read_manifest M p = Inr f" "live_of_manifests M R ps = Inr L'" "L = live_entries M R f @ L'" by auto
  have "live_entries M (R \<union> X) f = filter (\<lambda>l. mo_path M (lf_file l) \<notin> X) (live_entries M R f)"
    unfolding live_entries_def by (induction "imf_entries f") (auto simp: filter_map comp_def case_prod_beta' intro!: arg_cong[where f = "map _"] filter_cong)
  then show ?case using Cons.IH[OF f(2)] f by simp
qed simp

text \<open>What a fast append writes: a manifest with the added files in front of the manifests of the current snapshot.\<close>

definition appends_manifest :: "'f manifest_ops \<Rightarrow> ('w, 'f) ice_ops \<Rightarrow> 'f IceTransaction \<Rightarrow> IceMetadata \<Rightarrow> bool" where
  "appends_manifest M C tx m \<longleftrightarrow> (\<forall>a. itx_append tx = Some a \<longrightarrow>
     (\<exists>p f old. (case imd_current_snapshot m of None \<Rightarrow> old = [] | Some c \<Rightarrow> mo_manifests M c = Inr old) \<and>
       mo_manifests M (last (imd_snapshots (ic_apply C tx m))) = Inr (p # old) \<and> mo_read M p = Inr f \<and>
       imf_entries f = map (Pair True) (iap_data_files a)))"

lemma current_snapshot_Some:
  assumes "metadata_wf m"
  shows "imd_current_snapshot m = (case imd_current_snapshot_id m of None \<Rightarrow> None | Some i \<Rightarrow> snapshots_by_id (imd_snapshots m) i)"
proof (cases "imd_current_snapshot_id m")
  case (Some i)
  then obtain j where j: "j < length (imd_snapshots m)" "isn_id (imd_snapshots m ! j) = i" using current_index assms by blast
  then have "find (\<lambda>s. isn_id s = i) (imd_snapshots m) = Some (imd_snapshots m ! j)"
    using assms by (auto simp: find_Some_iff metadata_wf_def lineage_wf_def nth_eq_iff_index_eq distinct_conv_nth intro!: exI[of _ j])
  moreover have "snapshots_by_id (imd_snapshots m) i = Some (imd_snapshots m ! j)"
    using snapshots_by_id_nth[of "imd_snapshots m" j] assms j by (simp add: metadata_wf_def lineage_wf_def)
  ultimately show ?thesis using Some by (simp add: imd_current_snapshot_def)
qed (simp add: imd_current_snapshot_def)

lemma live_entries_files:
  "map lf_file (live_entries M R f) = map snd (filter (\<lambda>(alive, file). alive \<and> mo_path M file \<notin> R) (imf_entries f))"
  by (simp add: live_entries_def comp_def case_prod_beta')

lemma live_after_append:
  assumes C: "apply_documented C" and wf: "metadata_wf m" and man: "appends_manifest M C tx m"
    and a: "itx_append tx = Some a" "map_of (iap_snapshot_properties a) REMOVED_DATA_FILES_PROP = Some raw"
    and json: "mo_paths_json M raw = Some removed"
    and live: "live_data_files M m = Some (Inr L)"
    and fresh: "\<forall>f \<in> set (iap_data_files a). mo_path M f \<notin> set removed \<and>
      (\<forall>R. removed_data_file_paths M m = Some (Inr R) \<longrightarrow> mo_path M f \<notin> R)"
  shows "\<exists>L'. live_data_files M (ic_apply C tx m) = Some (Inr L') \<and>
    map lf_file L' = iap_data_files a @ filter (\<lambda>f. mo_path M f \<notin> set removed) (map lf_file L)"
proof -
  let ?m' = "ic_apply C tx m"
  obtain s where s: "imd_snapshots ?m' = imd_snapshots m @ [s]" "imd_current_snapshot_id ?m' = Some (isn_id s)"
    "isn_parent s = imd_current_snapshot_id m" "isn_id s \<notin> isn_id ` set (imd_snapshots m)"
    "map_of (isn_props s) REMOVED_DATA_FILES_PROP = Some raw"
    using C[unfolded apply_documented_def, rule_format, of tx m] a by auto
  have wf': "metadata_wf ?m'" using metadata_wf_apply[OF C wf] .
  have d: "distinct (map isn_id (imd_snapshots m @ [s]))" using wf' s(1) by (simp add: metadata_wf_def lineage_wf_def)
  have look: "snapshots_by_id (imd_snapshots m @ [s]) (isn_id s) = Some s" by (simp add: snapshots_by_id_def)
  have cur: "imd_current_snapshot ?m' = Some s" using current_snapshot_Some[OF wf'] s look by simp
  obtain p f old where man: "case imd_current_snapshot m of None \<Rightarrow> old = [] | Some c \<Rightarrow> mo_manifests M c = Inr old"
    "mo_manifests M s = Inr (p # old)" "mo_read M p = Inr f" "imf_entries f = map (Pair True) (iap_data_files a)"
    using man a s(1) unfolding appends_manifest_def by auto
  have "\<exists>R. removed_data_file_paths M m = Some (Inr R) \<and> live_of_manifests M R old = Inr L"
  proof (cases "imd_current_snapshot m")
    case None
    then have "imd_current_snapshot_id m = None"
      using current_snapshot_Some[OF wf] wf snapshots_by_id_nth
      by (auto simp: metadata_wf_def lineage_wf_def in_set_conv_nth split: option.splits)
    then show ?thesis using None live man(1) by (simp add: removed_data_file_paths_def removed_loop.simps live_data_files_def)
  next
    case (Some c)
    then show ?thesis using live man(1) by (auto simp: live_data_files_def split: option.splits sum.splits)
  qed
  then obtain R where R: "removed_data_file_paths M m = Some (Inr R)" "live_of_manifests M R old = Inr L" by blast
  have "removed_data_file_paths M ?m' = removed_loop M (snapshots_by_id (imd_snapshots m @ [s])) (imd_current_snapshot_id m) (set removed)"
    unfolding removed_data_file_paths_def s(1,2) by (subst removed_loop.simps) (simp add: look removed_on_def s json)
  then have rem: "removed_data_file_paths M ?m' = Some (Inr (R \<union> set removed))"
    using removed_shift[OF wf d, of M "set removed"] R(1) by simp
  have keep: "filter (\<lambda>(alive, file). alive \<and> mo_path M file \<notin> R \<union> set removed) (imf_entries f) = imf_entries f"
    using fresh R(1) by (auto simp: man(4) filter_map comp_def)
  have "live_data_files M ?m' = Some (Inr (live_entries M (R \<union> set removed) f @ filter (\<lambda>l. mo_path M (lf_file l) \<notin> set removed) L))"
    using live_more_removed[OF R(2), of "set removed"] man(2,3) by (simp add: live_data_files_def cur rem read_manifest_def)
  moreover have "map lf_file (live_entries M (R \<union> set removed) f) = iap_data_files a"
    unfolding live_entries_files keep by (simp add: man(4) comp_def)
  ultimately show ?thesis by (auto simp: filter_map comp_def)
qed


subsection \<open>Referenced and retained files\<close>

definition manifest_paths :: "'f manifest_ops \<Rightarrow> 'f IceManifest \<Rightarrow> string set" where
  "manifest_paths M f = mo_path M ` snd ` set (imf_entries f)"

definition covered :: "'f manifest_ops \<Rightarrow> string set \<Rightarrow> string set \<Rightarrow> bool" where
  "covered M seen referenced \<longleftrightarrow> (\<forall>p \<in> seen. \<exists>f. mo_read M p = Inr f \<and> manifest_paths M f \<subseteq> referenced)"

lemma reference_manifests_covered:
  assumes "reference_manifests M ps (seen, referenced) = Inr (seen', referenced')" "covered M seen referenced"
  shows "covered M seen' referenced' \<and> seen \<union> set ps \<subseteq> seen' \<and> referenced \<subseteq> referenced'"
  using assms
proof (induction ps arbitrary: seen referenced)
  case (Cons p ps)
  show ?case
  proof (cases "p \<in> seen")
    case True
    then have "reference_manifests M ps (seen, referenced) = Inr (seen', referenced')" using Cons.prems(1) by simp
    from Cons.IH[OF this Cons.prems(2)] show ?thesis using True by auto
  next
    case False
    then obtain f where f: "mo_read M p = Inr f" and rest: "reference_manifests M ps (insert p seen, referenced \<union> manifest_paths M f) = Inr (seen', referenced')"
      using Cons.prems(1) by (auto simp: read_manifest_def manifest_paths_def case_prod_beta' image_image)
    have "covered M (insert p seen) (referenced \<union> manifest_paths M f)" using Cons.prems(2) f unfolding covered_def by blast
    from Cons.IH[OF rest this] show ?thesis by auto
  qed
qed simp

lemma reference_snapshots_covered:
  assumes "reference_snapshots M include ss acc = Inr (seen', referenced')" "covered M (fst acc) (snd acc)"
  shows "covered M seen' referenced' \<and> fst acc \<subseteq> seen' \<and> snd acc \<subseteq> referenced' \<and>
    (\<forall>s \<in> set ss. include (isn_id s) \<longrightarrow> (\<exists>ps. mo_manifests M s = Inr ps \<and> set ps \<subseteq> seen'))"
  using assms
proof (induction ss arbitrary: acc)
  case (Cons s ss)
  show ?case
  proof (cases "include (isn_id s)")
    case False
    then show ?thesis using Cons by auto
  next
    case True
    then obtain ps seen1 ref1 where ps: "mo_manifests M s = Inr ps" "reference_manifests M ps (fst acc, snd acc) = Inr (seen1, ref1)"
      "reference_snapshots M include ss (seen1, ref1) = Inr (seen', referenced')"
      using Cons.prems(1) by auto
    have 1: "covered M seen1 ref1 \<and> fst acc \<union> set ps \<subseteq> seen1 \<and> snd acc \<subseteq> ref1"
      using reference_manifests_covered[OF ps(2)] Cons.prems(2) by simp
    from Cons.IH[OF ps(3)] 1 have "covered M seen' referenced' \<and> seen1 \<subseteq> seen' \<and> ref1 \<subseteq> referenced' \<and>
      (\<forall>s \<in> set ss. include (isn_id s) \<longrightarrow> (\<exists>ps. mo_manifests M s = Inr ps \<and> set ps \<subseteq> seen'))" by simp
    then show ?thesis using 1 ps(1) by auto
  qed
qed simp

lemma referenced_covers:
  assumes "collect_referenced_paths M include m = Inr paths" "s \<in> set (imd_snapshots m)" "include (isn_id s)"
    "mo_manifests M s = Inr ps" "p \<in> set ps" "mo_read M p = Inr f"
  shows "manifest_paths M f \<subseteq> paths"
proof -
  obtain seen where "reference_snapshots M include (imd_snapshots m) ({}, {}) = Inr (seen, paths)"
    using assms(1) by (auto simp: collect_referenced_paths_def)
  from reference_snapshots_covered[OF this] assms show ?thesis by (fastforce simp: covered_def)
qed

lemma live_paths_in_manifests:
  assumes "live_of_manifests M R ps = Inr L" "l \<in> set L"
  shows "\<exists>p f. p \<in> set ps \<and> mo_read M p = Inr f \<and> mo_path M (lf_file l) \<in> manifest_paths M f"
  using assms
proof (induction ps arbitrary: L)
  case (Cons p ps)
  then obtain f L' where f: "mo_read M p = Inr f" "live_of_manifests M R ps = Inr L'" "L = live_entries M R f @ L'"
    by (auto simp: read_manifest_def)
  show ?case
  proof (cases "l \<in> set L'")
    case True
    then show ?thesis using Cons.IH[OF f(2)] by auto
  next
    case False
    then have "mo_path M (lf_file l) \<in> manifest_paths M f"
      using Cons.prems(2) f(3) by (auto simp: live_entries_def manifest_paths_def image_image) force
    then show ?thesis using f(1) by (intro exI[of _ p] exI[of _ f]) simp
  qed
qed simp

lemma expired_facts:
  assumes "i \<in> select_expired_snapshots snapshots current retention protected now_ms"
  shows "Some i \<noteq> current" "i \<notin> protected"
    "\<exists>ts. (i, ts) \<in> set snapshots \<and> ts < i64_saturating_sub now_ms (min (int (sr_max_age_ms retention)) i64_max)"
proof -
  obtain ts where "(i, ts) \<in> set (drop (max (sr_keep_last retention) 1) (sort_key (\<lambda>(_, ts). - ts) snapshots))"
    "ts < i64_saturating_sub now_ms (min (int (sr_max_age_ms retention)) i64_max)" "Some i \<noteq> current" "i \<notin> protected"
    using assms by (auto simp: select_expired_snapshots_def Let_def)
  then show "Some i \<noteq> current" "i \<notin> protected"
    "\<exists>ts. (i, ts) \<in> set snapshots \<and> ts < i64_saturating_sub now_ms (min (int (sr_max_age_ms retention)) i64_max)"
    using in_set_dropD[of "(i, ts)" _ "sort_key (\<lambda>(_, ts). - ts) snapshots"] by auto
qed

lemma filter_unique: "distinct xs \<Longrightarrow> x \<in> set xs \<Longrightarrow> filter (\<lambda>y. y = x) xs = [x]"
  by (induction xs) (auto simp: filter_empty_conv)

lemma retained_count:
  assumes "distinct (map fst snapshots)"
  shows "min (max (sr_keep_last retention) 1) (length snapshots) \<le>
    card (fst ` set snapshots - select_expired_snapshots snapshots current retention protected now_ms)"
proof -
  let ?k = "max (sr_keep_last retention) 1" and ?s = "sort_key (\<lambda>(_, ts). - ts) snapshots"
  have d: "distinct (map fst ?s)"
    using assms by (simp add: distinct_map)
  have "map fst ?s = map fst (take ?k ?s) @ map fst (drop ?k ?s)" by (metis append_take_drop_id map_append)
  then have disj: "set (map fst (take ?k ?s)) \<inter> set (map fst (drop ?k ?s)) = {}" and dt: "distinct (map fst (take ?k ?s))"
    using d by (metis distinct_append)+
  have "set (map fst (take ?k ?s)) \<subseteq> fst ` set snapshots - select_expired_snapshots snapshots current retention protected now_ms"
    using disj set_take_subset[of ?k ?s] by (force simp: select_expired_snapshots_def Let_def)
  then have "card (set (map fst (take ?k ?s))) \<le> card (fst ` set snapshots - select_expired_snapshots snapshots current retention protected now_ms)"
    by (intro card_mono) auto
  moreover have "card (set (map fst (take ?k ?s))) = min ?k (length snapshots)" using distinct_card[OF dt] by (simp add: min.commute)
  ultimately show ?thesis by simp
qed

text \<open>The versions that commits build from a table without snapshots.\<close>

inductive committed_versions :: "('w, 'f) ice_ops \<Rightarrow> IceMetadata \<Rightarrow> bool" for C where
  cv_empty: "imd_snapshots m = [] \<Longrightarrow> imd_current_snapshot_id m = None \<Longrightarrow> committed_versions C m"
| cv_commit: "committed_versions C m \<Longrightarrow> committed_versions C (ic_apply C tx m)"

lemma committed_wf: "apply_documented C \<Longrightarrow> committed_versions C m \<Longrightarrow> metadata_wf m"
  by (rotate_tac, induction rule: committed_versions.induct)
    (auto simp: metadata_wf_def[of m] lineage_wf_def metadata_wf_apply, simp add: metadata_wf_def lineage_wf_def)

section \<open>Properties\<close>

text \<open>Property C19. The walk over removed-file markers terminates and is exact. Whatever transactions commit to a table
  that starts without snapshots, the loop over the lineage of the current snapshot returns; and if the markers parse, it
  returns the union of the paths that the snapshots of that lineage mark as removed.\<close>

theorem lineage_walk_terminates:
  assumes "apply_documented C" "committed_versions C m"
  shows "\<exists>r. removed_data_file_paths M m = Some r \<and>
    ((\<forall>t. lineage (imd_snapshots m) (imd_current_snapshot_id m) t \<longrightarrow> is_ok (removed_on M t)) \<longrightarrow>
      r = Inr (\<Union> {ps. \<exists>t. lineage (imd_snapshots m) (imd_current_snapshot_id m) t \<and> removed_on M t = Inr ps}))"
  using removed_paths_total[OF committed_wf[OF assms], of M] removed_paths_exact[OF committed_wf[OF assms], of M]
  unfolding markers_def by (cases "removed_data_file_paths M m") auto

text \<open>Property C18. A replace swaps files exactly. When a replace of a table is published on the version it checked,
  the live files afterwards are the added files followed by the previously live files without the removed ones: the inputs of a
  compaction are no longer read and its outputs are read once, although the manifests still reference both.\<close>

theorem replace_swaps_files:
  assumes C: "apply_documented C" and m: "committed_versions C m"
    and load: "ic_load C w (make_table_ident (cr_table req)) = Inr table" "itb_metadata table = m"
    and tx: "replace_transaction V req m = Inr tx" "itx_append tx = Some a"
    and call: "try_commit_replace V C req w = (w', Inr m')"
    and here: "ic_commit_plain C (make_table_ident (cr_table req)) m tx w = (w', Inr (ic_apply C tx m))" "appends_manifest M C tx m"
    and json: "\<And>paths raw. cv_paths_json V paths = Some raw \<Longrightarrow> mo_paths_json M raw = Some paths"
    and live: "live_data_files M m = Some (Inr L)"
    and fresh: "\<forall>f \<in> set (iap_data_files a). mo_path M f \<notin> set (cr_removed_data_files req) \<and>
      (\<forall>R. removed_data_file_paths M m = Some (Inr R) \<longrightarrow> mo_path M f \<notin> R)"
  shows "map isn_id (filter (\<lambda>s. Some (isn_id s) = imd_current_snapshot_id m) (imd_snapshots m)) = [cr_base_snapshot_id req] \<and>
    (\<exists>L'. live_data_files M m' = Some (Inr L') \<and>
      map lf_file L' = iap_data_files a @ filter (\<lambda>f. mo_path M f \<notin> set (cr_removed_data_files req)) (map lf_file L))"
proof -
  have wf: "metadata_wf m" using committed_wf[OF C m] .
  obtain raw where raw: "cv_paths_json V (cr_removed_data_files req) = Some raw"
    "iap_snapshot_properties a = al_put REMOVED_DATA_FILES_PROP raw (cr_properties req)"
    using tx by (auto simp: replace_transaction_def ok_or_def split: option.splits)
  have base: "map_option isn_id (imd_current_snapshot m) = Some (cr_base_snapshot_id req)" and m': "m' = ic_apply C tx m"
    using call load tx here(1) by (auto simp: try_commit_replace_def Let_def split: if_splits)
  have "\<exists>L'. live_data_files M m' = Some (Inr L') \<and>
      map lf_file L' = iap_data_files a @ filter (\<lambda>f. mo_path M f \<notin> set (cr_removed_data_files req)) (map lf_file L)"
    using live_after_append[OF C wf here(2) tx(2) _ json[OF raw(1)] live fresh] by (simp add: raw(2) m')
  moreover have "distinct (map isn_id (imd_snapshots m))" using wf by (simp add: metadata_wf_def lineage_wf_def)
  then have "map isn_id (filter (\<lambda>s. Some (isn_id s) = imd_current_snapshot_id m) (imd_snapshots m)) = [cr_base_snapshot_id req]"
  proof -
    obtain c where c: "find (\<lambda>s. isn_id s = isn_id c) (imd_snapshots m) = Some c" "isn_id c = cr_base_snapshot_id req"
      "imd_current_snapshot_id m = Some (isn_id c)"
      using base by (auto simp: imd_current_snapshot_def find_Some_iff split: option.splits) metis
    then have "c \<in> set (imd_snapshots m)" by (auto simp: find_Some_iff)
    then have "filter (\<lambda>i. i = isn_id c) (map isn_id (imd_snapshots m)) = [isn_id c]"
      using \<open>distinct (map isn_id (imd_snapshots m))\<close> by (intro filter_unique) auto
    then show ?thesis using c by (simp add: filter_map comp_def)
  qed
  ultimately show ?thesis by blast
qed

text \<open>Property C17. The protected file set is safe for the sweeper. Whatever the retention policy and the clock, the retained paths
  of a table contain every live file of its current snapshot and every file that a pinned snapshot's manifests reference; the
  current and the pinned snapshots are retained, and so are at least \<open>keep_last\<close> snapshots.\<close>

theorem retention_protects_live:
  assumes m: "apply_documented C" "committed_versions C m"
    and r: "retained_file_set M retention protected clock m = Inr rf"
  shows "(\<forall>L. live_data_files M m = Some (Inr L) \<longrightarrow> (\<forall>l \<in> set L. mo_path M (lf_file l) \<in> rf_paths rf)) \<and>
    (\<forall>s \<in> set (imd_snapshots m). isn_id s \<in> protected \<longrightarrow> isn_id s \<in> rf_retained_snapshots rf \<and>
      (\<forall>ps p f. mo_manifests M s = Inr ps \<longrightarrow> p \<in> set ps \<longrightarrow> mo_read M p = Inr f \<longrightarrow> manifest_paths M f \<subseteq> rf_paths rf)) \<and>
    (\<forall>i. imd_current_snapshot_id m = Some i \<longrightarrow> i \<in> rf_retained_snapshots rf) \<and>
    min (max (sr_keep_last retention) 1) (length (imd_snapshots m)) \<le> card (rf_retained_snapshots rf)"
proof -
  have wf: "metadata_wf m" using committed_wf[OF m] .
  define history where "history = map (\<lambda>s. (isn_id s, isn_timestamp_ms s)) (imd_snapshots m)"
  define expired where "expired = select_expired_snapshots history (imd_current_snapshot_id m) retention protected
    (case clock of None \<Rightarrow> 0 | Some ms \<Rightarrow> min (int ms) i64_max)"
  have ids: "fst ` set history = isn_id ` set (imd_snapshots m)" by (auto simp: history_def image_image)
  have ret: "rf_retained_snapshots rf = isn_id ` set (imd_snapshots m) - expired"
    and paths: "collect_referenced_paths M (\<lambda>i. i \<in> isn_id ` set (imd_snapshots m) - expired) m = Inr (rf_paths rf)"
  proof -
    have "set (filter (\<lambda>i. i \<notin> expired) (map fst history)) = isn_id ` set (imd_snapshots m) - expired" using ids by auto
    then show "rf_retained_snapshots rf = isn_id ` set (imd_snapshots m) - expired"
      "collect_referenced_paths M (\<lambda>i. i \<in> isn_id ` set (imd_snapshots m) - expired) m = Inr (rf_paths rf)"
      using r unfolding retained_file_set_def Let_def history_def[symmetric] expired_def[symmetric] by auto
  qed
  have keep: "i \<notin> expired" if "imd_current_snapshot_id m = Some i \<or> i \<in> protected" for i
    using that expired_facts(1,2) unfolding expired_def by metis
  have cur: "i \<in> rf_retained_snapshots rf" if "imd_current_snapshot_id m = Some i" for i
    using that wf keep by (auto simp: ret metadata_wf_def)
  have live: "mo_path M (lf_file l) \<in> rf_paths rf" if L: "live_data_files M m = Some (Inr L)" "l \<in> set L" for L l
  proof -
    obtain s R ps where s: "imd_current_snapshot m = Some s" "mo_manifests M s = Inr ps" "live_of_manifests M R ps = Inr L"
      using L by (auto simp: live_data_files_def split: option.splits sum.splits)
    then have "s \<in> set (imd_snapshots m)" "imd_current_snapshot_id m = Some (isn_id s)"
      by (auto simp: imd_current_snapshot_def find_Some_iff split: option.splits)
    then show ?thesis
      using live_paths_in_manifests[OF s(3) L(2)] referenced_covers[OF paths _ _ s(2)] cur ret by blast
  qed
  have "min (max (sr_keep_last retention) 1) (length (imd_snapshots m)) \<le> card (rf_retained_snapshots rf)"
    using retained_count[of history retention] wf ids
    by (simp add: ret expired_def history_def comp_def metadata_wf_def lineage_wf_def)
  then show ?thesis using live cur keep ret referenced_covers[OF paths] by blast
qed


section \<open>A concrete table\<close>

text \<open>File \<open>a\<close> is live; a compaction replaces it by \<open>b\<close>, a concurrent one by \<open>c\<close>.\<close>

definition demo_output :: "string \<Rightarrow> DataFile" where
  "demo_output name = \<lparr>df_content = Data, df_path = \<lparr>ol_scheme = S3, ol_bucket = Some ''lake'', ol_key = name\<rparr>, df_format = Parquet,
     df_partition_spec_id = 0, df_sort_order_id = None, df_schema_id = 0, df_partition_values = [], df_record_count = 1,
     df_file_size_bytes = 1, df_column_sizes = [], df_value_counts = [], df_null_value_counts = [], df_nan_value_counts = [],
     df_lower_bounds = [], df_upper_bounds = [], df_split_offsets = [], df_equality_ids = [], df_key_metadata = None\<rparr>"

definition demo_path_convert :: "string convert_ops" where
  "demo_path_convert = \<lparr>cv_file = (\<lambda>f _. Inr (ol_key (df_path f))), cv_metadata = (\<lambda>_ _. Inr demo_metadata),
     cv_paths_json = (\<lambda>ps. if ps = [''a''] then Some ''x'' else None), cv_version = ''1''\<rparr>"

definition demo_manifest :: "string \<Rightarrow> string IceManifest" where
  "demo_manifest f = \<lparr>imf_schema_id = 0, imf_schema = \<lparr>sd_schema_id = 0, sd_columns = [], sd_identifier_field_ids = []\<rparr>,
     imf_partition_spec = \<lparr>sp_spec_id = 0, sp_fields = []\<rparr>, imf_entries = [(True, f)]\<rparr>"

definition demo_manifest_ops :: "string \<Rightarrow> string \<Rightarrow> string manifest_ops" where
  "demo_manifest_ops f g = \<lparr>mo_manifests = (\<lambda>s. Inr (if isn_id s = 1 then [''m1''] else if isn_id s = 2 then [''m2'', ''m1'']
       else [''m3'', ''m2'', ''m1''])),
     mo_read = (\<lambda>p. Inr (demo_manifest (if p = ''m1'' then ''a'' else if p = ''m2'' then f else g))),
     mo_path = id, mo_paths_json = (\<lambda>raw. if raw = ''x'' then Some [''a''] else None)\<rparr>"

definition demo_append_a :: "string IceTransaction" where
  "demo_append_a = \<lparr>itx_append = Some \<lparr>iap_commit_uuid = None, iap_data_files = [''a''], iap_snapshot_properties = []\<rparr>,
     itx_set_properties = [], itx_remove_properties = []\<rparr>"

definition demo_ice_a :: IceMetadata where
  "demo_ice_a = demo_apply demo_append_a (demo_ice\<lparr>imd_partition_specs := [\<lparr>sp_spec_id = 0, sp_fields = []\<rparr>]\<rparr>)"

definition demo_replace :: "string \<Rightarrow> CommitReplace" where
  "demo_replace f = \<lparr>cr_table = TableIdent_new ''ns'' ''t'', cr_base_snapshot_id = 1, cr_removed_data_files = [''a''],
     cr_added_data_files = [demo_output f], cr_properties = []\<rparr>"

definition demo_replace_tx :: "string \<Rightarrow> string IceTransaction" where
  "demo_replace_tx f = \<lparr>itx_append = Some \<lparr>iap_commit_uuid = None, iap_data_files = [f],
     iap_snapshot_properties = [(REMOVED_DATA_FILES_PROP, ''x'')]\<rparr>, itx_set_properties = [], itx_remove_properties = []\<rparr>"

lemmas demo_table = demo_ice_a_def demo_append_a_def demo_apply_def demo_ice_def put_all_def

lemma demo_ice_a_current: "imd_current_snapshot demo_ice_a =
    Some \<lparr>isn_id = 1, isn_parent = None, isn_timestamp_ms = 0, isn_props = []\<rparr>"
  by (simp add: demo_table imd_current_snapshot_def)

lemma demo_convert_added: "convert_data_files demo_path_convert (cr_table (demo_replace f)) demo_ice_a (cr_added_data_files (demo_replace f)) = Inr [f]"
  by (simp add: demo_replace_def demo_output_def demo_table demo_path_convert_def ok_or_def)

lemma demo_replace_transaction: "replace_transaction demo_path_convert (demo_replace f) demo_ice_a = Inr (demo_replace_tx f)"
  using demo_convert_added[of f]
  by (simp add: replace_transaction_def ok_or_def demo_replace_tx_def) (simp add: demo_path_convert_def demo_replace_def)

lemma demo_replace_call:
  assumes "ic_load C w (make_table_ident (TableIdent_new ''ns'' ''t'')) = Inr t" "itb_metadata t = demo_ice_a"
    and "ic_commit_plain C (make_table_ident (TableIdent_new ''ns'' ''t'')) demo_ice_a (demo_replace_tx f) w = (w', Inr m')"
  shows "try_commit_replace demo_path_convert C (demo_replace f) w = (w', Inr m')"
proof -
  have "cr_table (demo_replace f) = TableIdent_new ''ns'' ''t''" "cr_base_snapshot_id (demo_replace f) = 1" by (simp_all add: demo_replace_def)
  then show ?thesis using assms by (simp add: try_commit_replace_def demo_ice_a_current demo_replace_transaction)
qed

lemma demo_committed: "committed_versions (demo_ops :: (IceMetadata list, string) ice_ops) demo_ice_a"
  unfolding demo_ice_a_def
  using cv_commit[OF cv_empty, of "demo_ice\<lparr>imd_partition_specs := [\<lparr>sp_spec_id = 0, sp_fields = []\<rparr>]\<rparr>" "demo_ops :: (IceMetadata list, string) ice_ops" demo_append_a]
  by (simp add: demo_ice_def demo_ops_def)

lemma demo_removed_on:
  "removed_on (demo_manifest_ops f g) \<lparr>isn_id = i, isn_parent = p, isn_timestamp_ms = t, isn_props = []\<rparr> = Inr {}"
  "removed_on (demo_manifest_ops f g) \<lparr>isn_id = i, isn_parent = p, isn_timestamp_ms = t, isn_props = [(REMOVED_DATA_FILES_PROP, ''x'')]\<rparr> = Inr {''a''}"
  by (simp_all add: removed_on_def demo_manifest_ops_def)

lemma demo_removed_a: "removed_data_file_paths (demo_manifest_ops f g) demo_ice_a = Some (Inr {})"
  by (simp add: removed_data_file_paths_def demo_table snapshots_by_id_def removed_on_def removed_loop.simps)

lemma demo_live_a: "\<exists>L. live_data_files (demo_manifest_ops f g) demo_ice_a = Some (Inr L) \<and> map lf_file L = [''a'']"
  by (simp add: live_data_files_def demo_ice_a_current demo_removed_a)
    (simp add: demo_manifest_ops_def read_manifest_def live_entries_def demo_manifest_def)

lemma lineage_walk_terminates_witness:
  "\<exists>r. removed_data_file_paths (demo_manifest_ops ''b'' ''c'') demo_ice_a = Some r"
  using lineage_walk_terminates[OF demo_apply_documented demo_committed] by blast

lemma replace_swaps_files_witness:
  "\<exists>L'. live_data_files (demo_manifest_ops ''b'' ''c'') (demo_apply (demo_replace_tx ''b'') demo_ice_a) = Some (Inr L') \<and> map lf_file L' = [''b'']"
proof -
  let ?M = "demo_manifest_ops ''b'' ''c''" and ?C = "demo_ops :: (IceMetadata list, string) ice_ops"
    and ?id = "make_table_ident (cr_table (demo_replace ''b''))" and ?m' = "demo_apply (demo_replace_tx ''b'') demo_ice_a"
  have f: "cr_table (demo_replace ''b'') = TableIdent_new ''ns'' ''t''" "cr_removed_data_files (demo_replace ''b'') = [''a'']"
    by (simp_all add: demo_replace_def)
  have load: "ic_load ?C [demo_ice_a] ?id = Inr \<lparr>itb_identifier = ?id, itb_metadata = demo_ice_a\<rparr>" by (simp add: demo_ops_def)
  have call: "try_commit_replace demo_path_convert ?C (demo_replace ''b'') [demo_ice_a] = ([?m', demo_ice_a], Inr ?m')"
    using demo_replace_call[of ?C "[demo_ice_a]"] load by (simp add: f demo_ops_def)
  obtain L where L: "live_data_files ?M demo_ice_a = Some (Inr L)" "map lf_file L = [''a'']" by (rule exE[OF demo_live_a[of "''b''" "''c''"]], erule conjE, rule that)
  have here: "ic_commit_plain ?C ?id demo_ice_a (demo_replace_tx ''b'') [demo_ice_a] = ([?m', demo_ice_a], Inr (ic_apply ?C (demo_replace_tx ''b'') demo_ice_a))"
    "appends_manifest ?M ?C (demo_replace_tx ''b'') demo_ice_a"
    by (simp_all add: demo_ops_def appends_manifest_def demo_ice_a_current)
      (simp add: demo_replace_tx_def demo_table demo_manifest_ops_def demo_manifest_def)
  have json: "\<And>paths raw. cv_paths_json demo_path_convert paths = Some raw \<Longrightarrow> mo_paths_json ?M raw = Some paths"
    by (simp add: demo_path_convert_def demo_manifest_ops_def split: if_splits)
  have a: "itx_append (demo_replace_tx ''b'') = Some (the (itx_append (demo_replace_tx ''b'')))"
    and files: "iap_data_files (the (itx_append (demo_replace_tx ''b''))) = [''b'']" by (simp_all add: demo_replace_tx_def)
  have fresh: "\<forall>f \<in> set (iap_data_files (the (itx_append (demo_replace_tx ''b'')))). mo_path ?M f \<notin> set (cr_removed_data_files (demo_replace ''b'')) \<and>
      (\<forall>R. removed_data_file_paths ?M demo_ice_a = Some (Inr R) \<longrightarrow> mo_path ?M f \<notin> R)"
    by (simp add: f demo_removed_a files) (simp add: demo_manifest_ops_def)
  from replace_swaps_files[OF demo_apply_documented demo_committed load _ demo_replace_transaction a call here json L(1) fresh]
  show ?thesis using L(2) by (simp add: f files) (simp add: demo_manifest_ops_def)
qed

lemma retention_protects_live_witness:
  "retained_file_set (demo_manifest_ops ''b'' ''c'') \<lparr>sr_max_age_ms = 0, sr_keep_last = 0\<rparr> {} (Some 9) demo_ice_a =
      Inr \<lparr>rf_paths = {''a''}, rf_retained_snapshots = {1}, rf_expired_snapshots = 0\<rparr> \<and>
    1 \<le> card (rf_retained_snapshots \<lparr>rf_paths = {''a''}, rf_retained_snapshots = {1}, rf_expired_snapshots = 0\<rparr>)"
proof -
  have ss: "imd_snapshots demo_ice_a = [\<lparr>isn_id = 1, isn_parent = None, isn_timestamp_ms = 0, isn_props = []\<rparr>]" by (simp add: demo_table)
  have run: "retained_file_set (demo_manifest_ops ''b'' ''c'') \<lparr>sr_max_age_ms = 0, sr_keep_last = 0\<rparr> {} (Some 9) demo_ice_a =
      Inr \<lparr>rf_paths = {''a''}, rf_retained_snapshots = {1}, rf_expired_snapshots = 0\<rparr>"
    by (simp add: retained_file_set_def ss select_expired_snapshots_def collect_referenced_paths_def demo_manifest_ops_def
        read_manifest_def demo_manifest_def)
  show ?thesis using retention_protects_live[OF demo_apply_documented demo_committed run] run ss by simp
qed

text \<open>A catalog in which another client's transaction is published between the load and the commit of a call; the commit
  then reloads the table and applies its own transaction on top, as the Iceberg transaction does.\<close>

definition demo_race_ops :: "(IceMetadata list \<times> string IceTransaction option, string) ice_ops" where
  "demo_race_ops = \<lparr>ic_load = (\<lambda>w ident. ic_load (demo_ops :: (IceMetadata list, string) ice_ops) (fst w) ident),
     ic_commit = (\<lambda>refuse ident tx w. let (vs, seen, r) = demo_commit refuse ident tx (fst w) in ((vs, snd w), seen, r)),
     ic_commit_plain = (\<lambda>ident base tx (vs, other).
       let vs = (case other of None \<Rightarrow> vs | Some tx' \<Rightarrow> demo_apply tx' (hd vs) # vs)
       in ((demo_apply tx (hd vs) # vs, None), Inr (demo_apply tx (hd vs)))),
     ic_apply = demo_apply\<rparr>"

text \<open>Property C23. The base check of a replace is not repeated when the commit rebases. Two compactions of the same
  input \<open>a\<close> read the same base snapshot and both replaces answer success; afterwards both outputs \<open>b\<close> and \<open>c\<close>
  are live, so the rows of \<open>a\<close> are read twice.\<close>

theorem concurrent_replaces_both_live:
  "\<exists>w m L. try_commit_replace demo_path_convert demo_race_ops (demo_replace ''b'') ([demo_ice_a], None) =
        (([demo_apply (demo_replace_tx ''b'') demo_ice_a, demo_ice_a], None), Inr (demo_apply (demo_replace_tx ''b'') demo_ice_a)) \<and>
    try_commit_replace demo_path_convert demo_race_ops (demo_replace ''c'') ([demo_ice_a], Some (demo_replace_tx ''b'')) = (w, Inr m) \<and>
    live_data_files (demo_manifest_ops ''b'' ''c'') m = Some (Inr L) \<and> map lf_file L = [''c'', ''b'']"
proof -
  let ?b = "demo_apply (demo_replace_tx ''b'') demo_ice_a"
  let ?m = "demo_apply (demo_replace_tx ''c'') ?b"
  have load: "ic_load demo_race_ops ([demo_ice_a], x) ident = Inr \<lparr>itb_identifier = ident, itb_metadata = demo_ice_a\<rparr>" for x ident
    by (simp add: demo_race_ops_def demo_ops_def)
  have 1: "try_commit_replace demo_path_convert demo_race_ops (demo_replace ''b'') ([demo_ice_a], None) = (([?b, demo_ice_a], None), Inr ?b)"
    using demo_replace_call[OF load] by (simp add: demo_race_ops_def)
  have 2: "try_commit_replace demo_path_convert demo_race_ops (demo_replace ''c'') ([demo_ice_a], Some (demo_replace_tx ''b'')) =
      (([?m, ?b, demo_ice_a], None), Inr ?m)"
    using demo_replace_call[OF load] by (simp add: demo_race_ops_def)
  have cur: "imd_current_snapshot ?m = Some \<lparr>isn_id = 4, isn_parent = Some 2, isn_timestamp_ms = 0, isn_props = [(REMOVED_DATA_FILES_PROP, ''x'')]\<rparr>"
    by (simp add: demo_table demo_replace_tx_def imd_current_snapshot_def)
  have rem: "removed_data_file_paths (demo_manifest_ops ''b'' ''c'') ?m = Some (Inr {''a''})"
    by (simp add: removed_data_file_paths_def demo_table demo_replace_tx_def snapshots_by_id_def removed_loop.simps demo_removed_on)
  have live: "\<exists>L. live_data_files (demo_manifest_ops ''b'' ''c'') ?m = Some (Inr L) \<and> map lf_file L = [''c'', ''b'']"
    by (simp add: live_data_files_def cur rem) (simp add: demo_manifest_ops_def read_manifest_def live_entries_def demo_manifest_def)
  show ?thesis by (rule exE[OF live], intro exI conjI, rule 1, rule 2, erule conjunct1, erule conjunct2)
qed

end
