(* ===== verification/Spec2Isabelle.thy ===== *)
theory Spec2Isabelle
  imports Wal_Gc_Sound Wal_Identity Wal_Lease Wal_Manager Flush_Write Table_Buffer_Sound Manifests
begin

text \<open>
  A verification of the write path of TeoDB.

  \<^bold>\<open>The program.\<close> TeoDB is a lakehouse database. A batch that is ingested is appended to a write-ahead log
  (\<open>crates/teodb-storage/src/wal\<close>) and put into the hot buffer of its table (\<open>crates/teodb-ingest/src/buffer\<close>). A flush drains the buffer,
  writes Parquet files (\<open>crates/teodb-ingest/src/flush\<close>, \<open>crates/teodb-storage/src/parquet\<close>), persists a prepared intent beside the log and
  commits an append to an Iceberg catalog (\<open>crates/teodb-catalog\<close>), under the identity of its writer (cluster, slot, epoch and generation
  range, \<open>crates/teodb-core/src/write_protocol.rs\<close>). The commit moves the committed watermark of the buffer and of the log, after which
  segments can be collected. After a crash the log is replayed into the buffers. Compactions replace files, and retention decides which
  files of old snapshots are still needed.

  \<^bold>\<open>The theories.\<close>

  \<^item> \<open>Prelude\<close>: results, association lists, decimal text, text prefixes and splitting, and bounds of machine integers.
  \<^item> \<open>Core_Types\<close> (\<open>teodb-core/src/ident.rs\<close>, \<open>error.rs\<close>): identifiers and the error type, with codes, status and retry class.
  \<^item> \<open>Write_Protocol\<close> (\<open>write_protocol.rs\<close>): writer and commit identities, snapshot properties and writer checkpoints. A snapshot is
    recognised as the result of an append exactly if it carries its identity.
  \<^item> \<open>Location\<close> (\<open>location.rs\<close>): object locations and their URIs, with a round trip.
  \<^item> \<open>Table_Model\<close> (\<open>scalar.rs\<close>, \<open>schema.rs\<close>, \<open>file.rs\<close>, \<open>traits/catalog.rs\<close>): scalars and their partial order, schemas, data files,
    snapshots and table metadata.
  \<^item> \<open>Durable_File\<close>: atomic replacement of a small file under crashes and failing calls. The locale \<open>atomic_replace\<close> states what its
    clients rely on; it is interpreted for the identity file (\<open>Wal_Identity\<close>), for prepared intents (\<open>Wal_Prepared\<close>)
    and for the checkpoint (\<open>Wal_Manager\<close>).
  \<^item> \<open>Wal_Frame\<close> (\<open>wal/segment/segment.rs\<close>): the frame codec and the scan of a segment; round trip of every payload within the
    size limit, torn tails, corruption.
  \<^item> \<open>Wal_Replay\<close>, \<open>Wal_Replay_Sound\<close> (\<open>wal/replay.rs\<close>): the two-pass replay, and that it returns exactly the live records.
  \<^item> \<open>Wal_Gc\<close>, \<open>Wal_Gc_Sound\<close> (\<open>wal/gc.rs\<close>): garbage collection of segments, and that it does not change a replay.
  \<^item> \<open>Wal_Identity\<close> (\<open>wal/identity.rs\<close>): the durable identity; epochs grow strictly over every history of opens and crashes.
  \<^item> \<open>Wal_Prepared\<close> (\<open>wal/prepared.rs\<close>): prepared intents, as a refinement of a map from tables to intents.
  \<^item> \<open>Wal_Writer\<close> (\<open>wal/writer.rs\<close>): the writer task with group commit, roll-back and rotation; durability of acknowledged appends.
    A file of the directory knows how many of its bytes and whether its directory entry were synced; a crash keeps those, and of the rest
    what the arguments \<open>keep\<close> and \<open>survives\<close> say.
  \<^item> \<open>Wal_Lease\<close> (\<open>wal/state.rs\<close>, \<open>wal/manager.rs\<close>): the lease on a log directory as a step relation on system calls.
  \<^item> \<open>Wal_Manager\<close> (\<open>wal/manager.rs\<close>, \<open>wal/state.rs\<close>): open, checkpoints, append, rotation, replay, collection and disk usage;
    recovery after a restart. Replacing the identity or the checkpoint syncs the directory, and with it the entries of the segments.
  \<^item> \<open>Table_Buffer\<close>, \<open>Table_Buffer_Sound\<close> (\<open>teodb-ingest/src/buffer/table.rs\<close>): every method of the hot buffer, the invariant that each
    keeps, and over every sequence of calls the exactness of the watermark and the memory bound.
  \<^item> \<open>Compression\<close> (\<open>parquet/compression.rs\<close>): codecs, their text and its parser.
  \<^item> \<open>Parquet_Writer\<close> (\<open>parquet/writer.rs\<close>, \<open>sort.rs\<close>, \<open>spec.rs\<close>, \<open>stats.rs\<close>): sorting, slicing, rolling and the statistics of a file.
  \<^item> \<open>Flush_Write\<close> (\<open>flush/write.rs\<close>, \<open>flush/partitioning.rs\<close>, \<open>validate_prepared_data_files\<close> of \<open>flush/mod.rs\<close>): the files of a
    flush hold every row once, and an intent built from them can only be refused by the limits on files and bytes.
  \<^item> \<open>Iceberg_Convert\<close> (\<open>teodb-catalog/src/convert\<close>): types, scalars, partition directories, sort orders, data files and metadata.
  \<^item> \<open>Catalog_Commit\<close>, \<open>Append_Once\<close> (\<open>adapter/commit.rs\<close>, \<open>append_attempt_guard.rs\<close>, \<open>commit_error.rs\<close>, \<open>commit_metadata.rs\<close>): the
    commit paths, and over every history of a table that each generation is published at most once and that the status of an append
    is resolved exactly. The versions of a table carry the commit id they were published under, so that the result of a call is related
    to what this call published while other clients commit.
  \<^item> \<open>Manifests\<close> (\<open>adapter/manifests.rs\<close>, \<open>teodb-core/src/snapshot_retention.rs\<close>): live files, replaced files and retention.

  \<^bold>\<open>How the code is translated.\<close> A struct is a record, an enum a datatype, a method a function from the old state to the new state and a
  result (\<open>Inl\<close> is the error). Hash maps are association lists without repeated keys. Where their iteration order is visible it is an
  argument. Unsigned counters are natural numbers with the overflow check or the wrap-around of the source written out; bytes, UUIDs and floats
  are words. The text of an error is its format string without the formatted arguments. Logging, metrics and tracing are left out.

  What an operating system call answers is an argument: an \<open>io_plan\<close> for the replacement of a file, a \<open>group_io\<close> for a group of the writer task,
  \<open>read_ok\<close> and \<open>remove_ok\<close> for a collection. So the theorems cover every pattern of failures, and crashes where the plan
  says so. Concurrency is modelled where the source leaves it open: the lease interleaves system calls, the buffer interleaves whole methods (each
  takes its lock once), and a catalog history interleaves commits of several writers.

  Code of other packages is a parameter: Arrow (\<open>arrow_ops\<close>, \<open>part_ops\<close>, \<open>batch_ops\<close>), Parquet (\<open>parquet_ops\<close>), the object store
  (\<open>storage_ops\<close>), the Iceberg crate (\<open>ice_ops\<close>, \<open>ice_values\<close>, \<open>manifest_ops\<close>), JSON, UUID text and checksums (\<open>frame_codec\<close>,
  \<open>text_codec\<close>, \<open>identity_codec\<close>, \<open>prepared_codec\<close>). What the code relies on is a named predicate (\<open>arrow_documented\<close>,
  \<open>commit_documented\<close>, \<open>uuid_text_ok\<close> and so on), and every property with such a hypothesis has a witness on a concrete instance.

  \<^bold>\<open>Termination.\<close> No definition uses fuel. Loops over lists are structural, the others have a termination proof. The one loop
  that a cyclic input would never leave (\<open>removed_loop\<close> of \<open>Manifests\<close>) is a partial function with the value \<open>None\<close> for not
  returning, and it is proved to return on every version a catalog can hold.

  \<^bold>\<open>What the theorems showed.\<close> Six theorems record behaviour that departs from what the code means to do: a frame above the size limit
  is written but not readable (\<open>oversize_frame_is_corrupt\<close>); two replaces of one base can both publish (\<open>concurrent_replaces_both_live\<close>);
  the directory entry of a new segment is not synced (\<open>new_segment_entry_not_synced\<close>); releasing the lease can let two processes hold it
  (\<open>release_breaks_exclusion\<close>); small negative decimals lose their sign on the way to Iceberg (\<open>decimal_sign_lost\<close>); and unsigned integers of
  \<open>2\<^sup>6\<^sup>3\<close> or more come back negative (\<open>uint64_order_lost\<close>).

  \<^bold>\<open>What is not modelled.\<close> The orchestration of a flush (retries, shutdown and the scheduling of tables in \<open>flush/mod.rs\<close>, \<open>flush/commit.rs\<close>),
  the ingest service and its idempotency cache, the query engine on DataFusion (\<open>teodb-query\<close>), the distributed engine, compactor and
  orphan sweeper (\<open>teodb-distributed\<close>), the HTTP and Flight services (\<open>teodb-api\<close>), the server process (\<open>teodb-server\<close>), the block
  cache and the object-store backends of \<open>teodb-storage\<close>, clients, benchmarks and the frontend. They are mostly I/O, protocol
  glue and calls into other packages. In the modelled part, reading a segment during a replay and renaming a quarantined one always
  succeed, numbers of segments are natural numbers (theorems that create segments assume that they stay below \<open>2\<^sup>6\<^sup>4\<close>),
  a panic on a batch with fewer columns than its schema is not represented, and text
  functions of the standard library are modelled on ASCII text.
\<close>

end
